(* ===== verification/GoPrelude.thy ===== *)
theory GoPrelude
  imports Main "HOL-Library.Char_ord" "HOL-Library.List_Lexorder" "HOL-Library.AList"
    "HOL-Library.Monad_Syntax" "HOL-Library.Multiset" "HOL-Library.While_Combinator"
begin

text \<open>
  What the components share of the Go language and of its standard library.

  \<^item> A call that may fail to return (a run-time panic such as a division by zero, or a
    loop that never ends) has a result of type \<open>'a option\<close>, with \<open>None\<close> for "does not
    return". An \<open>error\<close> result is a value: \<open>Inl\<close> of an error datatype.
  \<^item> Go's \<open>int\<close> is modelled by \<open>int\<close>; conversions that narrow it are written out.
  \<^item> Strings are byte lists, compared bytewise as Go compares them (theories
    \<open>Char_ord\<close> and \<open>List_Lexorder\<close>).
  \<^item> A Go map is an association list with distinct keys. The order of the list is the
    order in which a \<open>range\<close> over the map visits it, so a fact proved for every list is a
    fact about every iteration order.
\<close>

named_theorems go_simps \<open>evaluation of the library functions the code calls\<close>

subsection \<open>Integers\<close>

text \<open>Go's integer division truncates towards zero and panics on a zero divisor.\<close>

definition go_quot :: "int \<Rightarrow> int \<Rightarrow> int" where
  "go_quot a b = sgn a * sgn b * (\<bar>a\<bar> div \<bar>b\<bar>)"

definition go_div :: "int \<Rightarrow> int \<Rightarrow> int option" where
  "go_div a b = (if b = 0 then None else Some (go_quot a b))"

lemma go_quot_nonneg [simp]: "0 \<le> a \<Longrightarrow> 0 < b \<Longrightarrow> go_quot a b = a div b"
  by (cases "a = 0") (auto simp: go_quot_def sgn_if)

lemma go_div_quot [simp]: "b \<noteq> 0 \<Longrightarrow> go_div a b = Some (go_quot a b)"
  by (simp add: go_div_def)

lemma go_quot_one [simp]: "go_quot a 1 = a"
  by (simp add: go_quot_def sgn_mult_abs)

lemma go_quot_neg: "a < 0 \<Longrightarrow> 0 < b \<Longrightarrow> go_quot a b = - ((- a) div b)"
  by (simp add: go_quot_def)

lemma go_quot_mono:
  assumes "a \<le> a'" "0 < b"
  shows "go_quot a b \<le> go_quot a' b"
proof (cases "0 \<le> a")
  case True
  with assms show ?thesis by (simp add: zdiv_mono1)
next
  case False
  then have q: "go_quot a b = - ((- a) div b)" "0 \<le> (- a) div b"
    using assms by (simp_all add: go_quot_neg pos_imp_zdiv_nonneg_iff)
  show ?thesis
  proof (cases "0 \<le> a'")
    case True
    then have "0 \<le> a' div b" using assms by (simp add: pos_imp_zdiv_nonneg_iff)
    with True q assms show ?thesis by simp
  next
    case False
    moreover have "(- a') div b \<le> (- a) div b" using assms by (intro zdiv_mono1) auto
    ultimately show ?thesis using assms q by (simp add: go_quot_neg)
  qed
qed

lemma le_div_iff: "0 < (b::int) \<Longrightarrow> n \<le> a div b \<longleftrightarrow> n * b \<le> a"
proof
  assume b: "0 < b" and "n \<le> a div b"
  then have "n * b \<le> a div b * b" by simp
  also have "\<dots> \<le> a" using b by (metis div_mult_mod_eq le_add_same_cancel1 pos_mod_sign)
  finally show "n * b \<le> a" .
next
  assume b: "0 < b" and "n * b \<le> a"
  from zdiv_mono1 [OF this(2) b] b show "n \<le> a div b" by simp
qed

subsection \<open>Decimal numbers\<close>

definition digit_char :: "nat \<Rightarrow> char" where
  "digit_char d = ''0123456789'' ! d"

definition is_digit :: "char \<Rightarrow> bool" where
  "is_digit c \<longleftrightarrow> c \<in> set ''0123456789''"

definition digit_val :: "char \<Rightarrow> nat" where
  "digit_val c = of_char c - 48"

fun itoa_nat :: "nat \<Rightarrow> string" where
  "itoa_nat n = (if n < 10 then [digit_char n] else itoa_nat (n div 10) @ [digit_char (n mod 10)])"

declare itoa_nat.simps [simp del]

text \<open>\<open>fmt.Sprintf("%d", i)\<close>.\<close>

definition itoa :: "int \<Rightarrow> string" where
  "itoa i = (if i < 0 then CHR ''-'' # itoa_nat (nat (- i)) else itoa_nat (nat i))"

definition digits_value :: "string \<Rightarrow> nat" where
  "digits_value s = foldl (\<lambda>n c. 10 * n + digit_val c) 0 s"

text \<open>
  \<open>strconv.Atoi\<close> on a 64-bit platform: an optional sign, at least one decimal digit,
  nothing else, and a value in the range of \<open>int64\<close>.
\<close>

definition atoi :: "string \<Rightarrow> int option" where
  "atoi s =
     (let neg = (s \<noteq> [] \<and> hd s = CHR ''-'');
          body = (if s \<noteq> [] \<and> (hd s = CHR ''-'' \<or> hd s = CHR ''+'') then tl s else s);
          n = int (digits_value body)
      in if body = [] \<or> \<not> list_all is_digit body then None
         else if neg then (if n \<le> 2 ^ 63 then Some (- n) else None)
         else if n < 2 ^ 63 then Some n else None)"

lemma less_ten_cases: "(d::nat) < 10 \<Longrightarrow> d \<in> {0, 1, 2, 3, 4, 5, 6, 7, 8, 9}"
  by auto

lemma digit_char_is_digit [simp]: "d < 10 \<Longrightarrow> is_digit (digit_char d)"
  by (drule less_ten_cases) (auto simp: digit_char_def is_digit_def)

lemma digit_val_char [simp]: "d < 10 \<Longrightarrow> digit_val (digit_char d) = d"
  by (drule less_ten_cases) (auto simp: digit_char_def digit_val_def)

lemma itoa_nat_digits: "list_all is_digit (itoa_nat n)"
proof (induction n rule: itoa_nat.induct)
  case (1 n)
  then show ?case by (subst itoa_nat.simps) auto
qed

lemma itoa_nat_nonempty [simp]: "itoa_nat n \<noteq> []"
  by (subst itoa_nat.simps) simp

lemma digits_value_snoc [simp]: "digits_value (s @ [c]) = 10 * digits_value s + digit_val c"
  by (simp add: digits_value_def)

lemma digits_value_itoa_nat [simp]: "digits_value (itoa_nat n) = n"
proof (induction n rule: itoa_nat.induct)
  case (1 n)
  show ?case
  proof (cases "n < 10")
    case True
    then show ?thesis by (subst itoa_nat.simps) (simp add: digits_value_def)
  next
    case False
    with 1 show ?thesis by (subst itoa_nat.simps) simp
  qed
qed

lemma itoa_nat_inj: "itoa_nat m = itoa_nat n \<longleftrightarrow> m = n"
  by (metis digits_value_itoa_nat)

lemma is_digit_neqs: "is_digit c \<Longrightarrow> c \<noteq> CHR ''-'' \<and> c \<noteq> CHR ''+'' \<and> c \<noteq> CHR ''/''"
  by (auto simp: is_digit_def)

lemma hd_itoa_nat: "is_digit (hd (itoa_nat n))"
  using itoa_nat_digits [of n] by (cases "itoa_nat n") auto

lemma atoi_itoa:
  assumes "- (2 ^ 63) \<le> i" "i < 2 ^ 63"
  shows "atoi (itoa i) = Some i"
proof (cases "i < 0")
  case True
  then show ?thesis using assms itoa_nat_digits [of "nat (- i)"]
    by (simp add: atoi_def itoa_def Let_def)
next
  case False
  then show ?thesis
    using assms itoa_nat_digits [of "nat i"] hd_itoa_nat [of "nat i"] is_digit_neqs
    by (auto simp: atoi_def itoa_def Let_def)
qed

lemma itoa_inj_nonneg: "0 \<le> i \<Longrightarrow> 0 \<le> j \<Longrightarrow> itoa i = itoa j \<longleftrightarrow> i = j"
  by (auto simp: itoa_def itoa_nat_inj)

subsection \<open>Strings\<close>

text \<open>\<open>strings.HasPrefix\<close>, \<open>strings.CutPrefix\<close> and \<open>strings.HasSuffix\<close>.\<close>

fun cut_prefix :: "string \<Rightarrow> string \<Rightarrow> string option" where
  "cut_prefix [] s = Some s"
| "cut_prefix (p # ps) [] = None"
| "cut_prefix (p # ps) (c # cs) = (if p = c then cut_prefix ps cs else None)"

definition has_prefix :: "string \<Rightarrow> string \<Rightarrow> bool" where
  "has_prefix p s \<longleftrightarrow> cut_prefix p s \<noteq> None"

definition has_suffix :: "string \<Rightarrow> string \<Rightarrow> bool" where
  "has_suffix p s \<longleftrightarrow> cut_prefix (rev p) (rev s) \<noteq> None"

lemma cut_prefix_append [simp]: "cut_prefix p (p @ s) = Some s"
  by (induction p) auto

lemma cut_prefix_Some: "cut_prefix p s = Some r \<longleftrightarrow> s = p @ r"
  by (induction p s rule: cut_prefix.induct) auto

lemma has_suffix_iff: "has_suffix p s \<longleftrightarrow> (\<exists>r. s = r @ p)"
  unfolding has_suffix_def using cut_prefix_Some [of "rev p" "rev s"]
  by (metis not_None_eq rev_append rev_rev_ident)

text \<open>\<open>strings.ReplaceAll(s, ".", "")\<close>.\<close>

definition strip_dots :: "string \<Rightarrow> string" where
  "strip_dots s = filter (\<lambda>c. c \<noteq> CHR ''.'') s"

text \<open>
  \<open>strings.ToLower\<close> on ASCII text. Go also lowers non-ASCII letters; the only two code
  points whose lower case is ASCII give a k and an i, which no string compared here holds.
\<close>

definition to_lower :: "string \<Rightarrow> string" where
  "to_lower s = map (\<lambda>c. if 65 \<le> (of_char c :: nat) \<and> (of_char c :: nat) \<le> 90
                         then char_of ((of_char c :: nat) + 32) else c) s"

text \<open>\<open>strings.Join\<close>.\<close>

fun join :: "string \<Rightarrow> string list \<Rightarrow> string" where
  "join sep [] = []"
| "join sep [x] = x"
| "join sep (x # xs) = x @ sep @ join sep xs"

text \<open>\<open>strings.Contains\<close>.\<close>

fun contains :: "string \<Rightarrow> string \<Rightarrow> bool" where
  "contains [] p = (p = [])"
| "contains (c # cs) p = (has_prefix p (c # cs) \<or> contains cs p)"

text \<open>\<open>strings.TrimSpace\<close> on ASCII text.\<close>

definition is_space :: "char \<Rightarrow> bool" where
  "is_space c \<longleftrightarrow> of_char c \<in> {9, 10, 11, 12, 13, 32 :: nat}"

definition trim_space :: "string \<Rightarrow> string" where
  "trim_space s = rev (dropWhile is_space (rev (dropWhile is_space s)))"

text \<open>
  \<open>fmt\<close>'s \<open>%q\<close> on text: a double-quoted Go string literal. Bytes above 127 are left as they
  are, which is what Go does with printable text in UTF-8.
\<close>

definition hex_char :: "nat \<Rightarrow> char" where
  "hex_char d = ''0123456789abcdef'' ! d"

definition quote_char :: "char \<Rightarrow> string" where
  "quote_char c =
     (let n = of_char c :: nat; esc = CHR 0x5C
      in if n = 34 then [esc, CHR 0x22] else if n = 92 then [esc, esc]
         else if n = 7 then [esc, CHR ''a''] else if n = 8 then [esc, CHR ''b'']
         else if n = 12 then [esc, CHR ''f''] else if n = 10 then [esc, CHR ''n'']
         else if n = 13 then [esc, CHR ''r''] else if n = 9 then [esc, CHR ''t'']
         else if n = 11 then [esc, CHR ''v'']
         else if n < 32 \<or> n = 127 then [esc, CHR ''x'', hex_char (n div 16), hex_char (n mod 16)]
         else [c])"

definition go_quote :: "string \<Rightarrow> string" where
  "go_quote s = CHR 0x22 # concat (map quote_char s) @ [CHR 0x22]"

lemma append_sep_inj:
  assumes "x @ c # d = x' @ c # d'" "c \<notin> set d" "c \<notin> set d'"
  shows "x = x' \<and> d = d'"
  using assms by (auto simp: append_eq_append_conv2 append_eq_Cons_conv Cons_eq_append_conv)

lemma sep_append_inj:
  assumes "d @ c # x = d' @ c # x'" "c \<notin> set d" "c \<notin> set d'"
  shows "d = d' \<and> x = x'"
  using assms by (auto simp: append_eq_append_conv2 append_eq_Cons_conv Cons_eq_append_conv)

lemma digits_free: "\<not> is_digit c \<Longrightarrow> 0 \<le> i \<Longrightarrow> c \<notin> set (itoa i)"
  using itoa_nat_digits [of "nat i"] by (auto simp: itoa_def list_all_iff)

lemma minus_free [simp]: "0 \<le> i \<Longrightarrow> CHR ''-'' \<notin> set (itoa i)"
  by (rule digits_free) (auto simp: is_digit_def)

subsection \<open>Maps\<close>

text \<open>
  What the code uses of a Go map: reading a key, writing a key, listing the keys. The
  laws are those of the language; the order of \<open>keys\<close> is not promised.
\<close>

locale go_map =
  fixes empty :: 'm
    and get :: "'m \<Rightarrow> 'k::linorder \<Rightarrow> 'v option"
    and put :: "'k \<Rightarrow> 'v \<Rightarrow> 'm \<Rightarrow> 'm"
    and keys :: "'m \<Rightarrow> 'k list"
    and invar :: "'m \<Rightarrow> bool"
  assumes get_empty: "get empty = Map.empty"
    and get_put: "invar m \<Longrightarrow> get (put k v m) = (get m)(k \<mapsto> v)"
    and set_keys: "invar m \<Longrightarrow> set (keys m) = dom (get m)"
    and distinct_keys: "invar m \<Longrightarrow> distinct (keys m)"
    and invar_empty: "invar empty"
    and invar_put: "invar m \<Longrightarrow> invar (put k v m)"
begin

text \<open>
  The code never relies on the iteration order where it sorts the keys first: the sorted
  key list is a function of what the map holds.
\<close>

lemma sorted_keys_canonical:
  assumes "invar m" "invar m'" "get m = get m'"
  shows "sort (keys m) = sort (keys m')"
proof -
  have "set (keys m) = set (keys m')" using assms by (simp add: set_keys)
  then have "mset (keys m) = mset (keys m')"
    using assms by (simp add: set_eq_iff_mset_eq_distinct distinct_keys)
  then show ?thesis by (metis properties_for_sort mset_sort sorted_sort)
qed

lemma sorted_keys_eq:
  assumes "invar m"
  shows "sort (keys m) = sorted_list_of_set (dom (get m))"
  using assms by (simp add: sorted_list_of_set_sort_remdups distinct_keys distinct_remdups_id flip: set_keys)

text \<open>
  A loop that folds each element of a list into the entry of its key, the shape of every
  grouping loop of the code: what ends up under a key depends on the elements with that
  key only, in list order.
\<close>

lemma invar_group:
  "invar m \<Longrightarrow> invar (fold (\<lambda>x m. put (key x) (f x (get m (key x))) m) xs m)"
  by (induction xs arbitrary: m) (auto intro: invar_put)

lemma get_group:
  "invar m \<Longrightarrow>
   get (fold (\<lambda>x m. put (key x) (f x (get m (key x))) m) xs m) k =
   fold (\<lambda>x e. Some (f x e)) (filter (\<lambda>x. key x = k) xs) (get m k)"
  by (induction xs arbitrary: m) (auto simp: get_put invar_put)

lemma dom_group:
  "invar m \<Longrightarrow>
   dom (get (fold (\<lambda>x m. put (key x) (f x (get m (key x))) m) xs m)) = dom (get m) \<union> key ` set xs"
  by (induction xs arbitrary: m) (auto simp: get_put invar_put)

end

abbreviation map_get :: "('k \<times> 'v) list \<Rightarrow> 'k \<Rightarrow> 'v option" where
  "map_get m k \<equiv> map_of m k"

abbreviation map_put :: "'k \<Rightarrow> 'v \<Rightarrow> ('k \<times> 'v) list \<Rightarrow> ('k \<times> 'v) list" where
  "map_put \<equiv> AList.update"

abbreviation map_keys :: "('k \<times> 'v) list \<Rightarrow> 'k list" where
  "map_keys m \<equiv> map fst m"

interpretation gm: go_map "[]" map_of AList.update "map fst" "\<lambda>m. distinct (map fst m)"
  by unfold_locales
    (auto simp: update_conv' dom_map_of_conv_image_fst distinct_update)

lemma map_put_keys [simp]: "fst ` set (map_put k v m) = insert k (fst ` set m)"
  by (simp add: dom_update)

lemma map_put_entry: "kv \<in> set (map_put k v m) \<Longrightarrow> kv = (k, v) \<or> kv \<in> set m"
  by (induction m) (auto split: if_splits)

lemma concat_map_Nil: "concat (map f xs) = [] \<longleftrightarrow> (\<forall>x\<in>set xs. f x = [])"
  by (induction xs) auto

lemma sort_same_set: "distinct xs \<Longrightarrow> distinct ys \<Longrightarrow> set xs = set ys \<Longrightarrow> sort xs = sort ys"
  by (metis sorted_list_of_set_sort_remdups distinct_remdups_id)

lemma map_zip_fst: "length xs = length ys \<Longrightarrow> map (\<lambda>x. f (fst x)) (zip xs ys) = map f xs"
  by (induction xs ys rule: list_induct2) auto

subsection \<open>Loops with an early exit\<close>

text \<open>A loop that appends one result per element and stops when an element has none.\<close>

fun collect :: "('a \<Rightarrow> 'b option) \<Rightarrow> 'a list \<Rightarrow> 'b list option" where
  "collect f [] = Some []"
| "collect f (x # xs) =
     (case f x of None \<Rightarrow> None
      | Some y \<Rightarrow> (case collect f xs of None \<Rightarrow> None | Some ys \<Rightarrow> Some (y # ys)))"

lemma collect_total:
  "(\<And>x. x \<in> set xs \<Longrightarrow> f x = Some (g x)) \<Longrightarrow> collect f xs = Some (map g xs)"
  by (induction xs) auto

lemma collect_Some_iff:
  "collect f xs = Some ys \<longleftrightarrow> list_all2 (\<lambda>x y. f x = Some y) xs ys"
  by (induction xs arbitrary: ys) (auto simp: list_all2_Cons1 split: option.splits, metis option.inject)

lemma collect_cong [fundef_cong]:
  "xs = ys \<Longrightarrow> (\<And>x. x \<in> set ys \<Longrightarrow> f x = g x) \<Longrightarrow> collect f xs = collect g ys"
  by (induction ys arbitrary: xs) (auto split: option.splits)

text \<open>The same loop where an element may also give an error value, which ends the loop.\<close>

fun collect_err :: "('a \<Rightarrow> ('e + 'b) option) \<Rightarrow> 'a list \<Rightarrow> ('e + 'b list) option" where
  "collect_err f [] = Some (Inr [])"
| "collect_err f (x # xs) =
     (case f x of None \<Rightarrow> None
      | Some (Inl e) \<Rightarrow> Some (Inl e)
      | Some (Inr y) \<Rightarrow>
          (case collect_err f xs of None \<Rightarrow> None
           | Some (Inl e) \<Rightarrow> Some (Inl e)
           | Some (Inr ys) \<Rightarrow> Some (Inr (y # ys))))"

lemma collect_err_total:
  "(\<And>x. x \<in> set xs \<Longrightarrow> f x = Some (Inr (g x))) \<Longrightarrow> collect_err f xs = Some (Inr (map g xs))"
  by (induction xs) auto

lemma collect_err_Inr_iff:
  "collect_err f xs = Some (Inr ys) \<longleftrightarrow> list_all2 (\<lambda>x y. f x = Some (Inr y)) xs ys"
  by (induction xs arbitrary: ys) (auto simp: list_all2_Cons1 split: option.splits sum.splits,
      metis option.inject sum.inject(2))

subsection \<open>Names that can be read back\<close>

text \<open>
  Several components find objects again by parsing the name another component gave them.
  A name is usable that way when parsing undoes printing; then no two objects share one.
\<close>

locale readable_name =
  fixes print :: "'a \<Rightarrow> string"
    and parse :: "string \<Rightarrow> 'a option"
    and valid :: "'a \<Rightarrow> bool"
  assumes parse_print: "valid x \<Longrightarrow> parse (print x) = Some x"
begin

lemma print_inject: "valid x \<Longrightarrow> valid y \<Longrightarrow> print x = print y \<longleftrightarrow> x = y"
  by (metis parse_print option.inject)

lemma print_inj_on: "\<forall>x\<in>A. valid x \<Longrightarrow> inj_on print A"
  by (auto intro: inj_onI simp: print_inject)

lemma distinct_map_print: "\<forall>x\<in>set xs. valid x \<Longrightarrow> distinct xs \<Longrightarrow> distinct (map print xs)"
  by (simp add: distinct_map print_inj_on)

lemma unreadable_not_printed: "valid x \<Longrightarrow> parse s = None \<Longrightarrow> s \<noteq> print x"
  by (auto simp: parse_print)

end

abbreviation int64 :: "int \<Rightarrow> bool" where
  "int64 i \<equiv> - (2 ^ 63) \<le> i \<and> i < 2 ^ 63"

interpretation decimal: readable_name itoa atoi int64
  by unfold_locales (simp add: atoi_itoa)

end
