(* ===== verification/MigProfiles.thy ===== *)
theory MigProfiles
  imports GoPrelude
begin

text \<open>
  internal/mig/profiles.go: the partition layout of each GPU family and the queries on it.
  \<open>Placements\<close> is the code's loop, as a \<open>while_option\<close>: it does not end for a profile of
  size zero, and the lemmas below give its result for every positive size.
\<close>

named_theorems mig_simps \<open>closed forms of the MIG queries\<close>

subsection \<open>Data\<close>

record mig_profile =
  mp_Name :: string
  mp_MemorySlices :: int
  mp_SMSlices :: int

record geometry =
  geo_MemorySlices :: int
  geo_SMSlices :: int
  geo_Profiles :: "mig_profile list"

datatype mig_error =
    MIGNotModelled string "string list"
  | UnknownMIGProfile string "string list"

definition shape :: "int \<Rightarrow> int \<Rightarrow> mig_profile" where
  "shape mem sm = \<lparr>mp_Name = [], mp_MemorySlices = mem, mp_SMSlices = sm\<rparr>"

definition datacenterShape :: "mig_profile list" where
  "datacenterShape = [shape 1 1, shape 2 1, shape 2 2, shape 4 3, shape 4 4, shape 8 7]"

text \<open>Panics unless there is one name per shape.\<close>

definition datacenterGeometry :: "string list \<Rightarrow> geometry option" where
  "datacenterGeometry names =
     (if length names \<noteq> length datacenterShape then None
      else Some \<lparr>geo_MemorySlices = 8, geo_SMSlices = 7,
             geo_Profiles = map2 (\<lambda>name p. p\<lparr>mp_Name := name\<rparr>) names datacenterShape\<rparr>)"

text \<open>The package variable; building it is part of package initialisation.\<close>

definition geometries_init :: "(string \<times> geometry) list option" where
  "geometries_init = do {
     a100 \<leftarrow> datacenterGeometry [''1g.5gb'', ''1g.10gb'', ''2g.10gb'', ''3g.20gb'', ''4g.20gb'', ''7g.40gb''];
     h100 \<leftarrow> datacenterGeometry [''1g.10gb'', ''1g.20gb'', ''2g.20gb'', ''3g.40gb'', ''4g.40gb'', ''7g.80gb''];
     h200 \<leftarrow> datacenterGeometry [''1g.18gb'', ''1g.35gb'', ''2g.35gb'', ''3g.71gb'', ''4g.71gb'', ''7g.141gb''];
     b200 \<leftarrow> datacenterGeometry [''1g.23gb'', ''1g.45gb'', ''2g.45gb'', ''3g.90gb'', ''4g.90gb'', ''7g.180gb''];
     Some [(''a100'', a100), (''h100'', h100), (''h200'', h200), (''b200'', b200)] }"

definition geometries :: "(string \<times> geometry) list" where
  "geometries = (case geometries_init of None \<Rightarrow> [] | Some gs \<Rightarrow> gs)"

subsection \<open>Operations\<close>

definition SupportedProfiles :: "string list" where
  "SupportedProfiles = sort (map_keys geometries)"

definition GeometryFor :: "string \<Rightarrow> mig_error + geometry" where
  "GeometryFor gpuProfile =
     (case map_get geometries (to_lower gpuProfile) of
        None \<Rightarrow> Inl (MIGNotModelled gpuProfile SupportedProfiles)
      | Some g \<Rightarrow> Inr g)"

definition Lookup :: "geometry \<Rightarrow> string \<Rightarrow> mig_profile option" where
  "Lookup g name = find (\<lambda>p. mp_Name p = name) (geo_Profiles g)"

definition Placements :: "geometry \<Rightarrow> mig_profile \<Rightarrow> int list option" where
  "Placements g p =
     map_option snd (while_option
       (\<lambda>(start, starts). start + mp_MemorySlices p \<le> geo_MemorySlices g)
       (\<lambda>(start, starts). (start + mp_MemorySlices p, starts @ [start]))
       (0, []))"

definition MaxInstances :: "geometry \<Rightarrow> mig_profile \<Rightarrow> int option" where
  "MaxInstances g p = do {
     byMemory \<leftarrow> go_div (geo_MemorySlices g) (mp_MemorySlices p);
     bySM \<leftarrow> go_div (geo_SMSlices g) (mp_SMSlices p);
     Some (if byMemory < bySM then byMemory else bySM) }"

definition TotalPartitions :: "geometry \<Rightarrow> mig_profile list \<Rightarrow> int option" where
  "TotalPartitions g profiles =
     map_option (\<lambda>ps. sum_list (map (int \<circ> length) ps)) (collect (Placements g) profiles)"

definition ProfileNames :: "geometry \<Rightarrow> string list" where
  "ProfileNames g = map mp_Name (geo_Profiles g)"

fun select_loop :: "geometry \<Rightarrow> string list \<Rightarrow> mig_error + mig_profile list" where
  "select_loop g [] = Inr []"
| "select_loop g (name # names) =
     (case Lookup g name of
        None \<Rightarrow> Inl (UnknownMIGProfile name (ProfileNames g))
      | Some p \<Rightarrow>
          (case select_loop g names of Inl e \<Rightarrow> Inl e | Inr ps \<Rightarrow> Inr (p # ps)))"

definition SelectProfiles :: "geometry \<Rightarrow> string list \<Rightarrow> mig_error + mig_profile list" where
  "SelectProfiles g names = (if names = [] then Inr (geo_Profiles g) else select_loop g names)"

subsection \<open>The tables\<close>

definition profile_ok :: "mig_profile \<Rightarrow> bool" where
  "profile_ok p \<longleftrightarrow> 0 < mp_MemorySlices p \<and> 0 < mp_SMSlices p"

definition geometry_ok :: "geometry \<Rightarrow> bool" where
  "geometry_ok g \<longleftrightarrow> 0 \<le> geo_MemorySlices g \<and> 0 \<le> geo_SMSlices g \<and> list_all profile_ok (geo_Profiles g)"

lemma geometries_init_Some: "geometries_init = Some geometries"
  by (simp add: geometries_def geometries_init_def datacenterGeometry_def datacenterShape_def)

lemmas geometry_table = geometries_def geometries_init_def datacenterGeometry_def
  datacenterShape_def shape_def

lemma keys_geometries: "map fst geometries = [''a100'', ''h100'', ''h200'', ''b200'']"
  by (simp add: geometry_table)

lemma geometries_shape:
  "map_get geometries k = Some g \<Longrightarrow>
     geo_MemorySlices g = 8 \<and> geo_SMSlices g = 7 \<and>
     map (mp_Name_update (\<lambda>_. [])) (geo_Profiles g) = datacenterShape \<and>
     distinct (map (strip_dots \<circ> mp_Name) (geo_Profiles g)) \<and>
     (\<forall>p\<in>set (geo_Profiles g). mp_Name p \<noteq> [])"
  by (auto simp: geometry_table strip_dots_def split: if_splits)

lemma GeometryFor_Inr: "GeometryFor k = Inr g \<Longrightarrow> map_get geometries (to_lower k) = Some g"
  by (simp add: GeometryFor_def split: option.splits)

lemma datacenterShape_ok: "list_all profile_ok datacenterShape"
  by (simp add: datacenterShape_def shape_def profile_ok_def)

lemma profile_ok_name [simp]: "profile_ok (p\<lparr>mp_Name := n\<rparr>) = profile_ok p"
  by (simp add: profile_ok_def)

lemma GeometryFor_ok:
  assumes "GeometryFor k = Inr g"
  shows "geometry_ok g"
proof -
  from geometries_shape [OF GeometryFor_Inr [OF assms]]
  have "list_all profile_ok (map (mp_Name_update (\<lambda>_. [])) (geo_Profiles g))"
    by (simp add: datacenterShape_ok)
  then have "list_all profile_ok (geo_Profiles g)" by (simp add: list.pred_map comp_def)
  with geometries_shape [OF GeometryFor_Inr [OF assms]] show ?thesis by (simp add: geometry_ok_def)
qed

subsection \<open>Closed forms\<close>

text \<open>How many aligned runs of a positive size fit into the memory slices.\<close>

definition slots :: "geometry \<Rightarrow> mig_profile \<Rightarrow> nat" where
  "slots g p = nat (geo_MemorySlices g div mp_MemorySlices p)"

lemma placements_loop:
  fixes size mem s :: int
  assumes "0 < size" "n = nat ((mem - s) div size)"
  shows "while_option (\<lambda>(start, starts). start + size \<le> mem)
           (\<lambda>(start, starts). (start + size, starts @ [start])) (s, acc) =
         Some (s + int n * size, acc @ map (\<lambda>k. s + int k * size) [0..<n])"
  using assms(2)
proof (induction n arbitrary: s acc)
  case 0
  then have "(mem - s) div size \<le> 0" by simp
  then have "\<not> s + size \<le> mem" using assms(1) pos_imp_zdiv_pos_iff [of size "mem - s"] by linarith
  then show ?case by (subst while_option_unfold) simp
next
  case (Suc n)
  then have pos: "1 \<le> (mem - s) div size" by simp
  then have le: "s + size \<le> mem" using assms(1) pos_imp_zdiv_pos_iff [of size "mem - s"] by linarith
  have "(mem - (s + size)) div size = (mem - s) div size - 1"
    using assms(1) div_add_self2 [of size "mem - s - size"] by (simp add: algebra_simps)
  then have n: "n = nat ((mem - (s + size)) div size)" using Suc.prems by simp
  have list: "map (\<lambda>k. s + int k * size) [0..<Suc n] =
              s # map (\<lambda>k. s + size + int k * size) [0..<n]"
    by (simp add: map_upt_Suc algebra_simps del: upt_Suc)
  have "while_option (\<lambda>(start, starts). start + size \<le> mem)
          (\<lambda>(start, starts). (start + size, starts @ [start])) (s, acc) =
        while_option (\<lambda>(start, starts). start + size \<le> mem)
          (\<lambda>(start, starts). (start + size, starts @ [start])) (s + size, acc @ [s])"
    using le by (subst while_option_unfold) simp
  also note Suc.IH [OF n, of "acc @ [s]"]
  finally show ?case by (simp only: list) (simp add: algebra_simps)
qed

lemma Placements_eq [mig_simps]:
  "0 < mp_MemorySlices p \<Longrightarrow>
   Placements g p = Some (map (\<lambda>k. int k * mp_MemorySlices p) [0..<slots g p])"
  using placements_loop [of "mp_MemorySlices p" "slots g p" "geo_MemorySlices g" 0 "[]"]
  by (simp add: Placements_def slots_def)

text \<open>A profile of size zero makes the loop endless.\<close>

lemma Placements_diverges:
  assumes "mp_MemorySlices p = 0" "0 \<le> geo_MemorySlices g"
  shows "Placements g p = None"
proof -
  let ?b = "\<lambda>(start, starts :: int list). start + mp_MemorySlices p \<le> geo_MemorySlices g"
  let ?c = "\<lambda>(start, starts). (start + mp_MemorySlices p, starts @ [start])"
  have "while_option ?b ?c (0, []) = None"
  proof (rule ccontr)
    assume "while_option ?b ?c (0, []) \<noteq> None"
    then obtain t where t: "while_option ?b ?c (0, []) = Some t" by auto
    have "fst t = 0"
      by (rule while_option_rule [OF _ t, where P = "\<lambda>s. fst s = 0"]) (auto simp: assms)
    with while_option_stop [OF t] assms show False by (cases t) auto
  qed
  then show ?thesis by (simp add: Placements_def)
qed

lemma int_slots: "0 \<le> geo_MemorySlices g \<Longrightarrow> 0 < mp_MemorySlices p \<Longrightarrow>
    int (slots g p) = geo_MemorySlices g div mp_MemorySlices p"
  by (simp add: slots_def pos_imp_zdiv_nonneg_iff)

lemma slots_fit:
  assumes "k < slots g p" "0 < mp_MemorySlices p"
  shows "int k * mp_MemorySlices p + mp_MemorySlices p \<le> geo_MemorySlices g"
proof -
  let ?m = "mp_MemorySlices p" and ?q = "geo_MemorySlices g div mp_MemorySlices p"
  have "int k + 1 \<le> ?q" using assms(1) by (auto simp: slots_def)
  then have "(int k + 1) * ?m \<le> ?q * ?m" using assms(2) by (intro mult_right_mono) auto
  also have "\<dots> \<le> geo_MemorySlices g"
    using assms(2) by (metis div_mult_mod_eq le_add_same_cancel1 pos_mod_sign)
  finally show ?thesis by (simp add: algebra_simps)
qed

lemma MaxInstances_eq [mig_simps]:
  "geometry_ok g \<Longrightarrow> profile_ok p \<Longrightarrow>
   MaxInstances g p = Some (min (geo_MemorySlices g div mp_MemorySlices p)
                                (geo_SMSlices g div mp_SMSlices p))"
  by (simp add: MaxInstances_def geometry_ok_def profile_ok_def)

lemma TotalPartitions_eq [mig_simps]:
  assumes "list_all profile_ok ps"
  shows "TotalPartitions g ps = Some (sum_list (map (int \<circ> slots g) ps))"
proof -
  have "collect (Placements g) ps =
        Some (map (\<lambda>p. map (\<lambda>k. int k * mp_MemorySlices p) [0..<slots g p]) ps)"
    using assms by (intro collect_total) (auto simp: list_all_iff profile_ok_def Placements_eq)
  then show ?thesis by (simp add: TotalPartitions_def comp_def)
qed

subsection \<open>Selecting profiles\<close>

lemma Lookup_Some: "Lookup g n = Some p \<Longrightarrow> p \<in> set (geo_Profiles g) \<and> mp_Name p = n"
  by (auto simp: Lookup_def find_Some_iff)

lemma Lookup_None: "Lookup g n = None \<longleftrightarrow> n \<notin> set (ProfileNames g)"
  by (auto simp: Lookup_def find_None_iff ProfileNames_def)

lemma select_loop_Inr:
  "select_loop g names = Inr ps \<longleftrightarrow> list_all2 (\<lambda>n p. Lookup g n = Some p) names ps"
  by (induction names arbitrary: ps)
    (auto simp: list_all2_Cons1 split: option.splits sum.splits, (metis sum.inject(2))+)

lemma select_loop_Inl:
  "(\<exists>e. select_loop g names = Inl e) \<longleftrightarrow> (\<exists>n\<in>set names. n \<notin> set (ProfileNames g))"
  by (induction names) (auto simp: Lookup_None split: option.splits sum.splits,
      (metis Lookup_None option.distinct(1))+)

lemma SelectProfiles_mem:
  assumes "SelectProfiles g names = Inr ps" "p \<in> set ps"
  shows "p \<in> set (geo_Profiles g)"
  using assms by (auto simp: SelectProfiles_def select_loop_Inr list_all2_conv_all_nth in_set_conv_nth
      split: if_splits dest!: Lookup_Some)

lemma SelectProfiles_ok:
  "geometry_ok g \<Longrightarrow> SelectProfiles g names = Inr ps \<Longrightarrow> list_all profile_ok ps"
  by (auto simp: geometry_ok_def list_all_iff dest: SelectProfiles_mem)

end
