(* ===== verification/MigPartitions.thy ===== *)
theory MigPartitions
  imports MigProfiles
begin

text \<open>
  internal/mig/partitions.go: the allocatable partitions of a GPU, their names and the
  memory slices they occupy; and what it means for a set of them to fit on the GPU.
\<close>

subsection \<open>Data and operations\<close>

record mig_partition =
  pt_Profile :: mig_profile
  pt_GPUIndex :: int
  pt_Start :: int
  pt_DeviceName :: string

definition MemorySliceCounter :: "int \<Rightarrow> string" where
  "MemorySliceCounter i = ''memory-slice-'' @ itoa i"

definition SMSliceCounter :: string where
  "SMSliceCounter = ''sm-slices''"

definition CounterSetName :: "int \<Rightarrow> string" where
  "CounterSetName gpuIndex = ''gpu-'' @ itoa gpuIndex"

text \<open>On the non-negative sizes every geometry has (a negative capacity panics in Go).\<close>

definition MemorySlices :: "mig_partition \<Rightarrow> int list" where
  "MemorySlices p = map (\<lambda>i. pt_Start p + int i) [0..<nat (mp_MemorySlices (pt_Profile p))]"

definition Overlaps :: "mig_partition \<Rightarrow> mig_partition \<Rightarrow> bool" where
  "Overlaps p other =
     (if pt_GPUIndex p \<noteq> pt_GPUIndex other then False
      else pt_Start p < pt_Start other + mp_MemorySlices (pt_Profile other) \<and>
           pt_Start other < pt_Start p + mp_MemorySlices (pt_Profile p))"

definition deviceName :: "int \<Rightarrow> string \<Rightarrow> int \<Rightarrow> string" where
  "deviceName gpuIndex profile start =
     ''gpu-'' @ itoa gpuIndex @ ''-mig-'' @ strip_dots profile @ ''-'' @ itoa start"

definition mk_partition :: "int \<Rightarrow> mig_profile \<Rightarrow> int \<Rightarrow> mig_partition" where
  "mk_partition gpuIndex profile start =
     \<lparr>pt_Profile = profile, pt_GPUIndex = gpuIndex, pt_Start = start,
      pt_DeviceName = deviceName gpuIndex (mp_Name profile) start\<rparr>"

definition PartitionsFor :: "geometry \<Rightarrow> mig_profile list \<Rightarrow> int \<Rightarrow> mig_partition list option" where
  "PartitionsFor g profiles gpuIndex =
     map_option concat
       (collect (\<lambda>p. map_option (map (mk_partition gpuIndex p)) (Placements g p)) profiles)"

lemma mk_partition_sel [simp]:
  "pt_Profile (mk_partition i p s) = p" "pt_GPUIndex (mk_partition i p s) = i"
  "pt_Start (mk_partition i p s) = s"
  "pt_DeviceName (mk_partition i p s) = deviceName i (mp_Name p) s"
  by (simp_all add: mk_partition_def)

lemma mk_partition_inject: "mk_partition i p s = mk_partition j q t \<longleftrightarrow> i = j \<and> p = q \<and> s = t"
  by (metis mk_partition_sel(1-3))

subsection \<open>Occupied memory\<close>

lemma set_MemorySlices:
  "set (MemorySlices p) = {pt_Start p ..< pt_Start p + mp_MemorySlices (pt_Profile p)}"
proof -
  have "(\<lambda>i. pt_Start p + int i) ` {0..<nat m} = {pt_Start p ..< pt_Start p + m}" for m
  proof (rule set_eqI)
    fix x
    show "x \<in> (\<lambda>i. pt_Start p + int i) ` {0..<nat m} \<longleftrightarrow> x \<in> {pt_Start p ..< pt_Start p + m}"
      by (auto intro!: image_eqI [where x = "nat (x - pt_Start p)"])
  qed
  then show ?thesis by (simp add: MemorySlices_def)
qed

lemma distinct_MemorySlices: "distinct (MemorySlices p)"
  by (simp add: MemorySlices_def distinct_map inj_on_def)

lemma Overlaps_sym: "Overlaps p q = Overlaps q p"
  by (auto simp: Overlaps_def)

text \<open>The arithmetic test is the same as sharing a memory slice.\<close>

lemma Overlaps_iff_shared:
  assumes "profile_ok (pt_Profile p)" "profile_ok (pt_Profile q)"
  shows "Overlaps p q \<longleftrightarrow>
         pt_GPUIndex p = pt_GPUIndex q \<and> set (MemorySlices p) \<inter> set (MemorySlices q) \<noteq> {}"
proof -
  let ?a = "pt_Start p" and ?m = "mp_MemorySlices (pt_Profile p)"
  let ?b = "pt_Start q" and ?n = "mp_MemorySlices (pt_Profile q)"
  have pos: "0 < ?m" "0 < ?n" using assms by (simp_all add: profile_ok_def)
  have "?a < ?b + ?n \<and> ?b < ?a + ?m \<longleftrightarrow> max ?a ?b \<in> {?a..<?a + ?m} \<inter> {?b..<?b + ?n}"
    using pos by auto
  moreover have "{?a..<?a + ?m} \<inter> {?b..<?b + ?n} \<noteq> {} \<Longrightarrow> max ?a ?b \<in> {?a..<?a + ?m} \<inter> {?b..<?b + ?n}"
    by auto
  ultimately show ?thesis unfolding Overlaps_def set_MemorySlices by auto
qed

subsection \<open>Enumeration\<close>

text \<open>The partitions of one profile, in placement order.\<close>

definition partitions_of :: "geometry \<Rightarrow> int \<Rightarrow> mig_profile \<Rightarrow> mig_partition list" where
  "partitions_of g gpuIndex p =
     map (\<lambda>k. mk_partition gpuIndex p (int k * mp_MemorySlices p)) [0..<slots g p]"

lemma PartitionsFor_eq [mig_simps]:
  assumes "list_all profile_ok profiles"
  shows "PartitionsFor g profiles i = Some (concat (map (partitions_of g i) profiles))"
proof -
  have "collect (\<lambda>p. map_option (map (mk_partition i p)) (Placements g p)) profiles =
        Some (map (partitions_of g i) profiles)"
    using assms
    by (intro collect_total) (simp add: list_all_iff profile_ok_def Placements_eq partitions_of_def comp_def)
  then show ?thesis by (simp add: PartitionsFor_def)
qed

lemma set_partitions_of:
  "x \<in> set (partitions_of g i p) \<longleftrightarrow>
   (\<exists>k<slots g p. x = mk_partition i p (int k * mp_MemorySlices p))"
  by (auto simp: partitions_of_def)

lemma length_partitions_of [simp]: "length (partitions_of g i p) = slots g p"
  by (simp add: partitions_of_def)

lemma distinct_partitions_of: "profile_ok p \<Longrightarrow> distinct (partitions_of g i p)"
  by (auto simp: partitions_of_def distinct_map inj_on_def mk_partition_inject profile_ok_def)

lemma partition_in_range:
  assumes "x \<in> set (partitions_of g i p)" "profile_ok p"
  shows "set (MemorySlices x) \<subseteq> {0..<geo_MemorySlices g}"
proof -
  obtain k where k: "k < slots g p" "x = mk_partition i p (int k * mp_MemorySlices p)"
    using assms(1) by (auto simp: set_partitions_of)
  moreover have "0 \<le> int k * mp_MemorySlices p" using assms(2) by (simp add: profile_ok_def)
  ultimately show ?thesis
    using slots_fit [OF k(1)] assms(2) by (auto simp: set_MemorySlices profile_ok_def)
qed

text \<open>Two aligned runs of one size are equal or disjoint.\<close>

lemma aligned_overlap:
  assumes "profile_ok p" "x \<in> set (partitions_of g i p)" "y \<in> set (partitions_of g i p)"
  shows "Overlaps x y \<longleftrightarrow> x = y"
proof -
  let ?m = "mp_MemorySlices p"
  have m: "0 < ?m" using assms(1) by (simp add: profile_ok_def)
  obtain j k where x: "x = mk_partition i p (int j * ?m)" and y: "y = mk_partition i p (int k * ?m)"
    using assms(2,3) by (auto simp: set_partitions_of)
  have "int j * ?m < int k * ?m + ?m \<longleftrightarrow> int j < int k + 1"
    using m mult_less_cancel_right_pos [of ?m "int j" "int k + 1"] by (simp add: algebra_simps)
  moreover have "int k * ?m < int j * ?m + ?m \<longleftrightarrow> int k < int j + 1"
    using m mult_less_cancel_right_pos [of ?m "int k" "int j + 1"] by (simp add: algebra_simps)
  ultimately show ?thesis using m by (auto simp: x y Overlaps_def mk_partition_inject)
qed

subsection \<open>Device names\<close>

lemma deviceName_inject:
  assumes "0 \<le> i" "0 \<le> i'" "0 \<le> s" "0 \<le> s'" "deviceName i p s = deviceName i' p' s'"
  shows "i = i' \<and> strip_dots p = strip_dots p' \<and> s = s'"
proof -
  have "itoa i @ CHR ''-'' # ''mig-'' @ strip_dots p @ ''-'' @ itoa s =
        itoa i' @ CHR ''-'' # ''mig-'' @ strip_dots p' @ ''-'' @ itoa s'"
    using assms(5) by (simp add: deviceName_def)
  then have i: "itoa i = itoa i'"
    and r: "strip_dots p @ CHR ''-'' # itoa s = strip_dots p' @ CHR ''-'' # itoa s'"
    using assms by (auto dest!: sep_append_inj)
  from append_sep_inj [OF r] assms have "strip_dots p = strip_dots p'" "itoa s = itoa s'" by simp_all
  with i assms show ?thesis by (simp add: itoa_inj_nonneg)
qed

lemma partition_name_inject:
  assumes "x \<in> set (partitions_of g i p)" "y \<in> set (partitions_of g j q)"
    and "profile_ok p" "profile_ok q" "0 \<le> i" "0 \<le> j" "pt_DeviceName x = pt_DeviceName y"
  shows "i = j \<and> strip_dots (mp_Name p) = strip_dots (mp_Name q) \<and> pt_Start x = pt_Start y"
proof -
  obtain k l where x: "x = mk_partition i p (int k * mp_MemorySlices p)"
    and y: "y = mk_partition j q (int l * mp_MemorySlices q)"
    using assms(1,2) by (auto simp: set_partitions_of)
  have "0 \<le> int k * mp_MemorySlices p" "0 \<le> int l * mp_MemorySlices q"
    using assms(3,4) by (simp_all add: profile_ok_def)
  from deviceName_inject [OF assms(5,6) this] assms(7) show ?thesis by (simp add: x y)
qed

lemma distinct_partition_names:
  assumes "list_all profile_ok ps" "distinct (map (strip_dots \<circ> mp_Name) ps)" "0 \<le> i"
  shows "distinct (map pt_DeviceName (concat (map (partitions_of g i) ps)))"
  using assms(1,2)
proof (induction ps)
  case (Cons p ps)
  have "inj_on pt_DeviceName (set (partitions_of g i p))"
  proof (rule inj_onI)
    fix x y
    assume x: "x \<in> set (partitions_of g i p)" and y: "y \<in> set (partitions_of g i p)"
      and n: "pt_DeviceName x = pt_DeviceName y"
    have "profile_ok p" using Cons.prems by simp
    from partition_name_inject [OF x y this this assms(3) assms(3) n]
    have "pt_Start x = pt_Start y" by simp
    with x y show "x = y" by (auto simp: set_partitions_of mk_partition_inject)
  qed
  moreover have "pt_DeviceName x \<noteq> pt_DeviceName y"
    if x: "x \<in> set (partitions_of g i p)" and q: "q \<in> set ps" and y: "y \<in> set (partitions_of g i q)"
    for x y q
  proof
    assume n: "pt_DeviceName x = pt_DeviceName y"
    have "profile_ok p" "profile_ok q" using Cons.prems q by (auto simp: list_all_iff)
    from partition_name_inject [OF x y this assms(3) assms(3) n]
    have "strip_dots (mp_Name p) = strip_dots (mp_Name q)" by simp
    with q Cons.prems(2) show False by (force simp: image_iff)
  qed
  ultimately show ?case
    using Cons by (auto simp: distinct_map distinct_partitions_of image_iff)
qed simp

end
