(* ===== verification/MigFragmentation.thy ===== *)
theory MigFragmentation
  imports MigPartitions
begin

text \<open>
  internal/mig/fragmentation.go: the state of a GPU implied by its allocated partitions and
  the per-profile report of what is free but unreachable. \<open>fits\<close> is the physical meaning the
  report is measured against.
\<close>

subsection \<open>Data and operations\<close>

record gpu_state =
  st_UsedMemorySlices :: "(int \<times> bool) list"
  st_UsedSMSlices :: int

record profile_fit =
  pf_Profile :: string
  pf_Ideal :: int
  pf_Actual :: int
  pf_Lost :: int

record report =
  rp_GPUIndex :: int
  rp_FreeMemorySlices :: int
  rp_FreeSMSlices :: int
  rp_LargestAllocatable :: string
  rp_Profiles :: "profile_fit list"

definition allocate :: "mig_partition \<Rightarrow> gpu_state \<Rightarrow> gpu_state" where
  "allocate p s = s\<lparr>
     st_UsedMemorySlices := fold (\<lambda>slice. map_put slice True) (MemorySlices p) (st_UsedMemorySlices s),
     st_UsedSMSlices := st_UsedSMSlices s + mp_SMSlices (pt_Profile p)\<rparr>"

definition StateFromAllocated :: "mig_partition list \<Rightarrow> gpu_state" where
  "StateFromAllocated allocated =
     fold allocate allocated \<lparr>st_UsedMemorySlices = [], st_UsedSMSlices = 0\<rparr>"

definition TotalLost :: "report \<Rightarrow> int" where
  "TotalLost r = sum_list (map pf_Lost (rp_Profiles r))"

definition placementIsFree :: "gpu_state \<Rightarrow> int \<Rightarrow> int \<Rightarrow> bool" where
  "placementIsFree s start sz =
     list_all (\<lambda>i. map_get (st_UsedMemorySlices s) i \<noteq> Some True) [start..start + sz - 1]"

definition profile_fit_of :: "geometry \<Rightarrow> gpu_state \<Rightarrow> int \<Rightarrow> int \<Rightarrow> mig_profile \<Rightarrow> profile_fit option" where
  "profile_fit_of g s freeMemory freeSM p = do {
     byMemory \<leftarrow> go_div freeMemory (mp_MemorySlices p);
     bySM \<leftarrow> go_div freeSM (mp_SMSlices p);
     starts \<leftarrow> Placements g p;
     let free = int (length (filter (\<lambda>start. placementIsFree s start (mp_MemorySlices p)) starts));
     let ideal = min byMemory bySM;
     let actual = min free bySM;
     Some \<lparr>pf_Profile = mp_Name p, pf_Ideal = ideal, pf_Actual = actual, pf_Lost = ideal - actual\<rparr> }"

definition largest_of :: "profile_fit list \<Rightarrow> string" where
  "largest_of fits = fold (\<lambda>f l. if 0 < pf_Actual f then pf_Profile f else l) fits []"

definition Analyse :: "geometry \<Rightarrow> mig_profile list \<Rightarrow> int \<Rightarrow> gpu_state \<Rightarrow> report option" where
  "Analyse g profiles gpuIndex s = do {
     let freeMemory = geo_MemorySlices g - int (length (st_UsedMemorySlices s));
     let freeSM = geo_SMSlices g - st_UsedSMSlices s;
     fits \<leftarrow> collect (profile_fit_of g s freeMemory freeSM) profiles;
     Some \<lparr>rp_GPUIndex = gpuIndex, rp_FreeMemorySlices = freeMemory, rp_FreeSMSlices = freeSM,
           rp_LargestAllocatable = largest_of fits, rp_Profiles = fits\<rparr> }"

subsection \<open>The occupied slices\<close>

definition used :: "gpu_state \<Rightarrow> int set" where
  "used s = {i. map_get (st_UsedMemorySlices s) i = Some True}"

definition state_ok :: "gpu_state \<Rightarrow> bool" where
  "state_ok s \<longleftrightarrow> distinct (map_keys (st_UsedMemorySlices s)) \<and> (\<forall>kv\<in>set (st_UsedMemorySlices s). snd kv)"

lemma used_keys: "state_ok s \<Longrightarrow> used s = set (map_keys (st_UsedMemorySlices s))"
  by (force simp: used_def state_ok_def map_of_eq_None_iff image_iff dest: map_of_SomeD
      intro: map_of_is_SomeI)

lemma finite_used: "state_ok s \<Longrightarrow> finite (used s)"
  by (simp add: used_keys)

lemma card_used: "state_ok s \<Longrightarrow> card (used s) = length (st_UsedMemorySlices s)"
  by (metis distinct_card length_map state_ok_def used_keys)

lemma put_all_True:
  assumes "distinct (map fst m)" "\<forall>kv\<in>set m. snd kv"
  shows "distinct (map fst (fold (\<lambda>i. map_put i True) is m)) \<and>
         (\<forall>kv\<in>set (fold (\<lambda>i. map_put i True) is m). snd kv) \<and>
         set (map fst (fold (\<lambda>i. map_put i True) is m)) = set (map fst m) \<union> set is"
  using assms
proof (induction "is" arbitrary: m)
  case (Cons i "is")
  have "distinct (map fst (map_put i True m))" using Cons.prems by (simp add: distinct_update)
  moreover have "\<forall>kv\<in>set (map_put i True m). snd kv"
    using Cons.prems by (auto dest!: map_put_entry)
  ultimately show ?case using Cons.IH [of "map_put i True m"] by auto
qed simp

lemma allocate_state:
  assumes "state_ok s"
  shows "state_ok (allocate p s)" "used (allocate p s) = used s \<union> set (MemorySlices p)"
    "st_UsedSMSlices (allocate p s) = st_UsedSMSlices s + mp_SMSlices (pt_Profile p)"
proof -
  note put = put_all_True [of "st_UsedMemorySlices s" "MemorySlices p"]
  show ok: "state_ok (allocate p s)" using assms put by (simp add: state_ok_def allocate_def)
  show "used (allocate p s) = used s \<union> set (MemorySlices p)"
    unfolding used_keys [OF ok] used_keys [OF assms]
    using assms put by (simp add: allocate_def state_ok_def)
qed (simp add: allocate_def)

lemma fold_allocate:
  "state_ok s \<Longrightarrow> state_ok (fold allocate ps s) \<and>
     used (fold allocate ps s) = used s \<union> (\<Union>p\<in>set ps. set (MemorySlices p)) \<and>
     st_UsedSMSlices (fold allocate ps s) =
       st_UsedSMSlices s + sum_list (map (mp_SMSlices \<circ> pt_Profile) ps)"
  by (induction ps arbitrary: s) (auto simp: allocate_state)

lemma state_ok_empty: "state_ok \<lparr>st_UsedMemorySlices = [], st_UsedSMSlices = n\<rparr>"
  by (simp add: state_ok_def)

lemma StateFromAllocated_state:
  "state_ok (StateFromAllocated ps)"
  "used (StateFromAllocated ps) = (\<Union>p\<in>set ps. set (MemorySlices p))"
  "st_UsedSMSlices (StateFromAllocated ps) = sum_list (map (mp_SMSlices \<circ> pt_Profile) ps)"
  using fold_allocate [OF state_ok_empty [of 0], of ps]
  by (simp_all add: StateFromAllocated_def used_def)

subsection \<open>Free placements\<close>

text \<open>The positions of an aligned run, and the placements of a profile that are free.\<close>

definition run :: "mig_profile \<Rightarrow> nat \<Rightarrow> int set" where
  "run p k = {int k * mp_MemorySlices p ..< int k * mp_MemorySlices p + mp_MemorySlices p}"

definition free_slots :: "geometry \<Rightarrow> gpu_state \<Rightarrow> mig_profile \<Rightarrow> nat set" where
  "free_slots g s p = {k. k < slots g p \<and> run p k \<inter> used s = {}}"

lemma finite_free_slots [simp]: "finite (free_slots g s p)"
  by (simp add: free_slots_def)

lemma placementIsFree_iff:
  "placementIsFree s (int k * mp_MemorySlices p) (mp_MemorySlices p) \<longleftrightarrow> run p k \<inter> used s = {}"
  by (auto simp: placementIsFree_def list_all_iff run_def used_def)

lemma length_filter_card: "length (filter P [0..<n]) = card {k. k < n \<and> P k}"
proof -
  have "length (filter P [0..<n]) = card (set (filter P [0..<n]))"
    by (intro distinct_card [symmetric] distinct_filter distinct_upt)
  also have "set (filter P [0..<n]) = {k. k < n \<and> P k}" by auto
  finally show ?thesis .
qed

lemma count_free:
  "length (filter ((\<lambda>start. placementIsFree s start (mp_MemorySlices p)) \<circ>
       (\<lambda>k. int k * mp_MemorySlices p)) [0..<slots g p]) = card (free_slots g s p)"
  by (simp add: comp_def placementIsFree_iff length_filter_card free_slots_def)

lemma run_disjoint: "0 < mp_MemorySlices p \<Longrightarrow> j \<noteq> k \<Longrightarrow> run p j \<inter> run p k = {}"
proof (induction j k rule: linorder_wlog)
  case (le j k)
  then have "(int j + 1) * mp_MemorySlices p \<le> int k * mp_MemorySlices p"
    by (intro mult_right_mono) auto
  then show ?case by (auto simp: run_def algebra_simps)
next
  case (sym j k)
  then show ?case by blast
qed

lemma card_run: "card (run p k) = nat (mp_MemorySlices p)"
  by (simp add: run_def)

lemma run_in_range: "0 < mp_MemorySlices p \<Longrightarrow> k < slots g p \<Longrightarrow> run p k \<subseteq> {0..<geo_MemorySlices g}"
  using slots_fit [of k g p] by (auto simp: run_def intro: order_trans [OF mult_nonneg_nonneg])

text \<open>The free runs are disjoint, so together they need that much free memory.\<close>

lemma free_slots_memory:
  assumes p: "0 < mp_MemorySlices p" and g: "0 \<le> geo_MemorySlices g" and ok: "state_ok s"
    and range: "used s \<subseteq> {0..<geo_MemorySlices g}"
  shows "int (card (free_slots g s p)) * mp_MemorySlices p
         \<le> geo_MemorySlices g - int (length (st_UsedMemorySlices s))"
proof -
  let ?F = "free_slots g s p" and ?all = "{0..<geo_MemorySlices g}"
  have "card (\<Union>k\<in>?F. run p k) = (\<Sum>k\<in>?F. card (run p k))"
    by (rule card_UN_disjoint) (simp_all add: run_disjoint [OF p], simp add: run_def)
  also have "\<dots> = card ?F * nat (mp_MemorySlices p)" by (simp add: card_run)
  finally have "card ?F * nat (mp_MemorySlices p) = card (\<Union>k\<in>?F. run p k)" by simp
  also have "\<dots> \<le> card (?all - used s)"
    using run_in_range [OF p, of _ g] by (intro card_mono) (auto simp: free_slots_def)
  also have "\<dots> = nat (geo_MemorySlices g) - length (st_UsedMemorySlices s)"
    using range by (simp add: card_Diff_subset finite_used [OF ok] card_used [OF ok])
  finally have "card ?F * nat (mp_MemorySlices p)
    \<le> nat (geo_MemorySlices g) - length (st_UsedMemorySlices s)" .
  moreover have "length (st_UsedMemorySlices s) \<le> nat (geo_MemorySlices g)"
    using card_mono [OF _ range] by (simp add: card_used [OF ok])
  ultimately have "int (card ?F * nat (mp_MemorySlices p))
    \<le> geo_MemorySlices g - int (length (st_UsedMemorySlices s))" using g by linarith
  then show ?thesis using p by simp
qed

subsection \<open>The report\<close>

definition fit_of :: "geometry \<Rightarrow> gpu_state \<Rightarrow> mig_profile \<Rightarrow> profile_fit" where
  "fit_of g s p =
     (let fm = geo_MemorySlices g - int (length (st_UsedMemorySlices s));
          bySM = go_quot (geo_SMSlices g - st_UsedSMSlices s) (mp_SMSlices p);
          ideal = min (go_quot fm (mp_MemorySlices p)) bySM;
          actual = min (int (card (free_slots g s p))) bySM
      in \<lparr>pf_Profile = mp_Name p, pf_Ideal = ideal, pf_Actual = actual, pf_Lost = ideal - actual\<rparr>)"

lemma profile_fit_of_eq:
  assumes "profile_ok p"
  shows "profile_fit_of g s (geo_MemorySlices g - int (length (st_UsedMemorySlices s)))
           (geo_SMSlices g - st_UsedSMSlices s) p = Some (fit_of g s p)"
  using assms
  by (simp add: profile_fit_of_def fit_of_def Let_def Placements_eq profile_ok_def filter_map
      count_free)

lemma Analyse_eq [mig_simps]:
  assumes "list_all profile_ok profiles"
  shows "Analyse g profiles i s = Some
    \<lparr>rp_GPUIndex = i,
     rp_FreeMemorySlices = geo_MemorySlices g - int (length (st_UsedMemorySlices s)),
     rp_FreeSMSlices = geo_SMSlices g - st_UsedSMSlices s,
     rp_LargestAllocatable = largest_of (map (fit_of g s) profiles),
     rp_Profiles = map (fit_of g s) profiles\<rparr>"
proof -
  have "collect (profile_fit_of g s (geo_MemorySlices g - int (length (st_UsedMemorySlices s)))
           (geo_SMSlices g - st_UsedSMSlices s)) profiles = Some (map (fit_of g s) profiles)"
    using assms by (intro collect_total) (simp add: list_all_iff profile_fit_of_eq)
  then show ?thesis by (simp add: Analyse_def Let_def)
qed

text \<open>The loss of one profile is never negative, and nothing is lost on an idle GPU.\<close>

lemma fit_lost_nonneg:
  assumes "geometry_ok g" "profile_ok p" "state_ok s" "used s \<subseteq> {0..<geo_MemorySlices g}"
  shows "0 \<le> pf_Lost (fit_of g s p)"
proof -
  let ?fm = "geo_MemorySlices g - int (length (st_UsedMemorySlices s))"
  have m: "0 < mp_MemorySlices p" using assms(2) by (simp add: profile_ok_def)
  have le: "int (card (free_slots g s p)) * mp_MemorySlices p \<le> ?fm"
    using assms m by (intro free_slots_memory) (auto simp: geometry_ok_def)
  then have "0 \<le> ?fm" using m by (smt (verit) mult_nonneg_nonneg of_nat_0_le_iff)
  moreover have "int (card (free_slots g s p)) \<le> ?fm div mp_MemorySlices p"
    using le m zdiv_mono1 [OF le m] by simp
  ultimately show ?thesis using m by (simp add: fit_of_def Let_def)
qed

lemma free_slots_idle: "used s = {} \<Longrightarrow> free_slots g s p = {..<slots g p}"
  by (auto simp: free_slots_def)

lemma fit_lost_idle:
  assumes "geometry_ok g" "profile_ok p" "state_ok s" "used s = {}"
  shows "pf_Lost (fit_of g s p) = 0"
proof -
  have "length (st_UsedMemorySlices s) = 0" using card_used [OF assms(3)] assms(4) by simp
  with assms show ?thesis
    by (simp add: fit_of_def Let_def free_slots_idle geometry_ok_def profile_ok_def int_slots)
qed

text \<open>A profile of one slice fits in every free slice, so it never loses anything.\<close>

lemma fit_lost_unit:
  assumes "geometry_ok g" "profile_ok p" "state_ok s" "used s \<subseteq> {0..<geo_MemorySlices g}"
    and "mp_MemorySlices p = 1"
  shows "pf_Lost (fit_of g s p) = 0"
proof -
  have "free_slots g s p = nat ` ({0..<geo_MemorySlices g} - used s)"
  proof (rule set_eqI)
    fix k
    have "k \<in> free_slots g s p \<longleftrightarrow> int k < geo_MemorySlices g \<and> int k \<notin> used s"
      using assms(1,5) by (auto simp: free_slots_def slots_def run_def geometry_ok_def)
    then show "k \<in> free_slots g s p \<longleftrightarrow> k \<in> nat ` ({0..<geo_MemorySlices g} - used s)"
      by (auto intro!: image_eqI [where x = "int k"])
  qed
  also have "card \<dots> = card ({0..<geo_MemorySlices g} - used s)"
    by (intro card_image inj_onI) auto
  also have "\<dots> = nat (geo_MemorySlices g) - length (st_UsedMemorySlices s)"
    using assms by (simp add: card_Diff_subset finite_used card_used)
  finally have c: "card (free_slots g s p) = nat (geo_MemorySlices g) - length (st_UsedMemorySlices s)" .
  have "length (st_UsedMemorySlices s) \<le> nat (geo_MemorySlices g)"
    using card_mono [OF _ assms(4)] by (simp add: card_used [OF assms(3)])
  with c assms show ?thesis by (simp add: fit_of_def Let_def geometry_ok_def)
qed

text \<open>\<open>LargestAllocatable\<close> is the last profile of the list that still fits.\<close>

lemma largest_of_snoc: "largest_of (fs @ [f]) = (if 0 < pf_Actual f then pf_Profile f else largest_of fs)"
  by (simp add: largest_of_def)

lemma largest_of_spec:
  "(\<forall>f\<in>set fs. pf_Actual f \<le> 0) \<and> largest_of fs = [] \<or>
   (\<exists>xs f ys. fs = xs @ f # ys \<and> 0 < pf_Actual f \<and> (\<forall>f\<in>set ys. pf_Actual f \<le> 0) \<and>
              largest_of fs = pf_Profile f)"
proof (induction fs rule: rev_induct)
  case Nil
  then show ?case by (simp add: largest_of_def)
next
  case (snoc f fs)
  show ?case
  proof (cases "0 < pf_Actual f")
    case True
    then show ?thesis by (intro disjI2 exI [of _ fs] exI [of _ f] exI [of _ "[]"]) (simp add: largest_of_snoc)
  next
    case False
    then have eq: "largest_of (fs @ [f]) = largest_of fs" by (simp add: largest_of_snoc)
    from snoc.IH show ?thesis
    proof (elim disjE exE conjE)
      assume "\<forall>f\<in>set fs. pf_Actual f \<le> 0" "largest_of fs = []"
      with False eq show ?thesis by auto
    next
      fix xs f' ys
      assume "fs = xs @ f' # ys" "0 < pf_Actual f'" "\<forall>f\<in>set ys. pf_Actual f \<le> 0"
        "largest_of fs = pf_Profile f'"
      with False eq show ?thesis
        by (intro disjI2 exI [of _ xs] exI [of _ f'] exI [of _ "ys @ [f]"]) auto
    qed
  qed
qed

end
