(* ===== verification/MigCapacity.thy ===== *)
theory MigCapacity
  imports MigFragmentation
begin

text \<open>
  What the capacity figures of internal/mig mean. \<open>fits\<close> says that partitions can coexist on
  one physical GPU: no two occupy a common memory slice and together they need no more
  compute slices than there are. \<open>MaxInstances\<close> and the \<open>Actual\<close> column of \<open>Analyse\<close> are shown
  to be maxima of sets of partitions that fit.
\<close>

definition fits :: "geometry \<Rightarrow> mig_partition list \<Rightarrow> bool" where
  "fits g ps \<longleftrightarrow> sorted_wrt (\<lambda>a b. \<not> Overlaps a b) ps \<and>
               sum_list (map (mp_SMSlices \<circ> pt_Profile) ps) \<le> geo_SMSlices g"

text \<open>Partitions handed out on the GPU with index \<open>i\<close>: well formed, in range, and fitting.\<close>

definition allocation_ok :: "geometry \<Rightarrow> int \<Rightarrow> mig_partition list \<Rightarrow> bool" where
  "allocation_ok g i ps \<longleftrightarrow> fits g ps \<and>
     list_all (\<lambda>p. pt_GPUIndex p = i \<and> profile_ok (pt_Profile p) \<and>
        0 \<le> pt_Start p \<and> pt_Start p + mp_MemorySlices (pt_Profile p) \<le> geo_MemorySlices g) ps"

lemma allocation_used_range:
  "allocation_ok g i ps \<Longrightarrow> used (StateFromAllocated ps) \<subseteq> {0..<geo_MemorySlices g}"
  by (fastforce simp: allocation_ok_def StateFromAllocated_state set_MemorySlices list_all_iff)

lemma MemorySlices_run:
  "set (MemorySlices (mk_partition i p (int k * mp_MemorySlices p))) = run p k"
  by (simp add: set_MemorySlices run_def)

lemma overlap_free_slot:
  assumes "allocation_ok g i ps" "profile_ok p" "k < slots g p"
  shows "(\<forall>a\<in>set ps. \<not> Overlaps a (mk_partition i p (int k * mp_MemorySlices p))) \<longleftrightarrow>
         k \<in> free_slots g (StateFromAllocated ps) p"
proof -
  have "Overlaps a (mk_partition i p (int k * mp_MemorySlices p)) \<longleftrightarrow>
        set (MemorySlices a) \<inter> run p k \<noteq> {}" if "a \<in> set ps" for a
    using assms that
    by (subst Overlaps_iff_shared) (auto simp: allocation_ok_def list_all_iff MemorySlices_run)
  then show ?thesis using assms(3)
    by (auto simp: free_slots_def StateFromAllocated_state)
qed

lemma sum_list_same: "\<forall>x\<in>set xs. f x = (c::int) \<Longrightarrow> sum_list (map f xs) = int (length xs) * c"
  by (induction xs) (auto simp: algebra_simps)

lemma sm_of_partitions:
  "set new \<subseteq> set (partitions_of g i p) \<Longrightarrow>
   sum_list (map (mp_SMSlices \<circ> pt_Profile) new) = int (length new) * mp_SMSlices p"
  by (rule sum_list_same) (auto simp: set_partitions_of dest!: subsetD)

lemma no_overlap_distinct:
  assumes "profile_ok p" "set new \<subseteq> set (partitions_of g i p)"
  shows "sorted_wrt (\<lambda>a b. \<not> Overlaps a b) new \<longleftrightarrow> distinct new"
  using assms(2) by (induction new) (auto simp: aligned_overlap [OF assms(1)])

text \<open>New partitions of one profile can join an allocation exactly when their slots are free.\<close>

lemma fits_append:
  assumes "allocation_ok g i ps" "profile_ok p" "set new \<subseteq> set (partitions_of g i p)"
  shows "fits g (ps @ new) \<longleftrightarrow>
     distinct new \<and>
     set new \<subseteq> (\<lambda>k. mk_partition i p (int k * mp_MemorySlices p)) ` free_slots g (StateFromAllocated ps) p \<and>
     st_UsedSMSlices (StateFromAllocated ps) + int (length new) * mp_SMSlices p \<le> geo_SMSlices g"
proof -
  let ?mk = "\<lambda>k. mk_partition i p (int k * mp_MemorySlices p)"
  let ?F = "free_slots g (StateFromAllocated ps) p"
  have inj: "?mk k = ?mk l \<longleftrightarrow> k = l" for k l
    using assms(2) by (auto simp: mk_partition_inject profile_ok_def)
  have "(\<forall>a\<in>set ps. \<not> Overlaps a x) \<longleftrightarrow> x \<in> ?mk ` ?F" if x: "x \<in> set new" for x
  proof -
    obtain k where "k < slots g p" "x = ?mk k" using subsetD [OF assms(3) x] by (auto simp: set_partitions_of)
    then show ?thesis
      using overlap_free_slot [OF assms(1,2), of k] by (auto simp: inj)
  qed
  then have "(\<forall>a\<in>set ps. \<forall>x\<in>set new. \<not> Overlaps a x) \<longleftrightarrow> set new \<subseteq> ?mk ` ?F" by blast
  then show ?thesis
    using assms(1) no_overlap_distinct [OF assms(2,3)] sm_of_partitions [OF assms(3)]
    by (auto simp: fits_def allocation_ok_def sorted_wrt_append StateFromAllocated_state)
qed

lemma addable_iff:
  assumes ok: "allocation_ok g i ps" and p: "profile_ok p"
  shows "(\<exists>new. length new = n \<and> set new \<subseteq> set (partitions_of g i p) \<and> fits g (ps @ new)) \<longleftrightarrow>
         int n \<le> pf_Actual (fit_of g (StateFromAllocated ps) p)"
proof -
  let ?mk = "\<lambda>k. mk_partition i p (int k * mp_MemorySlices p)"
  let ?F = "free_slots g (StateFromAllocated ps) p"
  let ?u = "st_UsedSMSlices (StateFromAllocated ps)" and ?sm = "mp_SMSlices p"
  have sm: "0 < ?sm" using p by (simp add: profile_ok_def)
  have u: "?u \<le> geo_SMSlices g"
    using ok by (simp add: allocation_ok_def fits_def StateFromAllocated_state)
  have bound: "?u + int n * ?sm \<le> geo_SMSlices g \<longleftrightarrow> int n \<le> (geo_SMSlices g - ?u) div ?sm" for n
    using sm by (simp add: le_div_iff algebra_simps)
  have inj: "inj_on ?mk A" for A
    using p by (auto simp: inj_on_def mk_partition_inject profile_ok_def)
  have actual: "pf_Actual (fit_of g (StateFromAllocated ps) p) =
                min (int (card ?F)) ((geo_SMSlices g - ?u) div ?sm)"
    using sm u by (simp add: fit_of_def Let_def)
  show ?thesis
  proof
    assume "\<exists>new. length new = n \<and> set new \<subseteq> set (partitions_of g i p) \<and> fits g (ps @ new)"
    then obtain new where new: "length new = n" "set new \<subseteq> set (partitions_of g i p)"
      and "fits g (ps @ new)" by blast
    then have d: "distinct new" and sub: "set new \<subseteq> ?mk ` ?F"
      and le: "?u + int n * ?sm \<le> geo_SMSlices g"
      using fits_append [OF ok p new(2)] by auto
    have "n \<le> card (?mk ` ?F)" using card_mono [OF _ sub] distinct_card [OF d] new(1) by simp
    also have "\<dots> = card ?F" by (rule card_image [OF inj])
    finally show "int n \<le> pf_Actual (fit_of g (StateFromAllocated ps) p)"
      using le bound actual by simp
  next
    assume a: "int n \<le> pf_Actual (fit_of g (StateFromAllocated ps) p)"
    let ?ks = "take n (sorted_list_of_set ?F)"
    let ?new = "map ?mk ?ks"
    have len: "length ?new = n" using a actual by simp
    have ks: "set ?ks \<subseteq> ?F" using set_take_subset [of n "sorted_list_of_set ?F"] by simp
    moreover have "?F \<subseteq> {..<slots g p}" by (auto simp: free_slots_def)
    ultimately have "set ?ks \<subseteq> {..<slots g p}" by (rule subset_trans)
    then have sub: "set ?new \<subseteq> set (partitions_of g i p)"
      by (auto simp: set_partitions_of dest!: subsetD)
    have "distinct ?new" by (simp add: distinct_map inj)
    then have "fits g (ps @ ?new)"
      unfolding fits_append [OF ok p sub] using ks a actual bound len by auto
    then show "\<exists>new. length new = n \<and> set new \<subseteq> set (partitions_of g i p) \<and> fits g (ps @ new)"
      using len sub by blast
  qed
qed

subsection \<open>Properties\<close>

text \<open>
  C8. The report of a GPU is measured against physical reality: \<open>Analyse\<close> returns for every
  consistent allocation, and the \<open>Actual\<close> figure of each profile is the largest number of
  further partitions of that profile (taken from \<open>PartitionsFor\<close>) that fit next to what is
  already allocated.
\<close>

theorem Analyse_actual_is_addable:
  assumes "geometry_ok g" "list_all profile_ok profiles" "allocation_ok g i alloc"
  shows "\<exists>r. Analyse g profiles i (StateFromAllocated alloc) = Some r \<and>
             length (rp_Profiles r) = length profiles \<and>
             (\<forall>j<length profiles. \<exists>ps. PartitionsFor g [profiles ! j] i = Some ps \<and>
                (\<forall>n. int n \<le> pf_Actual (rp_Profiles r ! j) \<longleftrightarrow>
                   (\<exists>new. length new = n \<and> set new \<subseteq> set ps \<and> fits g (alloc @ new))))"
  using assms by (auto simp: Analyse_eq PartitionsFor_eq list_all_length addable_iff)

definition small_profile :: mig_profile where
  "small_profile = \<lparr>mp_Name = ''1g.20gb'', mp_MemorySlices = 2, mp_SMSlices = 1\<rparr>"

definition small_geometry :: geometry where
  "small_geometry = \<lparr>geo_MemorySlices = 8, geo_SMSlices = 7, geo_Profiles = [small_profile]\<rparr>"

theorem Analyse_actual_is_addable_witness:
  "\<exists>r. Analyse small_geometry [small_profile] 0
         (StateFromAllocated [mk_partition 0 small_profile 2]) = Some r \<and>
       length (rp_Profiles r) = 1"
proof -
  have "geometry_ok small_geometry" "list_all profile_ok [small_profile]"
    "allocation_ok small_geometry 0 [mk_partition 0 small_profile 2]"
    by (simp_all add: geometry_ok_def profile_ok_def allocation_ok_def fits_def
        small_geometry_def small_profile_def)
  from Analyse_actual_is_addable [OF this] show ?thesis by auto
qed

text \<open>
  C35. \<open>MaxInstances\<close> is exact: for every profile of a well-formed geometry it is the largest
  number of partitions of that profile that fit on an idle GPU.
\<close>

theorem MaxInstances_is_maximum:
  assumes "geometry_ok g" "profile_ok p"
  shows "\<exists>m ps. MaxInstances g p = Some m \<and> PartitionsFor g [p] i = Some ps \<and>
           (\<forall>n. int n \<le> m \<longleftrightarrow> (\<exists>new. length new = n \<and> set new \<subseteq> set ps \<and> fits g new))"
proof -
  have ok: "allocation_ok g i []" using assms(1) by (simp add: allocation_ok_def fits_def geometry_ok_def)
  have "pf_Actual (fit_of g (StateFromAllocated []) p) =
        min (geo_MemorySlices g div mp_MemorySlices p) (geo_SMSlices g div mp_SMSlices p)"
    using assms
    by (simp add: fit_of_def Let_def free_slots_idle StateFromAllocated_state int_slots
        geometry_ok_def profile_ok_def)
  with addable_iff [OF ok assms(2)] show ?thesis
    using assms by (simp add: MaxInstances_eq PartitionsFor_eq)
qed

theorem MaxInstances_is_maximum_witness:
  "\<exists>m ps. MaxInstances small_geometry small_profile = Some m \<and>
     PartitionsFor small_geometry [small_profile] 0 = Some ps"
proof -
  have "geometry_ok small_geometry" "profile_ok small_profile"
    by (simp_all add: geometry_ok_def profile_ok_def small_geometry_def small_profile_def)
  from MaxInstances_is_maximum [OF this] show ?thesis by blast
qed

text \<open>
  For every GPU model the package knows, the idle-GPU instance counts are NVIDIA's
  published column: 7, 4, 3, 2, 1 and 1 from the smallest profile to the whole GPU.
\<close>

theorem MaxInstances_table:
  assumes "GeometryFor name = Inr g"
  shows "collect (MaxInstances g) (geo_Profiles g) = Some [7, 4, 3, 2, 1, 1]"
  using GeometryFor_Inr [OF assms]
  by (auto simp: geometry_table MaxInstances_def split: if_splits)

theorem MaxInstances_table_witness:
  "\<exists>g. GeometryFor ''H100'' = Inr g \<and> collect (MaxInstances g) (geo_Profiles g) = Some [7, 4, 3, 2, 1, 1]"
proof -
  have "to_lower ''H100'' = ''h100''" by code_simp
  then have "\<exists>g. GeometryFor ''H100'' = Inr g" by (simp add: GeometryFor_def geometry_table)
  then obtain g where g: "GeometryFor ''H100'' = Inr g" by blast
  with MaxInstances_table [OF g] show ?thesis by blast
qed

text \<open>
  C34. Fragmentation is well defined: for a consistent allocation no profile reports a
  negative loss, an idle GPU has lost nothing at all, and a one-slice profile never loses
  anything.
\<close>

theorem fragmentation_sane:
  assumes "geometry_ok g" "list_all profile_ok profiles" "allocation_ok g i alloc"
    and "Analyse g profiles i (StateFromAllocated alloc) = Some r"
  shows "(\<forall>f\<in>set (rp_Profiles r). 0 \<le> pf_Lost f) \<and> 0 \<le> TotalLost r \<and>
         (alloc = [] \<longrightarrow> TotalLost r = 0) \<and>
         (\<forall>j<length profiles. mp_MemorySlices (profiles ! j) = 1 \<longrightarrow> pf_Lost (rp_Profiles r ! j) = 0)"
proof -
  let ?s = "StateFromAllocated alloc"
  note range = allocation_used_range [OF assms(3)] and ok = StateFromAllocated_state(1) [of alloc]
  have r: "rp_Profiles r = map (fit_of g ?s) profiles" using assms(2,4) by (auto simp: Analyse_eq)
  have nonneg: "\<forall>f\<in>set (rp_Profiles r). 0 \<le> pf_Lost f"
    using fit_lost_nonneg [OF assms(1) _ ok range] assms(2) by (auto simp: r list_all_iff)
  moreover from nonneg have "0 \<le> TotalLost r"
    unfolding TotalLost_def by (intro sum_list_nonneg) auto
  moreover have "TotalLost r = 0" if "alloc = []"
  proof -
    have "used ?s = {}" using that by (simp add: StateFromAllocated_state)
    then have "\<forall>p\<in>set profiles. pf_Lost (fit_of g ?s p) = 0"
      using fit_lost_idle [OF assms(1) _ ok] assms(2) by (auto simp: list_all_iff)
    then show ?thesis by (simp add: TotalLost_def r comp_def cong: map_cong)
  qed
  ultimately show ?thesis
    using fit_lost_unit [OF assms(1) _ ok range] assms(2) by (auto simp: r list_all_length)
qed

theorem fragmentation_sane_witness:
  "\<exists>r. Analyse small_geometry [small_profile] 0 (StateFromAllocated []) = Some r \<and> TotalLost r = 0"
proof -
  have h: "geometry_ok small_geometry" "list_all profile_ok [small_profile]"
    "allocation_ok small_geometry 0 []"
    by (simp_all add: geometry_ok_def profile_ok_def allocation_ok_def fits_def
        small_geometry_def small_profile_def)
  then obtain r where "Analyse small_geometry [small_profile] 0 (StateFromAllocated []) = Some r"
    by (auto simp: Analyse_eq)
  with fragmentation_sane [OF h this] show ?thesis by auto
qed

end
