(* ===== verification/Topology.thy ===== *)
theory Topology
  imports MigProfiles
begin

text \<open>
  internal/topology/types.go, parse.go and the consistency check of resolve.go: the topology
  document and its validation. \<open>Validate\<close> collects every problem in the order the code finds
  them; the order in which the pools are visited is the order of the association list.
  \<open>errors.Join\<close> of no error is nil, so a document is accepted when the list is empty.
\<close>

subsection \<open>The document\<close>

record mig_config =
  mc_Enabled :: bool
  mc_Profiles :: "string list"

record node_pool =
  np_Profile :: string
  np_GPUCount :: int
  np_NVLink :: string
  np_MIG :: "mig_config option"

record topo_node =
  nd_Name :: string
  nd_Pool :: string

record rack =
  rk_Name :: string
  rk_FaultDomain :: string
  rk_NVLinkDomain :: string
  rk_Nodes :: "topo_node list"

record topo_spec =
  sp_NodePools :: "(string \<times> node_pool) list"
  sp_Racks :: "rack list"

record cluster_topology =
  ct_APIVersion :: string
  ct_Kind :: string
  ct_MetadataName :: string
  ct_Spec :: topo_spec

abbreviation pools :: "cluster_topology \<Rightarrow> (string \<times> node_pool) list" where
  "pools ct \<equiv> sp_NodePools (ct_Spec ct)"

abbreviation racks :: "cluster_topology \<Rightarrow> rack list" where
  "racks ct \<equiv> sp_Racks (ct_Spec ct)"

definition APIVersion :: string where "APIVersion = ''gpu-sim.io/v1alpha1''"
definition Kind :: string where "Kind = ''ClusterTopology''"
definition NVLinkFullMesh :: string where "NVLinkFullMesh = ''full-mesh''"
definition NVLinkNone :: string where "NVLinkNone = ''none''"

text \<open>What reading a missing pool name gives.\<close>

definition zero_pool :: node_pool where
  "zero_pool = \<lparr>np_Profile = [], np_GPUCount = 0, np_NVLink = [], np_MIG = None\<rparr>"

definition pool_of :: "cluster_topology \<Rightarrow> string \<Rightarrow> node_pool" where
  "pool_of ct name = (case map_get (pools ct) name of None \<Rightarrow> zero_pool | Some p \<Rightarrow> p)"

definition MIGEnabled :: "node_pool \<Rightarrow> bool" where
  "MIGEnabled p \<longleftrightarrow> (case np_MIG p of None \<Rightarrow> False | Some m \<Rightarrow> mc_Enabled m)"

definition mig_names :: "node_pool \<Rightarrow> string list" where
  "mig_names p = (case np_MIG p of None \<Rightarrow> [] | Some m \<Rightarrow> mc_Profiles m)"

subsection \<open>Validation\<close>

datatype topo_error =
    BadAPIVersion string
  | BadKind string
  | NoMetadataName
  | NoNodePools
  | NoRacks
  | PoolNoProfile string
  | PoolGPUCount string int
  | PoolMIG string mig_error
  | PoolNoNVLink string
  | PoolBadNVLink string string
  | RackNoName
  | RackDuplicate string
  | RackNoFaultDomain string
  | RackNoNodes string
  | NodeNoName string
  | NodeDuplicate string string string
  | NodeUndefinedPool string string
  | NVLinkDomainWithoutNVLink string string string string

definition validate_pool :: "string \<Rightarrow> node_pool \<Rightarrow> topo_error list" where
  "validate_pool name p =
     (if np_Profile p = [] then [PoolNoProfile name] else []) @
     (if np_GPUCount p \<le> 0 then [PoolGPUCount name (np_GPUCount p)] else []) @
     (if MIGEnabled p then
        (case GeometryFor (np_Profile p) of
           Inl e \<Rightarrow> [PoolMIG name e]
         | Inr geometry \<Rightarrow>
             (case SelectProfiles geometry (mig_names p) of
                Inl e \<Rightarrow> [PoolMIG name e] | Inr _ \<Rightarrow> []))
      else []) @
     (if np_NVLink p = NVLinkFullMesh \<or> np_NVLink p = NVLinkNone then []
      else if np_NVLink p = [] then [PoolNoNVLink name]
      else [PoolBadNVLink name (np_NVLink p)])"

text \<open>The loop over one rack's nodes; \<open>seenNodes\<close> maps a node name to its last rack.\<close>

fun validate_nodes ::
    "cluster_topology \<Rightarrow> string \<Rightarrow> topo_node list \<Rightarrow> (string \<times> string) list \<Rightarrow>
     topo_error list \<times> (string \<times> string) list" where
  "validate_nodes ct rackName [] seenNodes = ([], seenNodes)"
| "validate_nodes ct rackName (node # nodes) seenNodes =
     (if nd_Name node = [] then
        (let (errs, seen) = validate_nodes ct rackName nodes seenNodes
         in (NodeNoName rackName # errs, seen))
      else
        (let dup = (case map_get seenNodes (nd_Name node) of
                      None \<Rightarrow> [] | Some other \<Rightarrow> [NodeDuplicate (nd_Name node) other rackName]);
             undef = (case map_get (pools ct) (nd_Pool node) of
                      None \<Rightarrow> [NodeUndefinedPool (nd_Name node) (nd_Pool node)] | Some _ \<Rightarrow> []);
             (errs, seen) = validate_nodes ct rackName nodes
                              (map_put (nd_Name node) rackName seenNodes)
         in (dup @ undef @ errs, seen)))"

fun validate_racks ::
    "cluster_topology \<Rightarrow> rack list \<Rightarrow> (string \<times> string) list \<Rightarrow> (string \<times> bool) list \<Rightarrow> topo_error list" where
  "validate_racks ct [] seenNodes seenRacks = []"
| "validate_racks ct (rack # rs) seenNodes seenRacks =
     (if rk_Name rack = [] then RackNoName # validate_racks ct rs seenNodes seenRacks
      else
        (let (errs, seen) = validate_nodes ct (rk_Name rack) (rk_Nodes rack) seenNodes
         in (if map_get seenRacks (rk_Name rack) = Some True then [RackDuplicate (rk_Name rack)] else []) @
            (if rk_FaultDomain rack = [] then [RackNoFaultDomain (rk_Name rack)] else []) @
            (if rk_Nodes rack = [] then [RackNoNodes (rk_Name rack)] else []) @
            errs @
            validate_racks ct rs seen (map_put (rk_Name rack) True seenRacks)))"

definition validateNVLinkConsistency :: "cluster_topology \<Rightarrow> topo_error list" where
  "validateNVLinkConsistency ct =
     concat (map (\<lambda>rack.
       if rk_NVLinkDomain rack = [] then []
       else concat (map (\<lambda>node.
         case map_get (pools ct) (nd_Pool node) of
           None \<Rightarrow> []
         | Some pool \<Rightarrow>
             if np_NVLink pool = NVLinkNone
             then [NVLinkDomainWithoutNVLink (rk_Name rack) (rk_NVLinkDomain rack) (nd_Name node) (nd_Pool node)]
             else []) (rk_Nodes rack))) (racks ct))"

definition Validate :: "cluster_topology \<Rightarrow> topo_error list" where
  "Validate ct =
     (if ct_APIVersion ct \<noteq> APIVersion then [BadAPIVersion (ct_APIVersion ct)] else []) @
     (if ct_Kind ct \<noteq> Kind then [BadKind (ct_Kind ct)] else []) @
     (if ct_MetadataName ct = [] then [NoMetadataName] else []) @
     (if pools ct = [] then [NoNodePools] else []) @
     (if racks ct = [] then [NoRacks] else []) @
     concat (map (\<lambda>(name, pool). validate_pool name pool) (pools ct)) @
     validate_racks ct (racks ct) [] [] @
     validateNVLinkConsistency ct"

datatype topo_load_error =
    ReadingTopology string
  | ParsingTopology string
  | InvalidTopology "topo_error list"

text \<open>
  \<open>Load\<close>, with the file read and the strict YAML decoder as parameters.
\<close>

definition Load ::
    "(string \<Rightarrow> string + string) \<Rightarrow> (string \<Rightarrow> string + cluster_topology) \<Rightarrow> string \<Rightarrow>
     topo_load_error + cluster_topology" where
  "Load readFile unmarshalStrict path =
     (case readFile path of
        Inl e \<Rightarrow> Inl (ReadingTopology e)
      | Inr data \<Rightarrow>
          (case unmarshalStrict data of
             Inl e \<Rightarrow> Inl (ParsingTopology e)
           | Inr ct \<Rightarrow> if Validate ct \<noteq> [] then Inl (InvalidTopology (Validate ct)) else Inr ct))"

subsection \<open>What a valid topology is\<close>

definition pool_wf :: "node_pool \<Rightarrow> bool" where
  "pool_wf p \<longleftrightarrow> np_Profile p \<noteq> [] \<and> 0 < np_GPUCount p \<and>
     (np_NVLink p = NVLinkFullMesh \<or> np_NVLink p = NVLinkNone) \<and>
     (MIGEnabled p \<longrightarrow> (\<exists>g ps. GeometryFor (np_Profile p) = Inr g \<and> SelectProfiles g (mig_names p) = Inr ps))"

definition all_nodes :: "cluster_topology \<Rightarrow> topo_node list" where
  "all_nodes ct = concat (map rk_Nodes (racks ct))"

definition topology_wf :: "cluster_topology \<Rightarrow> bool" where
  "topology_wf ct \<longleftrightarrow>
     ct_APIVersion ct = APIVersion \<and> ct_Kind ct = Kind \<and> ct_MetadataName ct \<noteq> [] \<and>
     pools ct \<noteq> [] \<and> racks ct \<noteq> [] \<and>
     (\<forall>(name, p)\<in>set (pools ct). pool_wf p) \<and>
     (\<forall>r\<in>set (racks ct). rk_Name r \<noteq> [] \<and> rk_FaultDomain r \<noteq> [] \<and> rk_Nodes r \<noteq> []) \<and>
     distinct (map rk_Name (racks ct)) \<and>
     (\<forall>n\<in>set (all_nodes ct). nd_Name n \<noteq> [] \<and> map_get (pools ct) (nd_Pool n) \<noteq> None) \<and>
     distinct (map nd_Name (all_nodes ct)) \<and>
     (\<forall>r\<in>set (racks ct). rk_NVLinkDomain r \<noteq> [] \<longrightarrow>
        (\<forall>n\<in>set (rk_Nodes r). np_NVLink (pool_of ct (nd_Pool n)) \<noteq> NVLinkNone))"

lemma validate_pool_Nil: "validate_pool name p = [] \<longleftrightarrow> pool_wf p"
  by (auto simp: validate_pool_def pool_wf_def NVLinkFullMesh_def NVLinkNone_def
      split: sum.splits if_splits)

lemma validate_nodes_seen:
  "fst ` set (snd (validate_nodes ct r nodes seen)) =
   fst ` set seen \<union> {nd_Name n | n. n \<in> set nodes \<and> nd_Name n \<noteq> []}"
  by (induction ct r nodes seen rule: validate_nodes.induct)
    (auto simp: Let_def split_beta)

lemma validate_nodes_Nil:
  "fst (validate_nodes ct r nodes seen) = [] \<longleftrightarrow>
   (\<forall>n\<in>set nodes. nd_Name n \<noteq> [] \<and> map_get (pools ct) (nd_Pool n) \<noteq> None) \<and>
   distinct (map nd_Name nodes) \<and> nd_Name ` set nodes \<inter> fst ` set seen = {}"
proof (induction nodes arbitrary: seen)
  case (Cons n nodes)
  have dup: "(case map_get seen (nd_Name n) of None \<Rightarrow> [] | Some other \<Rightarrow> [NodeDuplicate (nd_Name n) other r]) = []
      \<longleftrightarrow> nd_Name n \<notin> fst ` set seen"
    by (simp add: map_of_eq_None_iff [symmetric] split: option.split)
  have undef: "(case map_get (pools ct) (nd_Pool n) of
      None \<Rightarrow> [NodeUndefinedPool (nd_Name n) (nd_Pool n)] | Some _ \<Rightarrow> []) = [] \<longleftrightarrow>
      map_get (pools ct) (nd_Pool n) \<noteq> None"
    by (simp split: option.split)
  show ?case
    by (cases "nd_Name n = []") (simp_all add: Let_def split_beta dup undef Cons.IH, blast)
qed simp

lemma map_put_true: "map_get (map_put k True m) r = Some True \<longleftrightarrow> r = k \<or> map_get m r = Some True"
  by (auto simp: update_conv)

definition rack_wf :: "rack \<Rightarrow> bool" where
  "rack_wf r \<longleftrightarrow> rk_Name r \<noteq> [] \<and> rk_FaultDomain r \<noteq> [] \<and> rk_Nodes r \<noteq> []"

definition node_wf :: "cluster_topology \<Rightarrow> topo_node \<Rightarrow> bool" where
  "node_wf ct n \<longleftrightarrow> nd_Name n \<noteq> [] \<and> map_get (pools ct) (nd_Pool n) \<noteq> None"

lemma validate_racks_Nil:
  "validate_racks ct rs seenNodes seenRacks = [] \<longleftrightarrow>
   (\<forall>r\<in>set rs. rack_wf r \<and> map_get seenRacks (rk_Name r) \<noteq> Some True) \<and>
   distinct (map rk_Name rs) \<and>
   (\<forall>n\<in>set (concat (map rk_Nodes rs)). node_wf ct n) \<and>
   distinct (map nd_Name (concat (map rk_Nodes rs))) \<and>
   nd_Name ` set (concat (map rk_Nodes rs)) \<inter> fst ` set seenNodes = {}"
proof (induction rs arbitrary: seenNodes seenRacks)
  case (Cons r rs)
  let ?ns = "rk_Nodes r" and ?ms = "concat (map rk_Nodes rs)"
  obtain errs seen where v: "validate_nodes ct (rk_Name r) ?ns seenNodes = (errs, seen)"
    by (cases "validate_nodes ct (rk_Name r) ?ns seenNodes")
  have e: "errs = [] \<longleftrightarrow> (\<forall>n\<in>set ?ns. node_wf ct n) \<and> distinct (map nd_Name ?ns) \<and>
      nd_Name ` set ?ns \<inter> fst ` set seenNodes = {}"
    using validate_nodes_Nil [of ct "rk_Name r" ?ns seenNodes] by (simp add: v node_wf_def)
  have s: "(\<forall>n\<in>set ?ns. node_wf ct n) \<Longrightarrow> fst ` set seen = fst ` set seenNodes \<union> nd_Name ` set ?ns"
    using validate_nodes_seen [of ct "rk_Name r" ?ns seenNodes] by (auto simp: v node_wf_def)
  have nodes: "concat (map rk_Nodes (r # rs)) = ?ns @ ?ms" by simp
  have step: "validate_racks ct (r # rs) seenNodes seenRacks = [] \<longleftrightarrow>
      rack_wf r \<and> map_get seenRacks (rk_Name r) \<noteq> Some True \<and> errs = [] \<and>
      validate_racks ct rs seen (map_put (rk_Name r) True seenRacks) = []"
    by (auto simp: v rack_wf_def)
  let ?S = "fst ` set seenNodes" and ?seen = "map_put (rk_Name r) True seenRacks"
  have names: "((\<forall>q\<in>set (r # rs). rack_wf q \<and> map_get seenRacks (rk_Name q) \<noteq> Some True) \<and>
      distinct (map rk_Name (r # rs))) \<longleftrightarrow>
      rack_wf r \<and> map_get seenRacks (rk_Name r) \<noteq> Some True \<and>
      (\<forall>q\<in>set rs. rack_wf q \<and> map_get ?seen (rk_Name q) \<noteq> Some True) \<and> distinct (map rk_Name rs)"
    by (auto simp: map_put_true image_iff)
  have here: "((\<forall>n\<in>set (?ns @ ?ms). node_wf ct n) \<and> distinct (map nd_Name (?ns @ ?ms)) \<and>
      nd_Name ` set (?ns @ ?ms) \<inter> ?S = {}) \<longleftrightarrow>
      errs = [] \<and> (\<forall>n\<in>set ?ms. node_wf ct n) \<and> distinct (map nd_Name ?ms) \<and>
      nd_Name ` set ?ms \<inter> (?S \<union> nd_Name ` set ?ns) = {}"
    unfolding e set_append map_append distinct_append image_Un set_map by blast
  show ?case
  proof (cases "errs = []")
    case True
    then have s': "fst ` set seen = ?S \<union> nd_Name ` set ?ns" using s e by simp
    note IH = Cons.IH [of seen ?seen, unfolded s']
    show ?thesis unfolding step nodes IH using names here by argo
  next
    case False
    then show ?thesis unfolding step nodes using here by blast
  qed
qed simp

lemma validateNVLink_Nil:
  assumes "\<forall>n\<in>set (all_nodes ct). map_get (pools ct) (nd_Pool n) \<noteq> None"
  shows "validateNVLinkConsistency ct = [] \<longleftrightarrow>
     (\<forall>r\<in>set (racks ct). rk_NVLinkDomain r \<noteq> [] \<longrightarrow>
        (\<forall>n\<in>set (rk_Nodes r). np_NVLink (pool_of ct (nd_Pool n)) \<noteq> NVLinkNone))"
proof -
  have "map_get (pools ct) (nd_Pool n) = Some (pool_of ct (nd_Pool n))"
    if "r \<in> set (racks ct)" "n \<in> set (rk_Nodes r)" for r n
  proof -
    have "n \<in> set (all_nodes ct)" using that by (auto simp: all_nodes_def)
    with assms show ?thesis by (auto simp: pool_of_def)
  qed
  then show ?thesis
    unfolding validateNVLinkConsistency_def concat_map_Nil
    by (intro ball_cong) (auto simp: concat_map_Nil)
qed

lemma Validate_wf: "Validate ct = [] \<longleftrightarrow> topology_wf ct"
proof -
  have racks: "validate_racks ct (racks ct) [] [] = [] \<longleftrightarrow>
      (\<forall>r\<in>set (racks ct). rack_wf r) \<and> distinct (map rk_Name (racks ct)) \<and>
      (\<forall>n\<in>set (all_nodes ct). node_wf ct n) \<and> distinct (map nd_Name (all_nodes ct))"
    by (simp add: validate_racks_Nil all_nodes_def)
  have pools: "concat (map (\<lambda>(name, pool). validate_pool name pool) (pools ct)) = [] \<longleftrightarrow>
      (\<forall>(name, p)\<in>set (pools ct). pool_wf p)"
    by (auto simp: validate_pool_Nil)
  have nvlink: "(\<forall>n\<in>set (all_nodes ct). node_wf ct n) \<Longrightarrow> validateNVLinkConsistency ct = [] \<longleftrightarrow>
     (\<forall>r\<in>set (racks ct). rk_NVLinkDomain r \<noteq> [] \<longrightarrow>
        (\<forall>n\<in>set (rk_Nodes r). np_NVLink (pool_of ct (nd_Pool n)) \<noteq> NVLinkNone))"
    by (rule validateNVLink_Nil) (simp add: node_wf_def)
  show ?thesis
    unfolding Validate_def topology_wf_def append_is_Nil_conv pools racks
      rack_wf_def [symmetric] node_wf_def [symmetric]
    using nvlink by auto
qed

text \<open>
  C28. \<open>Validate\<close> is exact: it reports no problem if and only if the document is well formed:
  the right API version and kind, a name, some pools and racks, every pool with a profile,
  at least one GPU, a known NVLink setting and (where MIG is on) a known geometry and known
  profile names, rack names distinct and non-empty with a fault domain and some nodes, node
  names distinct across the whole cluster and bound to defined pools, and no rack-wide
  NVLink domain over nodes without NVLink.
\<close>

theorem Validate_iff_wf: "Validate ct = [] \<longleftrightarrow> topology_wf ct"
  by (rule Validate_wf)

end
