(* ===== verification/GpuProfile.thy ===== *)
theory GpuProfile
  imports GoPrelude
begin

text \<open>
  internal/profile/profile.go: the part of a GPU profile document the program reads, and
  the per-GPU hardware facts taken from it. The YAML decoder (sigs.k8s.io/yaml) is the
  parameter \<open>unmarshal\<close>.
\<close>

record system_info =
  sys_DriverVersion :: string
  sys_CUDAVersion :: string

record device_defaults =
  dd_Name :: string
  dd_Brand :: string
  dd_Architecture :: string

record profile_device =
  dev_Index :: int
  dev_UUID :: string
  dev_BusID :: string

record root_complex =
  rc_ID :: string
  rc_NUMANode :: int
  rc_Devices :: "string list"

record gpu_profile =
  gp_System :: system_info
  gp_DeviceDefaults :: device_defaults
  gp_Devices :: "profile_device list"
  gp_RootComplexes :: "root_complex list"

record gpu_facts =
  gf_PCIBusID :: string
  gf_PCIeRoot :: string
  gf_NUMANode :: int

datatype profile_error =
    ParsingProfile string
  | NoDevices
  | NegativeIndex int

definition Parse :: "(string \<Rightarrow> string + gpu_profile) \<Rightarrow> string \<Rightarrow> profile_error + gpu_profile" where
  "Parse unmarshal data =
     (case unmarshal data of
        Inl e \<Rightarrow> Inl (ParsingProfile e)
      | Inr p \<Rightarrow> if gp_Devices p = [] then Inl NoDevices else Inr p)"

definition rootComplexFor :: "gpu_profile \<Rightarrow> string \<Rightarrow> root_complex option" where
  "rootComplexFor p busID = find (\<lambda>root. busID \<in> set (rc_Devices root)) (gp_RootComplexes p)"

definition HasPCIeTopology :: "gpu_profile \<Rightarrow> bool" where
  "HasPCIeTopology p \<longleftrightarrow> gp_RootComplexes p \<noteq> []"

text \<open>The index is reduced modulo the number of devices, which panics when there is none.\<close>

definition GPU :: "gpu_profile \<Rightarrow> int \<Rightarrow> (profile_error + gpu_facts) option" where
  "GPU p index =
     (if index < 0 then Some (Inl (NegativeIndex index))
      else if gp_Devices p = [] then None
      else let device = gp_Devices p ! nat (index mod int (length (gp_Devices p)));
               busID = dev_BusID device
           in case rootComplexFor p busID of
                None \<Rightarrow> Some (Inr \<lparr>gf_PCIBusID = busID, gf_PCIeRoot = [], gf_NUMANode = 0\<rparr>)
              | Some root \<Rightarrow> Some (Inr \<lparr>gf_PCIBusID = busID, gf_PCIeRoot = rc_ID root,
                                      gf_NUMANode = rc_NUMANode root\<rparr>))"

lemma GPU_total: "gp_Devices p \<noteq> [] \<Longrightarrow> 0 \<le> i \<Longrightarrow> \<exists>f. GPU p i = Some (Inr f)"
  by (auto simp: GPU_def Let_def split: option.splits)

lemma Parse_devices: "Parse unmarshal d = Inr p \<Longrightarrow> gp_Devices p \<noteq> []"
  by (auto simp: Parse_def split: sum.splits if_splits)

lemma rootComplexFor_Some:
  "rootComplexFor p b = Some r \<Longrightarrow> r \<in> set (gp_RootComplexes p) \<and> b \<in> set (rc_Devices r)"
  by (auto simp: rootComplexFor_def find_Some_iff)

text \<open>
  A profile that parsed answers for every GPU index: indices past its last device wrap
  around, and the bus ID, root complex and NUMA node reported are the profile's own: the
  bus ID of the device the index lands on, and the ID and NUMA node of the first root
  complex listing that bus ID, or nothing when no root complex lists it.
\<close>

theorem GPU_facts_from_profile:
  assumes "Parse unmarshal d = Inr p" "0 \<le> i"
  shows "\<exists>f. GPU p i = Some (Inr f) \<and>
     GPU p (i + int (length (gp_Devices p))) = Some (Inr f) \<and>
     (\<exists>dev\<in>set (gp_Devices p). gf_PCIBusID f = dev_BusID dev) \<and>
     (case rootComplexFor p (gf_PCIBusID f) of
        None \<Rightarrow> gf_PCIeRoot f = [] \<and> gf_NUMANode f = 0
      | Some r \<Rightarrow> r \<in> set (gp_RootComplexes p) \<and> gf_PCIBusID f \<in> set (rc_Devices r) \<and>
                  gf_PCIeRoot f = rc_ID r \<and> gf_NUMANode f = rc_NUMANode r)"
proof -
  let ?n = "int (length (gp_Devices p))"
  have n: "0 < ?n" using Parse_devices [OF assms(1)] by simp
  obtain f where f: "GPU p i = Some (Inr f)"
    using GPU_total [OF Parse_devices [OF assms(1)] assms(2)] by blast
  have "GPU p (i + ?n) = GPU p i" using assms(2) n by (simp add: GPU_def)
  moreover have "nat (i mod ?n) < length (gp_Devices p)" using n by (simp add: nat_less_iff)
  then have "gp_Devices p ! nat (i mod ?n) \<in> set (gp_Devices p)" by simp
  ultimately show ?thesis using f assms(2) n
    by (auto simp: GPU_def Let_def split: option.splits dest: rootComplexFor_Some)
qed

definition sample_profile :: gpu_profile where
  "sample_profile = \<lparr>
     gp_System = \<lparr>sys_DriverVersion = ''550'', sys_CUDAVersion = ''12''\<rparr>,
     gp_DeviceDefaults = \<lparr>dd_Name = ''H100'', dd_Brand = ''NVIDIA'', dd_Architecture = ''hopper''\<rparr>,
     gp_Devices = [\<lparr>dev_Index = 0, dev_UUID = ''GPU-0'', dev_BusID = ''0:07''\<rparr>,
                   \<lparr>dev_Index = 1, dev_UUID = ''GPU-1'', dev_BusID = ''0:0A''\<rparr>],
     gp_RootComplexes = [\<lparr>rc_ID = ''pci0'', rc_NUMANode = 0, rc_Devices = [''0:07'']\<rparr>,
                         \<lparr>rc_ID = ''pci1'', rc_NUMANode = 1, rc_Devices = [''0:0A'']\<rparr>]\<rparr>"

theorem GPU_facts_from_profile_witness:
  "\<exists>f. GPU sample_profile 3 = Some (Inr f) \<and> GPU sample_profile 5 = Some (Inr f)"
proof -
  have p: "Parse (\<lambda>_. Inr sample_profile) [] = Inr sample_profile"
    by (simp add: Parse_def sample_profile_def)
  have n: "3 + int (length (gp_Devices sample_profile)) = 5" by (simp add: sample_profile_def)
  from GPU_facts_from_profile [OF p, of 3] show ?thesis unfolding n by auto
qed

end
