(* ===== verification/GpuId.thy ===== *)
theory GpuId
  imports GoPrelude
begin

text \<open>
  internal/gpuid/gpuid.go: the identity of a simulated GPU. The UUIDv5 function of
  github.com/google/uuid over the nil namespace is the parameter \<open>uuid\<close>, from a name to the
  printed UUID; what the code relies on is stated in \<open>uuid_separates\<close>.
\<close>

definition uuidPrefix :: string where
  "uuidPrefix = ''GPU-''"

definition gpu_seed :: "string \<Rightarrow> int \<Rightarrow> string" where
  "gpu_seed nodeName index = nodeName @ ''-'' @ itoa index"

definition DeviceUUID :: "(string \<Rightarrow> string) \<Rightarrow> string \<Rightarrow> int \<Rightarrow> string" where
  "DeviceUUID uuid nodeName index = uuidPrefix @ uuid (gpu_seed nodeName index)"

definition DeviceName :: "(string \<Rightarrow> string) \<Rightarrow> string \<Rightarrow> int \<Rightarrow> string" where
  "DeviceName uuid nodeName index = to_lower (DeviceUUID uuid nodeName index)"

text \<open>
  The documented behaviour of the UUID function, on the names that are actually hashed:
  printed UUIDs are lower case, and distinct names get distinct UUIDs.
\<close>

definition uuid_separates :: "(string \<Rightarrow> string) \<Rightarrow> string set \<Rightarrow> bool" where
  "uuid_separates uuid seeds \<longleftrightarrow> (\<forall>s\<in>seeds. to_lower (uuid s) = uuid s) \<and> inj_on uuid seeds"

lemma gpu_seed_inject:
  "0 \<le> i \<Longrightarrow> 0 \<le> j \<Longrightarrow> gpu_seed n i = gpu_seed m j \<longleftrightarrow> n = m \<and> i = j"
  using append_sep_inj [of n "CHR ''-''" "itoa i" m "itoa j"]
  by (auto simp: gpu_seed_def itoa_inj_nonneg)

lemma to_lower_append: "to_lower (s @ t) = to_lower s @ to_lower t"
  by (simp add: to_lower_def)

lemma DeviceName_inject:
  assumes "uuid_separates uuid seeds" "gpu_seed n i \<in> seeds" "gpu_seed m j \<in> seeds"
    and "0 \<le> i" "0 \<le> j"
  shows "DeviceName uuid n i = DeviceName uuid m j \<longleftrightarrow> n = m \<and> i = j"
  using assms by (auto simp: DeviceName_def DeviceUUID_def to_lower_append uuid_separates_def
      gpu_seed_inject inj_on_eq_iff)

lemma DeviceName_unique:
  assumes "uuid_separates uuid ((\<lambda>(n, i). gpu_seed n i) ` gpus)" "\<forall>(n, i)\<in>gpus. 0 \<le> i"
  shows "inj_on (\<lambda>(n, i). DeviceName uuid n i) gpus \<and> inj_on (\<lambda>(n, i). DeviceUUID uuid n i) gpus"
proof -
  have "n = m \<and> i = j"
    if "(n, i) \<in> gpus" "(m, j) \<in> gpus" "DeviceName uuid n i = DeviceName uuid m j" for n i m j
  proof -
    have "gpu_seed n i \<in> (\<lambda>(n, i). gpu_seed n i) ` gpus" "gpu_seed m j \<in> (\<lambda>(n, i). gpu_seed n i) ` gpus"
      using that(1,2) by force+
    moreover have "0 \<le> i" "0 \<le> j" using that(1,2) assms(2) by auto
    ultimately show ?thesis using DeviceName_inject [OF assms(1)] that(3) by blast
  qed
  then show ?thesis by (auto intro!: inj_onI simp: DeviceName_def)
qed

end
