(* ===== verification/TopologyResolve.thy ===== *)
theory TopologyResolve
  imports Topology MigPartitions GpuProfile GpuId
begin

text \<open>
  internal/topology/resolve.go: a topology expanded into per-node and per-GPU facts. The
  profile loader is the parameter \<open>load\<close> and the UUID function the parameter \<open>uuid\<close>.
  The result is \<open>None\<close> where the Go code panics (a node whose pool was never loaded) and
  \<open>Inl\<close> where it returns an error.
\<close>

subsection \<open>Data\<close>

record resolved_mig =
  rm_Geometry :: geometry
  rm_Profiles :: "mig_profile list"

record resolved_gpu =
  rg_Index :: int
  rg_UUID :: string
  rg_DeviceName :: string
  rg_PCIBusID :: string
  rg_PCIeRoot :: string
  rg_NUMANode :: int
  rg_HasNUMA :: bool
  rg_NVLinkDomain :: string
  rg_NVLinkPeers :: int
  rg_FaultDomain :: string
  rg_Partitions :: "mig_partition list"

record resolved_node =
  rn_Name :: string
  rn_Pool :: string
  rn_ProductName :: string
  rn_Architecture :: string
  rn_Rack :: string
  rn_FaultDomain :: string
  rn_NVLinkDomain :: string
  rn_MIG :: "resolved_mig option"
  rn_GPUs :: "resolved_gpu list"

record resolved =
  rs_Name :: string
  rs_Nodes :: "resolved_node list"

datatype resolve_error =
    LoadingProfile string string
  | NodeMIG string mig_error
  | NodeGPU string int profile_error

type_synonym profile_loader = "string \<Rightarrow> string + gpu_profile"

subsection \<open>Operations\<close>

fun load_profiles ::
    "profile_loader \<Rightarrow> (string \<times> node_pool) list \<Rightarrow> (string \<times> gpu_profile) list \<Rightarrow>
     resolve_error + (string \<times> gpu_profile) list" where
  "load_profiles load [] profiles = Inr profiles"
| "load_profiles load ((name, pool) # ps) profiles =
     (if map_get profiles (np_Profile pool) \<noteq> None then load_profiles load ps profiles
      else (case load (np_Profile pool) of
              Inl e \<Rightarrow> Inl (LoadingProfile (np_Profile pool) e)
            | Inr p \<Rightarrow> load_profiles load ps (map_put (np_Profile pool) p profiles)))"

definition gpusInRack :: "cluster_topology \<Rightarrow> rack \<Rightarrow> int" where
  "gpusInRack ct rack = sum_list (map (\<lambda>node. np_GPUCount (pool_of ct (nd_Pool node))) (rk_Nodes rack))"

definition nvlinkFor :: "node_pool \<Rightarrow> rack \<Rightarrow> string \<Rightarrow> int \<Rightarrow> string \<times> int" where
  "nvlinkFor pool rack nodeName rackGPUs =
     (if np_NVLink pool = NVLinkNone then ([], 0)
      else if rk_NVLinkDomain rack \<noteq> [] then (rk_NVLinkDomain rack, rackGPUs - 1)
      else (nodeName, np_GPUCount pool - 1))"

definition resolve_mig :: "node_pool \<Rightarrow> mig_error + resolved_mig option" where
  "resolve_mig pool =
     (if MIGEnabled pool then
        (case GeometryFor (np_Profile pool) of
           Inl e \<Rightarrow> Inl e
         | Inr geometry \<Rightarrow>
             (case SelectProfiles geometry (mig_names pool) of
                Inl e \<Rightarrow> Inl e
              | Inr ps \<Rightarrow> Inr (Some \<lparr>rm_Geometry = geometry, rm_Profiles = ps\<rparr>)))
      else Inr None)"

text \<open>The body of the GPU loop.\<close>

definition resolve_gpu ::
    "(string \<Rightarrow> string) \<Rightarrow> gpu_profile \<Rightarrow> resolved_mig option \<Rightarrow> string \<Rightarrow> string \<Rightarrow> string \<times> int \<Rightarrow> int \<Rightarrow>
     (resolve_error + resolved_gpu) option" where
  "resolve_gpu uuid prof mig nodeName faultDomain nv i =
     (case GPU prof i of
        None \<Rightarrow> None
      | Some (Inl e) \<Rightarrow> Some (Inl (NodeGPU nodeName i e))
      | Some (Inr facts) \<Rightarrow>
          map_option (\<lambda>partitions. Inr
            \<lparr>rg_Index = i,
             rg_UUID = DeviceUUID uuid nodeName i,
             rg_DeviceName = DeviceName uuid nodeName i,
             rg_PCIBusID = gf_PCIBusID facts,
             rg_PCIeRoot = gf_PCIeRoot facts,
             rg_NUMANode = gf_NUMANode facts,
             rg_HasNUMA = (HasPCIeTopology prof \<and> gf_PCIeRoot facts \<noteq> []),
             rg_NVLinkDomain = fst nv,
             rg_NVLinkPeers = snd nv,
             rg_FaultDomain = faultDomain,
             rg_Partitions = partitions\<rparr>)
           (case mig of None \<Rightarrow> Some []
            | Some m \<Rightarrow> PartitionsFor (rm_Geometry m) (rm_Profiles m) i))"

definition resolve_node ::
    "(string \<Rightarrow> string) \<Rightarrow> cluster_topology \<Rightarrow> (string \<times> gpu_profile) list \<Rightarrow> rack \<Rightarrow> int \<Rightarrow> topo_node \<Rightarrow>
     (resolve_error + resolved_node) option" where
  "resolve_node uuid ct profiles rack rackGPUs node =
     (let pool = pool_of ct (nd_Pool node);
          nv = nvlinkFor pool rack (nd_Name node) rackGPUs
      in case resolve_mig pool of
           Inl e \<Rightarrow> Some (Inl (NodeMIG (nd_Name node) e))
         | Inr mig \<Rightarrow>
             (case map_get profiles (np_Profile pool) of
                None \<Rightarrow> None
              | Some prof \<Rightarrow>
                  (case collect_err (resolve_gpu uuid prof mig (nd_Name node) (rk_FaultDomain rack) nv)
                          [0..np_GPUCount pool - 1] of
                     None \<Rightarrow> None
                   | Some (Inl e) \<Rightarrow> Some (Inl e)
                   | Some (Inr gpus) \<Rightarrow> Some (Inr
                       \<lparr>rn_Name = nd_Name node,
                        rn_Pool = nd_Pool node,
                        rn_ProductName = dd_Name (gp_DeviceDefaults prof),
                        rn_Architecture = dd_Architecture (gp_DeviceDefaults prof),
                        rn_Rack = rk_Name rack,
                        rn_FaultDomain = rk_FaultDomain rack,
                        rn_NVLinkDomain = fst nv,
                        rn_MIG = mig,
                        rn_GPUs = gpus\<rparr>))))"

definition Resolve ::
    "(string \<Rightarrow> string) \<Rightarrow> profile_loader \<Rightarrow> cluster_topology \<Rightarrow> (resolve_error + resolved) option" where
  "Resolve uuid load ct =
     (case load_profiles load (pools ct) [] of
        Inl e \<Rightarrow> Some (Inl e)
      | Inr profiles \<Rightarrow>
          (case collect_err (\<lambda>rack.
                  collect_err (resolve_node uuid ct profiles rack (gpusInRack ct rack)) (rk_Nodes rack))
                (racks ct) of
             None \<Rightarrow> None
           | Some (Inl e) \<Rightarrow> Some (Inl e)
           | Some (Inr nodes) \<Rightarrow> Some (Inr \<lparr>rs_Name = ct_MetadataName ct, rs_Nodes = concat nodes\<rparr>)))"

subsection \<open>The resolved topology, written out\<close>

definition mig_view :: "node_pool \<Rightarrow> resolved_mig option" where
  "mig_view pool = (case resolve_mig pool of Inl _ \<Rightarrow> None | Inr m \<Rightarrow> m)"

definition facts_view :: "gpu_profile \<Rightarrow> int \<Rightarrow> gpu_facts" where
  "facts_view prof i = (case GPU prof i of Some (Inr f) \<Rightarrow> f | _ \<Rightarrow>
     \<lparr>gf_PCIBusID = [], gf_PCIeRoot = [], gf_NUMANode = 0\<rparr>)"

definition gpu_view ::
    "(string \<Rightarrow> string) \<Rightarrow> gpu_profile \<Rightarrow> resolved_mig option \<Rightarrow> string \<Rightarrow> string \<Rightarrow> string \<times> int \<Rightarrow> int \<Rightarrow> resolved_gpu" where
  "gpu_view uuid prof mig nodeName faultDomain nv i =
     \<lparr>rg_Index = i,
      rg_UUID = DeviceUUID uuid nodeName i,
      rg_DeviceName = DeviceName uuid nodeName i,
      rg_PCIBusID = gf_PCIBusID (facts_view prof i),
      rg_PCIeRoot = gf_PCIeRoot (facts_view prof i),
      rg_NUMANode = gf_NUMANode (facts_view prof i),
      rg_HasNUMA = (HasPCIeTopology prof \<and> gf_PCIeRoot (facts_view prof i) \<noteq> []),
      rg_NVLinkDomain = fst nv,
      rg_NVLinkPeers = snd nv,
      rg_FaultDomain = faultDomain,
      rg_Partitions = (case mig of None \<Rightarrow> []
        | Some m \<Rightarrow> concat (map (partitions_of (rm_Geometry m) i) (rm_Profiles m)))\<rparr>"

definition node_view ::
    "(string \<Rightarrow> string) \<Rightarrow> (string \<Rightarrow> gpu_profile) \<Rightarrow> cluster_topology \<Rightarrow> rack \<Rightarrow> topo_node \<Rightarrow> resolved_node" where
  "node_view uuid prof ct rack node =
     (let pool = pool_of ct (nd_Pool node);
          nv = nvlinkFor pool rack (nd_Name node) (gpusInRack ct rack);
          p = prof (np_Profile pool)
      in \<lparr>rn_Name = nd_Name node,
          rn_Pool = nd_Pool node,
          rn_ProductName = dd_Name (gp_DeviceDefaults p),
          rn_Architecture = dd_Architecture (gp_DeviceDefaults p),
          rn_Rack = rk_Name rack,
          rn_FaultDomain = rk_FaultDomain rack,
          rn_NVLinkDomain = fst nv,
          rn_MIG = mig_view pool,
          rn_GPUs = map (gpu_view uuid p (mig_view pool) (nd_Name node) (rk_FaultDomain rack) nv)
                      [0..np_GPUCount pool - 1]\<rparr>)"

definition resolved_view ::
    "(string \<Rightarrow> string) \<Rightarrow> (string \<Rightarrow> gpu_profile) \<Rightarrow> cluster_topology \<Rightarrow> resolved" where
  "resolved_view uuid prof ct =
     \<lparr>rs_Name = ct_MetadataName ct,
      rs_Nodes = concat (map (\<lambda>rack. map (node_view uuid prof ct rack) (rk_Nodes rack)) (racks ct))\<rparr>"

text \<open>What the loader is relied on for: every pool's profile loads, with some devices.\<close>

definition loads :: "profile_loader \<Rightarrow> (string \<Rightarrow> gpu_profile) \<Rightarrow> cluster_topology \<Rightarrow> bool" where
  "loads load prof ct \<longleftrightarrow>
     (\<forall>(name, pool)\<in>set (pools ct).
        load (np_Profile pool) = Inr (prof (np_Profile pool)) \<and> gp_Devices (prof (np_Profile pool)) \<noteq> [])"

abbreviation profile_names :: "(string \<times> node_pool) list \<Rightarrow> string set" where
  "profile_names ps \<equiv> (np_Profile \<circ> snd) ` set ps"

lemma load_profiles_Inr:
  assumes "\<forall>(name, pool)\<in>set ps. load (np_Profile pool) = Inr (prof (np_Profile pool))"
    and "map_get acc = (\<lambda>k. if k \<in> A then Some (prof k) else None)"
  shows "\<exists>m. load_profiles load ps acc = Inr m \<and>
             map_get m = (\<lambda>k. if k \<in> A \<union> profile_names ps then Some (prof k) else None)"
  using assms
proof (induction ps arbitrary: acc A)
  case (Cons x ps)
  obtain name pool where x: "x = (name, pool)" by (cases x)
  let ?k = "np_Profile pool"
  have "\<exists>m. load_profiles load (x # ps) acc = Inr m \<and>
        map_get m = (\<lambda>k. if k \<in> insert ?k A \<union> profile_names ps then Some (prof k) else None)"
  proof (cases "?k \<in> A")
    case True
    then have "load_profiles load (x # ps) acc = load_profiles load ps acc"
      using Cons.prems(2) by (simp add: x)
    with Cons.IH [of acc A] Cons.prems True show ?thesis by (simp add: insert_absorb)
  next
    case False
    then have "load_profiles load (x # ps) acc = load_profiles load ps (map_put ?k (prof ?k) acc)"
      using Cons.prems by (simp add: x)
    moreover have "map_get (map_put ?k (prof ?k) acc) = (\<lambda>k. if k \<in> insert ?k A then Some (prof k) else None)"
      using Cons.prems(2) by (auto simp: update_conv')
    ultimately show ?thesis using Cons.IH [of "map_put ?k (prof ?k) acc" "insert ?k A"] Cons.prems(1) by simp
  qed
  then show ?case by (simp add: x)
qed simp

lemma resolve_mig_ok: "pool_wf pool \<Longrightarrow> resolve_mig pool = Inr (mig_view pool)"
  by (auto simp: mig_view_def resolve_mig_def pool_wf_def split: sum.splits)

lemma mig_view_Some:
  assumes "mig_view pool = Some m"
  shows "GeometryFor (np_Profile pool) = Inr (rm_Geometry m)"
    and "SelectProfiles (rm_Geometry m) (mig_names pool) = Inr (rm_Profiles m)"
    and "MIGEnabled pool" and "geometry_ok (rm_Geometry m)" and "list_all profile_ok (rm_Profiles m)"
proof -
  show g: "GeometryFor (np_Profile pool) = Inr (rm_Geometry m)"
    and s: "SelectProfiles (rm_Geometry m) (mig_names pool) = Inr (rm_Profiles m)"
    and "MIGEnabled pool"
    using assms by (auto simp: mig_view_def resolve_mig_def split: sum.splits if_splits)
  show "geometry_ok (rm_Geometry m)" by (rule GeometryFor_ok [OF g])
  then show "list_all profile_ok (rm_Profiles m)" by (rule SelectProfiles_ok [OF _ s])
qed

text \<open>An enabled pool has partitions: its profiles are of the GPU, and each fits at least once.\<close>

lemma geometry_profile_small:
  assumes "GeometryFor k = Inr g" "p \<in> set (geo_Profiles g)"
  shows "0 < slots g p"
proof -
  note shape = geometries_shape [OF GeometryFor_Inr [OF assms(1)]]
  have "p\<lparr>mp_Name := []\<rparr> \<in> set (map (mp_Name_update (\<lambda>_. [])) (geo_Profiles g))" using assms(2) by simp
  then have "p\<lparr>mp_Name := []\<rparr> \<in> set datacenterShape" using shape by simp
  then have "1 \<le> mp_MemorySlices p \<and> mp_MemorySlices p \<le> 8"
    by (cases p) (auto simp: datacenterShape_def shape_def)
  then show ?thesis using shape by (simp add: slots_def pos_imp_zdiv_pos_iff)
qed

lemma mig_view_partitions:
  assumes "mig_view pool = Some m"
  shows "PartitionsFor (rm_Geometry m) (rm_Profiles m) i =
      Some (concat (map (partitions_of (rm_Geometry m) i) (rm_Profiles m)))"
    and "concat (map (partitions_of (rm_Geometry m) i) (rm_Profiles m)) \<noteq> []"
proof -
  note m = mig_view_Some [OF assms]
  show "PartitionsFor (rm_Geometry m) (rm_Profiles m) i =
      Some (concat (map (partitions_of (rm_Geometry m) i) (rm_Profiles m)))"
    using m(5) by (rule PartitionsFor_eq)
  have "geo_Profiles (rm_Geometry m) \<noteq> []"
    using geometries_shape [OF GeometryFor_Inr [OF m(1)]] by (auto simp: datacenterShape_def)
  then have "rm_Profiles m \<noteq> []"
    using m(2) by (cases "mig_names pool") (auto simp: SelectProfiles_def split: option.splits sum.splits)
  then obtain p where p: "p \<in> set (rm_Profiles m)" by (cases "rm_Profiles m") auto
  then have "p \<in> set (geo_Profiles (rm_Geometry m))" using SelectProfiles_mem [OF m(2)] by blast
  then have "length (partitions_of (rm_Geometry m) i p) > 0" using geometry_profile_small [OF m(1)] by simp
  then have "partitions_of (rm_Geometry m) i p \<noteq> []" by (metis length_greater_0_conv)
  then show "concat (map (partitions_of (rm_Geometry m) i) (rm_Profiles m)) \<noteq> []" using p by auto
qed

lemma resolve_gpu_view:
  assumes "gp_Devices prof \<noteq> []" "0 \<le> i"
  shows "resolve_gpu uuid prof (mig_view pool) n fd nv i =
         Some (Inr (gpu_view uuid prof (mig_view pool) n fd nv i))"
proof -
  obtain f where "GPU prof i = Some (Inr f)" using GPU_total [OF assms] by blast
  moreover have "(case mig_view pool of None \<Rightarrow> Some []
       | Some m \<Rightarrow> PartitionsFor (rm_Geometry m) (rm_Profiles m) i) =
      Some (case mig_view pool of None \<Rightarrow> []
        | Some m \<Rightarrow> concat (map (partitions_of (rm_Geometry m) i) (rm_Profiles m)))"
    by (auto simp: PartitionsFor_eq mig_view_Some split: option.split)
  ultimately show ?thesis by (simp add: resolve_gpu_def gpu_view_def facts_view_def)
qed

lemma wf_pool:
  assumes "topology_wf ct" "node \<in> set (all_nodes ct)"
  shows "pool_wf (pool_of ct (nd_Pool node))"
    and "\<exists>name. (name, pool_of ct (nd_Pool node)) \<in> set (pools ct)"
proof -
  obtain p where p: "map_get (pools ct) (nd_Pool node) = Some p"
    using assms by (auto simp: topology_wf_def)
  then have "(nd_Pool node, p) \<in> set (pools ct)" by (rule map_of_SomeD)
  with assms(1) p show "pool_wf (pool_of ct (nd_Pool node))"
    "\<exists>name. (name, pool_of ct (nd_Pool node)) \<in> set (pools ct)"
    by (auto simp: pool_of_def topology_wf_def)
qed

lemma Resolve_eq:
  assumes wf: "topology_wf ct" and loads: "loads load prof ct"
  shows "Resolve uuid load ct = Some (Inr (resolved_view uuid prof ct))"
proof -
  obtain m where m: "load_profiles load (pools ct) [] = Inr m"
    and get: "\<And>k. k \<in> profile_names (pools ct) \<Longrightarrow> map_get m k = Some (prof k)"
  proof -
    have "\<forall>(name, pool)\<in>set (pools ct). load (np_Profile pool) = Inr (prof (np_Profile pool))"
      using loads by (auto simp: loads_def)
    from load_profiles_Inr [OF this, of "[]" "{}"] that show thesis by auto
  qed
  have node: "resolve_node uuid ct m rack (gpusInRack ct rack) n = Some (Inr (node_view uuid prof ct rack n))"
    if "rack \<in> set (racks ct)" "n \<in> set (rk_Nodes rack)" for rack n
  proof -
    have n: "n \<in> set (all_nodes ct)" using that by (auto simp: all_nodes_def)
    obtain name where pool: "(name, pool_of ct (nd_Pool n)) \<in> set (pools ct)" using wf_pool(2) [OF wf n] by blast
    then have "map_get m (np_Profile (pool_of ct (nd_Pool n))) = Some (prof (np_Profile (pool_of ct (nd_Pool n))))"
      by (intro get) force
    moreover have "gp_Devices (prof (np_Profile (pool_of ct (nd_Pool n)))) \<noteq> []"
      using loads pool by (auto simp: loads_def)
    then have "collect_err (resolve_gpu uuid (prof (np_Profile (pool_of ct (nd_Pool n))))
        (mig_view (pool_of ct (nd_Pool n))) (nd_Name n) (rk_FaultDomain rack) nv) [0..k] =
      Some (Inr (map (gpu_view uuid (prof (np_Profile (pool_of ct (nd_Pool n))))
        (mig_view (pool_of ct (nd_Pool n))) (nd_Name n) (rk_FaultDomain rack) nv) [0..k]))" for nv k
      by (intro collect_err_total resolve_gpu_view) auto
    ultimately show ?thesis
      by (simp add: resolve_node_def node_view_def Let_def resolve_mig_ok [OF wf_pool(1) [OF wf n]])
  qed
  have "collect_err (\<lambda>rack. collect_err (resolve_node uuid ct m rack (gpusInRack ct rack)) (rk_Nodes rack)) (racks ct)
    = Some (Inr (map (\<lambda>rack. map (node_view uuid prof ct rack) (rk_Nodes rack)) (racks ct)))"
    by (intro collect_err_total node) auto
  then show ?thesis by (simp add: Resolve_def m resolved_view_def)
qed

subsection \<open>Properties\<close>

text \<open>Every node of the document with the rack it stands in, in document order.\<close>

definition placed :: "cluster_topology \<Rightarrow> (rack \<times> topo_node) list" where
  "placed ct = concat (map (\<lambda>r. map (Pair r) (rk_Nodes r)) (racks ct))"

lemma placed_nodes: "map snd (placed ct) = all_nodes ct"
  by (simp add: placed_def all_nodes_def map_concat comp_def)

lemma set_placed: "(r, n) \<in> set (placed ct) \<longleftrightarrow> r \<in> set (racks ct) \<and> n \<in> set (rk_Nodes r)"
  by (auto simp: placed_def)

lemma resolved_nodes: "rs_Nodes (resolved_view uuid prof ct) = map (case_prod (node_view uuid prof ct)) (placed ct)"
  by (simp add: resolved_view_def placed_def map_concat comp_def)

lemma node_view_sel [simp]:
  "rn_Name (node_view uuid prof ct r n) = nd_Name n"
  "rn_Pool (node_view uuid prof ct r n) = nd_Pool n"
  "rn_Rack (node_view uuid prof ct r n) = rk_Name r"
  "rn_FaultDomain (node_view uuid prof ct r n) = rk_FaultDomain r"
  "rn_MIG (node_view uuid prof ct r n) = mig_view (pool_of ct (nd_Pool n))"
  "rn_NVLinkDomain (node_view uuid prof ct r n) =
     fst (nvlinkFor (pool_of ct (nd_Pool n)) r (nd_Name n) (gpusInRack ct r))"
  "length (rn_GPUs (node_view uuid prof ct r n)) = nat (np_GPUCount (pool_of ct (nd_Pool n)))"
  by (simp_all add: node_view_def Let_def)

lemma resolved_gpu_facts:
  assumes "x = node_view uuid prof ct r n" "g \<in> set (rn_GPUs x)"
  shows "rg_NVLinkDomain g = rn_NVLinkDomain x" "rg_FaultDomain g = rn_FaultDomain x"
    "rg_UUID g = DeviceUUID uuid (rn_Name x) (rg_Index g)"
    "rg_DeviceName g = DeviceName uuid (rn_Name x) (rg_Index g)"
    "0 \<le> rg_Index g" "rg_Index g < np_GPUCount (pool_of ct (nd_Pool n))"
    "rg_NVLinkPeers g = snd (nvlinkFor (pool_of ct (nd_Pool n)) r (nd_Name n) (gpusInRack ct r))"
    "rg_PCIBusID g = gf_PCIBusID (facts_view (prof (np_Profile (pool_of ct (nd_Pool n)))) (rg_Index g))"
    "rg_Partitions g = (case rn_MIG x of None \<Rightarrow> []
       | Some m \<Rightarrow> concat (map (partitions_of (rm_Geometry m) (rg_Index g)) (rm_Profiles m)))"
    "rg_PCIeRoot g = gf_PCIeRoot (facts_view (prof (np_Profile (pool_of ct (nd_Pool n)))) (rg_Index g))"
    "rg_NUMANode g = gf_NUMANode (facts_view (prof (np_Profile (pool_of ct (nd_Pool n)))) (rg_Index g))"
proof -
  let ?pool = "pool_of ct (nd_Pool n)"
  obtain i where i: "0 \<le> i" "i < np_GPUCount ?pool"
    and g: "g = gpu_view uuid (prof (np_Profile ?pool)) (mig_view ?pool) (nd_Name n) (rk_FaultDomain r)
        (nvlinkFor ?pool r (nd_Name n) (gpusInRack ct r)) i"
    using assms by (auto simp: node_view_def Let_def)
  show "rg_NVLinkDomain g = rn_NVLinkDomain x" "rg_FaultDomain g = rn_FaultDomain x"
    "rg_UUID g = DeviceUUID uuid (rn_Name x) (rg_Index g)"
    "rg_DeviceName g = DeviceName uuid (rn_Name x) (rg_Index g)"
    "0 \<le> rg_Index g" "rg_Index g < np_GPUCount ?pool"
    "rg_NVLinkPeers g = snd (nvlinkFor ?pool r (nd_Name n) (gpusInRack ct r))"
    "rg_PCIBusID g = gf_PCIBusID (facts_view (prof (np_Profile ?pool)) (rg_Index g))"
    "rg_Partitions g = (case rn_MIG x of None \<Rightarrow> []
       | Some m \<Rightarrow> concat (map (partitions_of (rm_Geometry m) (rg_Index g)) (rm_Profiles m)))"
    "rg_PCIeRoot g = gf_PCIeRoot (facts_view (prof (np_Profile (pool_of ct (nd_Pool n)))) (rg_Index g))"
    "rg_NUMANode g = gf_NUMANode (facts_view (prof (np_Profile (pool_of ct (nd_Pool n)))) (rg_Index g))"
    using i by (simp_all add: g assms(1) gpu_view_def split: option.split)
qed

lemma resolved_gpu_indices:
  "map rg_Index (rn_GPUs (node_view uuid prof ct r n)) = [0..np_GPUCount (pool_of ct (nd_Pool n)) - 1]"
  by (simp add: node_view_def Let_def gpu_view_def comp_def)

definition demo_pool :: "string \<Rightarrow> node_pool" where
  "demo_pool nvlink = \<lparr>np_Profile = ''h100'', np_GPUCount = 2, np_NVLink = nvlink, np_MIG = None\<rparr>"

definition demo_topology :: "string \<Rightarrow> string \<Rightarrow> cluster_topology" where
  "demo_topology domain1 domain2 =
     \<lparr>ct_APIVersion = APIVersion, ct_Kind = Kind, ct_MetadataName = ''demo'',
      ct_Spec = \<lparr>sp_NodePools = [(''p'', demo_pool NVLinkFullMesh)],
        sp_Racks =
          [\<lparr>rk_Name = ''r1'', rk_FaultDomain = ''f1'', rk_NVLinkDomain = domain1,
            rk_Nodes = [\<lparr>nd_Name = ''n1'', nd_Pool = ''p''\<rparr>, \<lparr>nd_Name = ''n2'', nd_Pool = ''p''\<rparr>]\<rparr>,
           \<lparr>rk_Name = ''r2'', rk_FaultDomain = ''f2'', rk_NVLinkDomain = domain2,
            rk_Nodes = [\<lparr>nd_Name = ''n3'', nd_Pool = ''p''\<rparr>]\<rparr>]\<rparr>\<rparr>"

lemma demo_wf: "topology_wf (demo_topology d1 d2)"
  by (simp add: demo_topology_def topology_wf_def demo_pool_def pool_wf_def MIGEnabled_def
      all_nodes_def pool_of_def APIVersion_def Kind_def NVLinkFullMesh_def NVLinkNone_def)

lemma demo_loads: "loads (\<lambda>_. Inr sample_profile) (\<lambda>_. sample_profile) (demo_topology d1 d2)"
  by (simp add: demo_topology_def loads_def sample_profile_def)

text \<open>A demonstration topology with one MIG node, its profiles given by name.\<close>

definition demo_mig_topology :: "string list \<Rightarrow> cluster_topology" where
  "demo_mig_topology names =
     \<lparr>ct_APIVersion = APIVersion, ct_Kind = Kind, ct_MetadataName = ''demo'',
      ct_Spec = \<lparr>sp_NodePools = [(''p'', \<lparr>np_Profile = ''h100'', np_GPUCount = 1, np_NVLink = NVLinkNone,
          np_MIG = Some \<lparr>mc_Enabled = True, mc_Profiles = names\<rparr>\<rparr>)],
        sp_Racks =
          [\<lparr>rk_Name = ''r1'', rk_FaultDomain = ''f1'', rk_NVLinkDomain = [],
            rk_Nodes = [\<lparr>nd_Name = ''n1'', nd_Pool = ''p''\<rparr>]\<rparr>]\<rparr>\<rparr>"

lemma demo_mig_wf:
  assumes "set names \<subseteq> {''1g.10gb'', ''1g.20gb''}"
  shows "topology_wf (demo_mig_topology names)"
proof -
  have low: "to_lower ''h100'' = ''h100''" by code_simp
  then obtain g where g: "GeometryFor ''h100'' = Inr g" "g = the (map_of geometries ''h100'')"
    by (auto simp: GeometryFor_def geometry_table)
  have "\<forall>n\<in>set names. n \<in> set (ProfileNames g)"
    using assms by (auto simp: g(2) geometry_table ProfileNames_def)
  then have "\<exists>ps. SelectProfiles g names = Inr ps"
    using select_loop_Inl [of g names] by (cases "select_loop g names") (auto simp: SelectProfiles_def)
  then show ?thesis
    by (simp add: demo_mig_topology_def topology_wf_def pool_wf_def MIGEnabled_def mig_names_def g(1)
        all_nodes_def pool_of_def APIVersion_def Kind_def NVLinkFullMesh_def NVLinkNone_def)
qed

lemma demo_mig_loads: "loads (\<lambda>_. Inr sample_profile) (\<lambda>_. sample_profile) (demo_mig_topology names)"
  by (simp add: demo_mig_topology_def loads_def sample_profile_def)

lemma resolved_node_correct:
  assumes wf: "topology_wf ct" and loads: "loads load prof ct" and x: "x \<in> set (rs_Nodes (resolved_view uuid prof ct))"
  shows "let pool = pool_of ct (rn_Pool x) in
        map rg_Index (rn_GPUs x) = [0..np_GPUCount pool - 1] \<and>
        (rn_MIG x \<noteq> None \<longleftrightarrow> MIGEnabled pool) \<and>
        (\<forall>m. rn_MIG x = Some m \<longrightarrow> GeometryFor (np_Profile pool) = Inr (rm_Geometry m) \<and>
           SelectProfiles (rm_Geometry m) (mig_names pool) = Inr (rm_Profiles m)) \<and>
        (\<forall>g\<in>set (rn_GPUs x).
           rg_NVLinkDomain g = rn_NVLinkDomain x \<and> rg_FaultDomain g = rn_FaultDomain x \<and>
           rg_DeviceName g = DeviceName uuid (rn_Name x) (rg_Index g) \<and>
           rg_UUID g = DeviceUUID uuid (rn_Name x) (rg_Index g) \<and>
           GPU (prof (np_Profile pool)) (rg_Index g) = Some (Inr
             \<lparr>gf_PCIBusID = rg_PCIBusID g, gf_PCIeRoot = rg_PCIeRoot g, gf_NUMANode = rg_NUMANode g\<rparr>) \<and>
           (rg_Partitions g \<noteq> [] \<longleftrightarrow> MIGEnabled pool) \<and>
           (\<forall>m. rn_MIG x = Some m \<longrightarrow>
              PartitionsFor (rm_Geometry m) (rm_Profiles m) (rg_Index g) = Some (rg_Partitions g)))"
proof -
  obtain k n where kn: "(k, n) \<in> set (placed ct)" and v: "x = node_view uuid prof ct k n"
    using x by (auto simp: resolved_nodes)
  have n: "n \<in> set (all_nodes ct)" using kn by (force simp flip: placed_nodes)
  let ?pool = "pool_of ct (nd_Pool n)"
  have pool: "rn_Pool x = nd_Pool n" and view: "rn_MIG x = mig_view ?pool" by (simp_all add: v)
  have mig: "mig_view ?pool \<noteq> None \<longleftrightarrow> MIGEnabled ?pool"
    using wf_pool(1) [OF wf n] by (auto simp: mig_view_def resolve_mig_def pool_wf_def)
  have devices: "gp_Devices (prof (np_Profile ?pool)) \<noteq> []"
    using wf_pool(2) [OF wf n] loads by (auto simp: loads_def)
  have gpu: "rg_NVLinkDomain g = rn_NVLinkDomain x \<and> rg_FaultDomain g = rn_FaultDomain x \<and>
       rg_DeviceName g = DeviceName uuid (rn_Name x) (rg_Index g) \<and>
       rg_UUID g = DeviceUUID uuid (rn_Name x) (rg_Index g) \<and>
       GPU (prof (np_Profile ?pool)) (rg_Index g) = Some (Inr
         \<lparr>gf_PCIBusID = rg_PCIBusID g, gf_PCIeRoot = rg_PCIeRoot g, gf_NUMANode = rg_NUMANode g\<rparr>) \<and>
       (rg_Partitions g \<noteq> [] \<longleftrightarrow> MIGEnabled ?pool) \<and>
       (\<forall>m. rn_MIG x = Some m \<longrightarrow>
          PartitionsFor (rm_Geometry m) (rm_Profiles m) (rg_Index g) = Some (rg_Partitions g))"
    if "g \<in> set (rn_GPUs x)" for g
  proof -
    note facts = resolved_gpu_facts [OF v that]
    obtain f where f: "GPU (prof (np_Profile ?pool)) (rg_Index g) = Some (Inr f)"
      using GPU_total [OF devices facts(5)] by blast
    moreover have "f = \<lparr>gf_PCIBusID = rg_PCIBusID g, gf_PCIeRoot = rg_PCIeRoot g, gf_NUMANode = rg_NUMANode g\<rparr>"
      unfolding facts(8,10,11) by (simp add: facts_view_def f)
    moreover have "rg_Partitions g \<noteq> [] \<longleftrightarrow> MIGEnabled ?pool"
      unfolding facts(9) view mig [symmetric] using mig_view_partitions(2) by (auto split: option.split)
    moreover have "PartitionsFor (rm_Geometry m) (rm_Profiles m) (rg_Index g) = Some (rg_Partitions g)"
      if "rn_MIG x = Some m" for m
      unfolding facts(9) using that view mig_view_partitions(1) by auto
    ultimately show ?thesis using facts(1-4) by blast
  qed
  show ?thesis
    unfolding Let_def pool using gpu mig mig_view_Some(1,2) [of ?pool]
    by (simp add: view) (simp add: v resolved_gpu_indices)
qed

text \<open>
  C10. Expanding a valid topology never fails and never panics, and it loses nothing: when
  every pool's profile loads, \<open>Resolve\<close> returns the document's nodes in document order, each
  with its pool, rack and fault domain, with exactly \<open>gpuCount\<close> GPUs indexed from 0 that
  carry the node's own NVLink and fault domain, the name and the UUID derived from node and
  index, and the PCI address, PCIe root and NUMA node their profile gives that index. MIG is
  resolved exactly where the pool enables it, to the geometry of the pool's GPU and the profiles
  the pool names (all of them when it names none); each GPU then has the partitions which
  that geometry gives those profiles on that GPU, at least one, and on every other node none.
\<close>

theorem Resolve_total:
  assumes "Validate ct = []" "loads load prof ct"
  shows "\<exists>r. Resolve uuid load ct = Some (Inr r) \<and> rs_Name r = ct_MetadataName ct \<and>
     map (\<lambda>x. (rn_Name x, rn_Pool x)) (rs_Nodes r) = map (\<lambda>n. (nd_Name n, nd_Pool n)) (all_nodes ct) \<and>
     map (\<lambda>x. (rn_Rack x, rn_FaultDomain x)) (rs_Nodes r) =
       map (\<lambda>(k, n). (rk_Name k, rk_FaultDomain k)) (placed ct) \<and>
     (\<forall>x\<in>set (rs_Nodes r). let pool = pool_of ct (rn_Pool x) in
        map rg_Index (rn_GPUs x) = [0..np_GPUCount pool - 1] \<and>
        (rn_MIG x \<noteq> None \<longleftrightarrow> MIGEnabled pool) \<and>
        (\<forall>m. rn_MIG x = Some m \<longrightarrow> GeometryFor (np_Profile pool) = Inr (rm_Geometry m) \<and>
           SelectProfiles (rm_Geometry m) (mig_names pool) = Inr (rm_Profiles m)) \<and>
        (\<forall>g\<in>set (rn_GPUs x).
           rg_NVLinkDomain g = rn_NVLinkDomain x \<and> rg_FaultDomain g = rn_FaultDomain x \<and>
           rg_DeviceName g = DeviceName uuid (rn_Name x) (rg_Index g) \<and>
           rg_UUID g = DeviceUUID uuid (rn_Name x) (rg_Index g) \<and>
           GPU (prof (np_Profile pool)) (rg_Index g) = Some (Inr
             \<lparr>gf_PCIBusID = rg_PCIBusID g, gf_PCIeRoot = rg_PCIeRoot g, gf_NUMANode = rg_NUMANode g\<rparr>) \<and>
           (rg_Partitions g \<noteq> [] \<longleftrightarrow> MIGEnabled pool) \<and>
           (\<forall>m. rn_MIG x = Some m \<longrightarrow>
              PartitionsFor (rm_Geometry m) (rm_Profiles m) (rg_Index g) = Some (rg_Partitions g))))"
proof -
  have wf: "topology_wf ct" using assms(1) by (simp add: Validate_wf)
  let ?r = "resolved_view uuid prof ct"
  note Resolve_eq [OF wf assms(2), of uuid]
  moreover have "map (\<lambda>x. (rn_Name x, rn_Pool x)) (rs_Nodes ?r) = map (\<lambda>n. (nd_Name n, nd_Pool n)) (all_nodes ct)"
    unfolding resolved_nodes placed_nodes [symmetric] by (simp add: split_beta)
  moreover have "map (\<lambda>x. (rn_Rack x, rn_FaultDomain x)) (rs_Nodes ?r) =
       map (\<lambda>(k, n). (rk_Name k, rk_FaultDomain k)) (placed ct)"
    unfolding resolved_nodes by (simp add: split_beta)
  moreover have "rs_Name ?r = ct_MetadataName ct" by (simp add: resolved_view_def)
  ultimately show ?thesis using resolved_node_correct [OF wf assms(2), of _ uuid] by blast
qed

theorem Resolve_total_witness:
  "\<exists>r. Resolve (\<lambda>s. s) (\<lambda>_. Inr sample_profile) (demo_mig_topology []) = Some (Inr r) \<and> map rn_Name (rs_Nodes r) = [''n1''] \<and>
     (\<forall>x\<in>set (rs_Nodes r). \<forall>g\<in>set (rn_GPUs x). rg_Partitions g \<noteq> [])"
proof -
  have "Validate (demo_mig_topology []) = []" using demo_mig_wf [of "[]"] by (simp add: Validate_wf)
  from Resolve_total [OF this demo_mig_loads, of "\<lambda>s. s"] obtain r where
    r: "Resolve (\<lambda>s. s) (\<lambda>_. Inr sample_profile) (demo_mig_topology []) = Some (Inr r)"
    "map (\<lambda>x. (rn_Name x, rn_Pool x)) (rs_Nodes r) = map (\<lambda>n. (nd_Name n, nd_Pool n)) (all_nodes (demo_mig_topology []))"
    "\<forall>x\<in>set (rs_Nodes r). \<forall>g\<in>set (rn_GPUs x). rg_Partitions g \<noteq> [] \<longleftrightarrow> MIGEnabled (pool_of (demo_mig_topology []) (rn_Pool x))"
    by (auto simp: Let_def)
  have "rs_Nodes r \<noteq> [] \<and> map rn_Name (rs_Nodes r) = [''n1''] \<and> (\<forall>x\<in>set (rs_Nodes r). rn_Pool x = ''p'')"
    using r(2) by (auto simp: demo_mig_topology_def all_nodes_def)
  moreover have "MIGEnabled (pool_of (demo_mig_topology []) ''p'')"
    by (simp add: demo_mig_topology_def pool_of_def MIGEnabled_def)
  ultimately show ?thesis using r(1,3) by auto
qed

subsection \<open>NVLink peers\<close>

text \<open>The GPUs of the whole cluster that report a given NVLink domain.\<close>

definition domain_gpus :: "resolved \<Rightarrow> string \<Rightarrow> int" where
  "domain_gpus r d =
     sum_list (map (\<lambda>x. int (length (filter (\<lambda>g. rg_NVLinkDomain g = d) (rn_GPUs x)))) (rs_Nodes r))"

text \<open>
  Domain identifiers do not collide: no two racks share one, and none is the name of a node.
\<close>

definition domains_separate :: "cluster_topology \<Rightarrow> bool" where
  "domains_separate ct \<longleftrightarrow>
     distinct (filter (\<lambda>d. d \<noteq> []) (map rk_NVLinkDomain (racks ct))) \<and>
     list_all (\<lambda>r. rk_NVLinkDomain r \<notin> set (map nd_Name (all_nodes ct))) (racks ct)"

abbreviation node_domain :: "cluster_topology \<Rightarrow> rack \<times> topo_node \<Rightarrow> string" where
  "node_domain ct x \<equiv>
     fst (nvlinkFor (pool_of ct (nd_Pool (snd x))) (fst x) (nd_Name (snd x)) (gpusInRack ct (fst x)))"

abbreviation node_count :: "cluster_topology \<Rightarrow> rack \<times> topo_node \<Rightarrow> int" where
  "node_count ct x \<equiv> np_GPUCount (pool_of ct (nd_Pool (snd x)))"

lemma placed_names: "map (nd_Name \<circ> snd) (placed ct) = map nd_Name (all_nodes ct)"
  by (metis list.map_comp placed_nodes)

lemma distinct_placed_names: "topology_wf ct \<Longrightarrow> distinct (map (nd_Name \<circ> snd) (placed ct))"
  unfolding placed_names by (simp add: topology_wf_def)

lemma distinct_placed: "topology_wf ct \<Longrightarrow> distinct (placed ct)"
  using distinct_placed_names [of ct] by (simp only: distinct_map)

lemma placed_name_inject:
  "topology_wf ct \<Longrightarrow> x \<in> set (placed ct) \<Longrightarrow> y \<in> set (placed ct) \<Longrightarrow>
   nd_Name (snd x) = nd_Name (snd y) \<Longrightarrow> x = y"
  using inj_on_eq_iff [of "nd_Name \<circ> snd" "set (placed ct)" x y] distinct_placed_names [of ct]
  by (simp add: distinct_map)

lemma placed_wf:
  assumes "topology_wf ct" "x \<in> set (placed ct)"
  shows "0 < node_count ct x" "nd_Name (snd x) \<noteq> []" "snd x \<in> set (all_nodes ct)"
    "fst x \<in> set (racks ct)" "snd x \<in> set (rk_Nodes (fst x))"
    "rk_NVLinkDomain (fst x) \<noteq> [] \<Longrightarrow> np_NVLink (pool_of ct (nd_Pool (snd x))) \<noteq> NVLinkNone"
proof -
  show r: "fst x \<in> set (racks ct)" and n: "snd x \<in> set (rk_Nodes (fst x))"
    using assms(2) by (auto simp: placed_def)
  show a: "snd x \<in> set (all_nodes ct)" using r n by (auto simp: all_nodes_def)
  show "0 < node_count ct x" using wf_pool(1) [OF assms(1) a] by (simp add: pool_wf_def)
  show "nd_Name (snd x) \<noteq> []" using assms(1) a by (simp add: topology_wf_def)
  show "rk_NVLinkDomain (fst x) \<noteq> [] \<Longrightarrow> np_NVLink (pool_of ct (nd_Pool (snd x))) \<noteq> NVLinkNone"
    using assms(1) r n by (simp add: topology_wf_def)
qed

lemma domain_gpus_eq:
  assumes "topology_wf ct"
  shows "domain_gpus (resolved_view uuid prof ct) d =
         (\<Sum>x\<in>{x\<in>set (placed ct). node_domain ct x = d}. node_count ct x)"
proof -
  have count: "int (length (filter (\<lambda>g. rg_NVLinkDomain g = d) (rn_GPUs (node_view uuid prof ct (fst x) (snd x)))))
      = (if node_domain ct x = d then node_count ct x else 0)" if "x \<in> set (placed ct)" for x
  proof -
    have "filter (\<lambda>g. rg_NVLinkDomain g = d) (rn_GPUs (node_view uuid prof ct (fst x) (snd x))) =
          (if node_domain ct x = d then rn_GPUs (node_view uuid prof ct (fst x) (snd x)) else [])"
      using resolved_gpu_facts(1) [OF refl] by (auto simp: filter_id_conv filter_empty_conv)
    then show ?thesis using placed_wf(1) [OF assms that] by simp
  qed
  have "domain_gpus (resolved_view uuid prof ct) d =
        sum_list (map (\<lambda>x. if node_domain ct x = d then node_count ct x else 0) (placed ct))"
    unfolding domain_gpus_def resolved_nodes by (simp add: comp_def split_beta count cong: map_cong)
  also have "\<dots> = (\<Sum>x\<in>set (placed ct). if node_domain ct x = d then node_count ct x else 0)"
    by (simp add: sum_list_distinct_conv_sum_set distinct_placed [OF assms])
  finally show ?thesis by (simp add: sum.inter_filter)
qed

lemma domain_members:
  assumes "topology_wf ct" "domains_separate ct" "x \<in> set (placed ct)" "node_domain ct x \<noteq> []"
  shows "{y\<in>set (placed ct). node_domain ct y = node_domain ct x} =
         (if rk_NVLinkDomain (fst x) \<noteq> [] then Pair (fst x) ` set (rk_Nodes (fst x)) else {x})"
proof -
  have eq_rack: "r = r'"
    if "r \<in> set (racks ct)" "r' \<in> set (racks ct)" "rk_NVLinkDomain r = rk_NVLinkDomain r'"
      "rk_NVLinkDomain r \<noteq> []" for r r'
    using assms(2) that by (auto simp: domains_separate_def distinct_map filter_map inj_on_def comp_def)
  have sep: "rk_NVLinkDomain (fst y) \<noteq> nd_Name (snd z)"
    if "y \<in> set (placed ct)" "z \<in> set (placed ct)" for y z
    using assms(2) placed_wf [OF assms(1) that(1)] placed_wf [OF assms(1) that(2)]
    by (auto simp: domains_separate_def list_all_iff)
  have dom: "node_domain ct y = (if rk_NVLinkDomain (fst y) \<noteq> [] then rk_NVLinkDomain (fst y) else nd_Name (snd y))"
    if "y \<in> set (placed ct)" "node_domain ct y \<noteq> []" for y
    using that by (simp add: nvlinkFor_def split: if_splits)
  have x: "node_domain ct x = (if rk_NVLinkDomain (fst x) \<noteq> [] then rk_NVLinkDomain (fst x) else nd_Name (snd x))"
    by (rule dom [OF assms(3,4)])
  show ?thesis
  proof (cases "rk_NVLinkDomain (fst x) = []")
    case True
    have "y = x" if "y \<in> set (placed ct)" "node_domain ct y = node_domain ct x" for y
    proof -
      have "node_domain ct y \<noteq> []" using that(2) assms(4) by simp
      from dom [OF that(1) this] that(2) x True sep [OF that(1) assms(3)]
      have "nd_Name (snd y) = nd_Name (snd x)" by (simp split: if_splits)
      then show ?thesis by (rule placed_name_inject [OF assms(1) that(1) assms(3)])
    qed
    then show ?thesis using True assms(3) by auto
  next
    case False
    have "y \<in> Pair (fst x) ` set (rk_Nodes (fst x))"
      if "y \<in> set (placed ct)" "node_domain ct y = node_domain ct x" for y
    proof -
      have "node_domain ct y \<noteq> []" using that(2) assms(4) by simp
      from dom [OF that(1) this] that(2) x False sep [OF assms(3) that(1)]
      have "rk_NVLinkDomain (fst y) = rk_NVLinkDomain (fst x)" by (simp split: if_splits)
      then have "fst y = fst x"
        using eq_rack placed_wf(4) [OF assms(1)] that(1) assms(3) False by metis
      then show ?thesis using placed_wf(5) [OF assms(1) that(1)] by (metis image_eqI prod.collapse)
    qed
    moreover have "y \<in> set (placed ct) \<and> node_domain ct y = node_domain ct x"
      if "y \<in> Pair (fst x) ` set (rk_Nodes (fst x))" for y
    proof -
      have y: "y \<in> set (placed ct)" "fst y = fst x"
        using that placed_wf(4) [OF assms(1,3)] by (auto simp: set_placed)
      moreover have "np_NVLink (pool_of ct (nd_Pool (snd y))) \<noteq> NVLinkNone"
        using placed_wf(6) [OF assms(1) y(1)] y(2) False by simp
      ultimately show ?thesis using x False by (simp add: nvlinkFor_def)
    qed
    ultimately show ?thesis using False by auto
  qed
qed

text \<open>
  C36. The NVLink peer count is right: in a valid topology whose domain identifiers do not
  collide, a GPU on NVLink reports one peer fewer than there are GPUs in the whole cluster
  that carry its domain; a GPU without NVLink reports no domain and no peer.
\<close>

theorem NVLinkPeers_correct:
  assumes "Validate ct = []" "loads load prof ct" "domains_separate ct"
    and "Resolve uuid load ct = Some (Inr r)" "x \<in> set (rs_Nodes r)" "g \<in> set (rn_GPUs x)"
  shows "if rg_NVLinkDomain g = [] then rg_NVLinkPeers g = 0
         else rg_NVLinkPeers g = domain_gpus r (rg_NVLinkDomain g) - 1"
proof -
  have wf: "topology_wf ct" using assms(1) by (simp add: Validate_wf)
  have r: "r = resolved_view uuid prof ct" using Resolve_eq [OF wf assms(2)] assms(4) by simp
  then obtain p where p: "p \<in> set (placed ct)" and x: "x = node_view uuid prof ct (fst p) (snd p)"
    using assms(5) by (auto simp: resolved_nodes)
  have d: "rg_NVLinkDomain g = node_domain ct p" using resolved_gpu_facts(1) [OF x assms(6)] by (simp add: x)
  have peers: "rg_NVLinkPeers g = snd (nvlinkFor (pool_of ct (nd_Pool (snd p))) (fst p)
      (nd_Name (snd p)) (gpusInRack ct (fst p)))" by (rule resolved_gpu_facts(7) [OF x assms(6)])
  show ?thesis
  proof (cases "node_domain ct p = []")
    case True
    then show ?thesis using placed_wf(2) [OF wf p] by (simp add: d peers nvlinkFor_def split: if_splits)
  next
    case False
    have nodes: "distinct (rk_Nodes (fst p))"
    proof -
      have "distinct (map nd_Name (all_nodes ct))" using wf by (simp add: topology_wf_def)
      moreover obtain as bs where "racks ct = as @ fst p # bs"
        using split_list [OF placed_wf(4) [OF wf p]] by blast
      ultimately have "distinct (map nd_Name (rk_Nodes (fst p)))" by (simp add: all_nodes_def)
      then show ?thesis by (simp only: distinct_map)
    qed
    have "(\<Sum>y\<in>Pair (fst p) ` set (rk_Nodes (fst p)). node_count ct y) = gpusInRack ct (fst p)"
      by (subst sum.reindex) (simp_all add: inj_on_def gpusInRack_def comp_def
          sum_list_distinct_conv_sum_set [OF nodes])
    then have "domain_gpus r (rg_NVLinkDomain g) =
        (if rk_NVLinkDomain (fst p) \<noteq> [] then gpusInRack ct (fst p) else node_count ct p)"
      unfolding r d domain_gpus_eq [OF wf] domain_members [OF wf assms(3) p False] by simp
    with False show ?thesis by (auto simp: d peers nvlinkFor_def split: if_splits)
  qed
qed

theorem NVLinkPeers_correct_witness:
  "\<exists>r x g. Resolve (\<lambda>s. s) (\<lambda>_. Inr sample_profile) (demo_topology ''nvl'' []) = Some (Inr r) \<and>
     x \<in> set (rs_Nodes r) \<and> g \<in> set (rn_GPUs x) \<and> rg_NVLinkDomain g = ''nvl'' \<and>
     rg_NVLinkPeers g = domain_gpus r ''nvl'' - 1"
proof -
  let ?ct = "demo_topology ''nvl'' []" and ?id = "\<lambda>s. s" and ?prof = "\<lambda>_. sample_profile"
  let ?r = "resolved_view ?id ?prof ?ct"
  let ?x = "hd (rs_Nodes ?r)"
  have v: "Validate ?ct = []" using demo_wf by (simp add: Validate_wf)
  have s: "domains_separate ?ct"
    by (simp add: domains_separate_def demo_topology_def all_nodes_def)
  have res: "Resolve ?id (\<lambda>_. Inr sample_profile) ?ct = Some (Inr ?r)"
    by (rule Resolve_eq [OF demo_wf demo_loads])
  have x: "?x \<in> set (rs_Nodes ?r)" by (simp add: resolved_nodes placed_def demo_topology_def)
  have g: "hd (rn_GPUs ?x) \<in> set (rn_GPUs ?x)" and d: "rg_NVLinkDomain (hd (rn_GPUs ?x)) = ''nvl''"
    by (simp_all add: resolved_nodes placed_def demo_topology_def node_view_def Let_def pool_of_def
        demo_pool_def upto.simps gpu_view_def nvlinkFor_def NVLinkFullMesh_def NVLinkNone_def)
  from NVLinkPeers_correct [OF v demo_loads s res x g] d res x g show ?thesis by auto
qed

text \<open>
  Validation does not rule domain collisions out: two racks may declare the same NVLink
  domain, and then a GPU reports fewer peers than its domain has. Here a domain of six GPUs
  in two racks is published with GPUs that report three peers.
\<close>

theorem NVLink_domain_collision:
  "Validate (demo_topology ''nvl'' ''nvl'') = [] \<and>
   (\<exists>r x g. Resolve (\<lambda>s. s) (\<lambda>_. Inr sample_profile) (demo_topology ''nvl'' ''nvl'') = Some (Inr r) \<and>
      x \<in> set (rs_Nodes r) \<and> g \<in> set (rn_GPUs x) \<and> rg_NVLinkDomain g = ''nvl'' \<and>
      rg_NVLinkPeers g = 3 \<and> domain_gpus r ''nvl'' = 6)"
proof -
  let ?ct = "demo_topology ''nvl'' ''nvl''" and ?id = "\<lambda>s. s" and ?prof = "\<lambda>_. sample_profile"
  let ?r = "resolved_view ?id ?prof ?ct"
  let ?x = "hd (rs_Nodes ?r)"
  have x: "?x \<in> set (rs_Nodes ?r)" by (simp add: resolved_nodes placed_def demo_topology_def)
  have g: "hd (rn_GPUs ?x) \<in> set (rn_GPUs ?x)"
    "rg_NVLinkDomain (hd (rn_GPUs ?x)) = ''nvl''"
    "rg_NVLinkPeers (hd (rn_GPUs ?x)) = 3"
    by (simp_all add: resolved_nodes placed_def demo_topology_def node_view_def Let_def pool_of_def
        demo_pool_def upto.simps gpu_view_def nvlinkFor_def NVLinkFullMesh_def NVLinkNone_def gpusInRack_def)
  have "domain_gpus ?r ''nvl'' = 6"
    by (simp add: domain_gpus_def resolved_nodes placed_def demo_topology_def node_view_def Let_def pool_of_def
        demo_pool_def upto.simps gpu_view_def nvlinkFor_def NVLinkFullMesh_def NVLinkNone_def gpusInRack_def)
  then show ?thesis
    using Resolve_eq [OF demo_wf demo_loads] x g demo_wf by (auto simp: Validate_wf)
qed

subsection \<open>Identity\<close>

abbreviation gpu_seeds :: "cluster_topology \<Rightarrow> string set" where
  "gpu_seeds ct \<equiv> {gpu_seed (nd_Name n) i | n i. n \<in> set (all_nodes ct) \<and>
     0 \<le> i \<and> i < np_GPUCount (pool_of ct (nd_Pool n))}"

text \<open>
  C37. GPU identities are unique across the cluster: in a resolved valid topology no two GPUs,
  on the same node or on different ones, share a device name, provided UUIDv5 does not collide
  on the names hashed.
\<close>

theorem device_names_distinct:
  assumes "Validate ct = []" "loads load prof ct" "uuid_separates uuid (gpu_seeds ct)"
    and "Resolve uuid load ct = Some (Inr r)"
  shows "distinct (concat (map (\<lambda>x. map rg_DeviceName (rn_GPUs x)) (rs_Nodes r)))"
proof -
  have wf: "topology_wf ct" using assms(1) by (simp add: Validate_wf)
  have r: "r = resolved_view uuid prof ct" using Resolve_eq [OF wf assms(2)] assms(4) by simp
  let ?ids = "\<lambda>p. map (\<lambda>i. (nd_Name (snd p), i)) [0..node_count ct p - 1]"
  have "concat (map (\<lambda>x. map rg_DeviceName (rn_GPUs x)) (rs_Nodes r)) =
        map (\<lambda>(n, i). DeviceName uuid n i) (concat (map ?ids (placed ct)))"
    by (simp add: r resolved_nodes map_concat comp_def split_beta node_view_def Let_def gpu_view_def)
  moreover have ids: "distinct (concat (map ?ids ps))" if "distinct (map (nd_Name \<circ> snd) ps)" for ps
    using that by (induction ps) (auto simp: distinct_map inj_on_def image_iff)
  have "distinct (concat (map ?ids (placed ct)))" by (rule ids [OF distinct_placed_names [OF wf]])
  moreover have "inj_on (\<lambda>(n, i). DeviceName uuid n i) (set (concat (map ?ids (placed ct))))"
  proof (rule conjunct1 [OF DeviceName_unique])
    show "uuid_separates uuid ((\<lambda>(n, i). gpu_seed n i) ` set (concat (map ?ids (placed ct))))"
      using assms(3) placed_wf(3) [OF wf] unfolding uuid_separates_def
      by (auto intro: inj_on_subset) (fastforce elim!: inj_on_subset)+
    show "\<forall>(n, i)\<in>set (concat (map ?ids (placed ct))). 0 \<le> i" by auto
  qed
  ultimately show ?thesis by (simp add: distinct_map)
qed

theorem device_names_distinct_witness:
  "distinct (concat (map (\<lambda>x. map rg_DeviceName (rn_GPUs x))
     (rs_Nodes (resolved_view (\<lambda>s. s) (\<lambda>_. sample_profile) (demo_topology [] []))))) \<and>
   (\<exists>x\<in>set (rs_Nodes (resolved_view (\<lambda>s. s) (\<lambda>_. sample_profile) (demo_topology [] []))). rn_GPUs x \<noteq> [])"
proof
  let ?ct = "demo_topology [] []"
  have v: "Validate ?ct = []" using demo_wf by (simp add: Validate_wf)
  have low: "to_lower (gpu_seed n i) = gpu_seed n i" if "n \<in> {''n1'', ''n2'', ''n3''}" "i = 0 \<or> i = 1" for n i
    using that by (elim insertE disjE emptyE)
      (simp_all add: gpu_seed_def to_lower_def itoa_def itoa_nat.simps digit_char_def)
  have sep: "uuid_separates (\<lambda>s. s) (gpu_seeds ?ct)"
    unfolding uuid_separates_def
    by (auto simp: all_nodes_def demo_topology_def pool_of_def demo_pool_def intro!: low)
  show "distinct (concat (map (\<lambda>x. map rg_DeviceName (rn_GPUs x))
     (rs_Nodes (resolved_view (\<lambda>s. s) (\<lambda>_. sample_profile) ?ct))))"
    by (rule device_names_distinct [OF v demo_loads sep Resolve_eq [OF demo_wf demo_loads]])
  show "\<exists>x\<in>set (rs_Nodes (resolved_view (\<lambda>s. s) (\<lambda>_. sample_profile) ?ct)). rn_GPUs x \<noteq> []"
    by (simp add: resolved_view_def node_view_def Let_def demo_topology_def pool_of_def demo_pool_def)
qed

end
