(* ===== verification/GenerateNodes.thy ===== *)
theory GenerateNodes
  imports TopologyResolve
begin

text \<open>
  internal/generate/labels.go, node.go and kaitopology.go: the label vocabulary, the node
  objects and the KAI topology object. Kubernetes objects are records with the fields the
  code sets; label and attribute maps are association lists, resource amounts are kept in
  the text the code parses.
\<close>

subsection \<open>Labels\<close>

definition LabelRack :: string where "LabelRack = ''gpu-sim.io/rack''"
definition LabelFaultDomain :: string where "LabelFaultDomain = ''gpu-sim.io/fault-domain''"
definition LabelNVLinkDomain :: string where "LabelNVLinkDomain = ''gpu-sim.io/nvlink-domain''"
definition LabelNodePool :: string where "LabelNodePool = ''run.ai/simulated-gpu-node-pool''"
definition LabelKWOKType :: string where "LabelKWOKType = ''type''"
definition KWOKTypeValue :: string where "KWOKTypeValue = ''kwok''"
definition LabelManagedBy :: string where "LabelManagedBy = ''app.kubernetes.io/managed-by''"
definition ManagedByValue :: string where "ManagedByValue = ''gpu-sim''"
definition LabelTopology :: string where "LabelTopology = ''gpu-sim.io/topology''"
definition LabelHostname :: string where "LabelHostname = ''kubernetes.io/hostname''"
definition LabelOS :: string where "LabelOS = ''kubernetes.io/os''"
definition LabelArch :: string where "LabelArch = ''kubernetes.io/arch''"

lemmas label_defs = LabelRack_def LabelFaultDomain_def LabelNVLinkDomain_def LabelNodePool_def
  LabelKWOKType_def KWOKTypeValue_def LabelManagedBy_def ManagedByValue_def LabelTopology_def
  LabelHostname_def LabelOS_def LabelArch_def

definition levelLabels :: "(string \<times> string) list" where
  "levelLabels =
     [(''fault-domain'', LabelFaultDomain), (''rack'', LabelRack),
      (''nvlink-domain'', LabelNVLinkDomain), (''host'', LabelHostname)]"

definition LabelForLevel :: "string \<Rightarrow> string option" where
  "LabelForLevel level = map_get levelLabels level"

definition KnownLevels :: "string list" where
  "KnownLevels = [''fault-domain'', ''rack'', ''nvlink-domain'', ''host'']"

text \<open>What a selector \<open>key=value\<close> matches.\<close>

definition has_label :: "(string \<times> string) list \<Rightarrow> string \<Rightarrow> string \<Rightarrow> bool" where
  "has_label labels k v \<longleftrightarrow> map_get labels k = Some v"

definition managed :: "(string \<times> string) list \<Rightarrow> bool" where
  "managed labels \<longleftrightarrow> has_label labels LabelManagedBy ManagedByValue"

subsection \<open>Nodes\<close>

record taint =
  ta_Key :: string
  ta_Value :: string
  ta_Effect :: string

record node_info =
  ni_Architecture :: string
  ni_OperatingSystem :: string
  ni_KubeletVersion :: string
  ni_OSImage :: string
  ni_KernelVersion :: string

record kube_node =
  kn_Name :: string
  kn_Labels :: "(string \<times> string) list"
  kn_Annotations :: "(string \<times> string) list"
  kn_Taints :: "taint list"
  kn_Capacity :: "(string \<times> string) list"
  kn_Allocatable :: "(string \<times> string) list"
  kn_NodeInfo :: node_info

definition nodeCapacity :: "(string \<times> string) list" where
  "nodeCapacity = [(''cpu'', ''128''), (''memory'', ''2Ti''), (''pods'', ''256'')]"

definition node_object :: "resolved_node \<Rightarrow> string \<Rightarrow> kube_node" where
  "node_object rn topologyName =
     \<lparr>kn_Name = rn_Name rn,
      kn_Labels =
        [(LabelKWOKType, KWOKTypeValue), (LabelNodePool, rn_Pool rn),
         (LabelManagedBy, ManagedByValue), (LabelTopology, topologyName),
         (LabelHostname, rn_Name rn), (LabelOS, ''linux''), (LabelArch, ''amd64''),
         (LabelRack, rn_Rack rn), (LabelFaultDomain, rn_FaultDomain rn)] @
        (if rn_NVLinkDomain rn \<noteq> [] then [(LabelNVLinkDomain, rn_NVLinkDomain rn)] else []),
      kn_Annotations = [(''kwok.x-k8s.io/node'', ''fake'')],
      kn_Taints = [\<lparr>ta_Key = ''kwok.x-k8s.io/node'', ta_Value = ''fake'', ta_Effect = ''NoSchedule''\<rparr>],
      kn_Capacity = nodeCapacity,
      kn_Allocatable = nodeCapacity,
      kn_NodeInfo = \<lparr>ni_Architecture = ''amd64'', ni_OperatingSystem = ''linux'',
        ni_KubeletVersion = ''fake'', ni_OSImage = ''fake'', ni_KernelVersion = ''fake''\<rparr>\<rparr>"

definition Nodes :: "resolved \<Rightarrow> kube_node list" where
  "Nodes r = map (\<lambda>rn. node_object rn (rs_Name r)) (rs_Nodes r)"

lemma node_labels:
  "map_get (kn_Labels (node_object rn t)) LabelRack = Some (rn_Rack rn)"
  "map_get (kn_Labels (node_object rn t)) LabelFaultDomain = Some (rn_FaultDomain rn)"
  "map_get (kn_Labels (node_object rn t)) LabelHostname = Some (rn_Name rn)"
  "map_get (kn_Labels (node_object rn t)) LabelNVLinkDomain =
     (if rn_NVLinkDomain rn = [] then None else Some (rn_NVLinkDomain rn))"
  "map_get (kn_Labels (node_object rn t)) LabelTopology = Some t"
  "managed (kn_Labels (node_object rn t))"
  "kn_Name (node_object rn t) = rn_Name rn"
  by (simp_all add: node_object_def label_defs managed_def has_label_def)

subsection \<open>KAI topology\<close>

record kai_level =
  kl_NodeLabel :: string
  kl_Alias :: string

record kai_topology =
  kt_APIVersion :: string
  kt_Kind :: string
  kt_Name :: string
  kt_Levels :: "kai_level list"

definition allNodesHaveNVLink :: "resolved \<Rightarrow> bool" where
  "allNodesHaveNVLink r \<longleftrightarrow> list_all (\<lambda>n. rn_NVLinkDomain n \<noteq> []) (rs_Nodes r) \<and> rs_Nodes r \<noteq> []"

definition KAITopologyFor :: "resolved \<Rightarrow> kai_topology" where
  "KAITopologyFor r =
     \<lparr>kt_APIVersion = ''kai.scheduler/v1alpha1'', kt_Kind = ''Topology'', kt_Name = rs_Name r,
      kt_Levels =
        [\<lparr>kl_NodeLabel = LabelFaultDomain, kl_Alias = ''fault-domain''\<rparr>,
         \<lparr>kl_NodeLabel = LabelRack, kl_Alias = ''rack''\<rparr>] @
        (if allNodesHaveNVLink r
         then [\<lparr>kl_NodeLabel = LabelNVLinkDomain, kl_Alias = ''nvlink-domain''\<rparr>] else []) @
        [\<lparr>kl_NodeLabel = LabelHostname, kl_Alias = ''host''\<rparr>]\<rparr>"

text \<open>How a scheduler reads a level off a node: the value of the level's label.\<close>

definition level_value :: "kai_level \<Rightarrow> kube_node \<Rightarrow> string option" where
  "level_value l n = map_get (kn_Labels n) (kl_NodeLabel l)"

lemma resolved_names_nonempty:
  assumes "topology_wf ct" "x \<in> set (rs_Nodes (resolved_view uuid prof ct))"
  shows "rn_Name x \<noteq> []" "rn_Rack x \<noteq> []" "rn_FaultDomain x \<noteq> []"
proof -
  obtain p where p: "p \<in> set (placed ct)" and x: "x = node_view uuid prof ct (fst p) (snd p)"
    using assms(2) by (auto simp: resolved_nodes)
  note w = placed_wf [OF assms(1) p]
  show "rn_Name x \<noteq> []" using w(2) by (simp add: x)
  show "rn_Rack x \<noteq> []" "rn_FaultDomain x \<noteq> []"
    using assms(1) w(4) by (auto simp: x topology_wf_def)
qed

text \<open>
  The scheduler topology and the nodes agree: for a valid topology every node the program
  creates carries a non-empty value for every level of the KAI topology it publishes, so no
  node is dropped from the scheduler's tree; the level aliases are the ones a scenario may
  name, and each alias reads the same label on both sides.
\<close>

theorem KAI_levels_labelled:
  assumes "Validate ct = []" "loads load prof ct" "Resolve uuid load ct = Some (Inr r)"
  shows "(\<forall>l\<in>set (kt_Levels (KAITopologyFor r)). \<forall>n\<in>set (Nodes r).
            \<exists>v. level_value l n = Some v \<and> v \<noteq> []) \<and>
         (\<forall>l\<in>set (kt_Levels (KAITopologyFor r)). LabelForLevel (kl_Alias l) = Some (kl_NodeLabel l)) \<and>
         set (map kl_Alias (kt_Levels (KAITopologyFor r))) \<subseteq> set KnownLevels"
proof -
  have wf: "topology_wf ct" using assms(1) by (simp add: Validate_wf)
  have r: "r = resolved_view uuid prof ct" using Resolve_eq [OF wf assms(2)] assms(3) by simp
  note ne = resolved_names_nonempty [OF wf, of _ uuid prof, folded r]
  have "\<exists>v. level_value l (node_object x (rs_Name r)) = Some v \<and> v \<noteq> []"
    if "l \<in> set (kt_Levels (KAITopologyFor r))" "x \<in> set (rs_Nodes r)" for l x
    using that ne [OF that(2)]
    by (auto simp: KAITopologyFor_def level_value_def node_labels allNodesHaveNVLink_def list_all_iff
        split: if_splits)
  moreover have "\<forall>l\<in>set (kt_Levels (KAITopologyFor r)). LabelForLevel (kl_Alias l) = Some (kl_NodeLabel l)"
    by (auto simp: KAITopologyFor_def LabelForLevel_def levelLabels_def)
  moreover have "set (map kl_Alias (kt_Levels (KAITopologyFor r))) \<subseteq> set KnownLevels"
    by (auto simp: KAITopologyFor_def KnownLevels_def)
  ultimately show ?thesis by (auto simp: Nodes_def)
qed

theorem KAI_levels_labelled_witness:
  "\<exists>r. Resolve (\<lambda>s. s) (\<lambda>_. Inr sample_profile) (demo_topology [] []) = Some (Inr r) \<and>
     length (kt_Levels (KAITopologyFor r)) = 4 \<and>
     (\<forall>l\<in>set (kt_Levels (KAITopologyFor r)). \<forall>n\<in>set (Nodes r). level_value l n \<noteq> None)"
proof -
  let ?r = "resolved_view (\<lambda>s. s) (\<lambda>_. sample_profile) (demo_topology [] [])"
  have v: "Validate (demo_topology [] []) = []" using demo_wf by (simp add: Validate_wf)
  have res: "Resolve (\<lambda>s. s) (\<lambda>_. Inr sample_profile) (demo_topology [] []) = Some (Inr ?r)"
    by (rule Resolve_eq [OF demo_wf demo_loads])
  have "allNodesHaveNVLink ?r"
    by (simp add: allNodesHaveNVLink_def resolved_nodes placed_def demo_topology_def nvlinkFor_def
        pool_of_def demo_pool_def NVLinkFullMesh_def NVLinkNone_def)
  then have "length (kt_Levels (KAITopologyFor ?r)) = 4" by (simp add: KAITopologyFor_def)
  with KAI_levels_labelled [OF v demo_loads res] res show ?thesis by fastforce
qed

end
