(* ===== verification/GenerateVolcano.thy ===== *)
theory GenerateVolcano
  imports GenerateNodes
begin

text \<open>
  internal/generate/volcanotopology.go: the tree of HyperNodes Volcano reads. The grouping
  loop folds the nodes into a Go map; the map is iterated in sorted key order. \<open>under\<close> says
  which nodes a HyperNode stands for, following member links as Volcano does.
\<close>

subsection \<open>Data\<close>

definition hyperNodeAPIVersion :: string where "hyperNodeAPIVersion = ''topology.volcano.sh/v1alpha1''"
definition hyperNodeKind :: string where "hyperNodeKind = ''HyperNode''"
definition memberTypeNode :: string where "memberTypeNode = ''Node''"
definition memberTypeHyperNode :: string where "memberTypeHyperNode = ''HyperNode''"

record hyper_member =
  hm_Type :: string
  hm_Name :: string

record hyper_node =
  hn_APIVersion :: string
  hn_Kind :: string
  hn_Name :: string
  hn_Labels :: "(string \<times> string) list"
  hn_Tier :: int
  hn_TierName :: string
  hn_Members :: "hyper_member list"

record volcano_level =
  vl_name :: string
  vl_value :: "resolved_node \<Rightarrow> string"

subsection \<open>Operations\<close>

definition volcanoLevels :: "resolved \<Rightarrow> volcano_level list" where
  "volcanoLevels r =
     [\<lparr>vl_name = ''host'', vl_value = rn_Name\<rparr>] @
     (if allNodesHaveNVLink r then [\<lparr>vl_name = ''nvlink-domain'', vl_value = rn_NVLinkDomain\<rparr>] else []) @
     [\<lparr>vl_name = ''rack'', vl_value = rn_Rack\<rparr>, \<lparr>vl_name = ''fault-domain'', vl_value = rn_FaultDomain\<rparr>]"

definition VolcanoTierNames :: "resolved \<Rightarrow> string list" where
  "VolcanoTierNames r = map vl_name (volcanoLevels r)"

definition hyperNodeName :: "string \<Rightarrow> string \<Rightarrow> string" where
  "hyperNodeName level v = ''gpu-sim-'' @ level @ ''-'' @ v"

definition hyperNode :: "string \<Rightarrow> string \<Rightarrow> int \<Rightarrow> string \<Rightarrow> string list \<Rightarrow> hyper_node" where
  "hyperNode level v tier memberType members =
     \<lparr>hn_APIVersion = hyperNodeAPIVersion, hn_Kind = hyperNodeKind, hn_Name = hyperNodeName level v,
      hn_Labels = [(LabelManagedBy, ManagedByValue)], hn_Tier = tier, hn_TierName = level,
      hn_Members = map (\<lambda>m. \<lparr>hm_Type = memberType, hm_Name = m\<rparr>) (sort members)\<rparr>"

definition appendUnique :: "string list \<Rightarrow> string \<Rightarrow> string list" where
  "appendUnique xs v = (if v \<in> set xs then xs else xs @ [v])"

definition sortedKeys :: "(string \<times> 'v) list \<Rightarrow> string list" where
  "sortedKeys m = sort (map_keys m)"

text \<open>Reading a key of a Go map of slices gives the empty slice where the key is absent.\<close>

definition entry :: "(string \<times> string list) list \<Rightarrow> string \<Rightarrow> string list" where
  "entry m k = (case map_get m k of None \<Rightarrow> [] | Some l \<Rightarrow> l)"

text \<open>The grouping loop of level \<open>i\<close>.\<close>

definition level_groups :: "volcano_level list \<Rightarrow> nat \<Rightarrow> resolved_node list \<Rightarrow> (string \<times> string list) list" where
  "level_groups levels i nodes =
     fold (\<lambda>node groups.
       let parent = vl_value (levels ! i) node
       in if parent = [] then groups
          else if i = 0 then map_put parent (entry groups parent @ [rn_Name node]) groups
          else let child = vl_value (levels ! (i - 1)) node
               in if child = [] then groups
                  else map_put parent
                         (appendUnique (entry groups parent) (hyperNodeName (vl_name (levels ! (i - 1))) child))
                         groups)
       nodes []"

definition VolcanoHyperNodes :: "resolved \<Rightarrow> hyper_node list" where
  "VolcanoHyperNodes r =
     (let levels = volcanoLevels r
      in if levels = [] then []
         else concat (map (\<lambda>i.
           let groups = level_groups levels i (rs_Nodes r);
               memberType = (if i = 0 then memberTypeNode else memberTypeHyperNode)
           in map (\<lambda>name. hyperNode (vl_name (levels ! i)) name (int i + 1) memberType (entry groups name))
                (sortedKeys groups)) [0..<length levels]))"

subsection \<open>The groups\<close>

lemma set_sortedKeys [simp]: "set (sortedKeys m) = fst ` set m"
  by (simp add: sortedKeys_def)

lemma volcanoLevels_nonempty [simp]: "volcanoLevels r \<noteq> []"
  by (simp add: volcanoLevels_def)

definition group_step :: "volcano_level list \<Rightarrow> nat \<Rightarrow> resolved_node \<Rightarrow> string list option \<Rightarrow> string list" where
  "group_step levels i node e =
     (let xs = (case e of None \<Rightarrow> [] | Some l \<Rightarrow> l)
      in if i = 0 then xs @ [rn_Name node]
         else appendUnique xs (hyperNodeName (vl_name (levels ! (i - 1))) (vl_value (levels ! (i - 1)) node)))"

text \<open>Where no node lacks a level, the loop is the plain grouping loop of the prelude.\<close>

lemma level_groups_eq:
  assumes "\<forall>x\<in>set nodes. vl_value (levels ! i) x \<noteq> [] \<and> vl_value (levels ! (i - 1)) x \<noteq> []"
  shows "level_groups levels i nodes =
    fold (\<lambda>x m. map_put (vl_value (levels ! i) x) (group_step levels i x (map_get m (vl_value (levels ! i) x))) m) nodes []"
  unfolding level_groups_def using assms
  by (intro fold_cong refl ext) (auto simp: group_step_def entry_def Let_def)

lemma fold_group_step:
  "fold (\<lambda>x e. Some (group_step levels i x e)) xs (Some acc) = Some ys \<Longrightarrow>
   set ys = set acc \<union> (if i = 0 then rn_Name ` set xs
     else (\<lambda>x. hyperNodeName (vl_name (levels ! (i - 1))) (vl_value (levels ! (i - 1)) x)) ` set xs)"
  by (induction xs arbitrary: acc) (auto simp: group_step_def appendUnique_def Let_def split: if_splits)

lemma fold_Some: "\<exists>ys. fold (\<lambda>x e. Some (f x e)) xs (Some a) = Some ys"
  by (induction xs arbitrary: a) auto

lemma group_members:
  assumes "\<forall>x\<in>set nodes. vl_value (levels ! i) x \<noteq> [] \<and> vl_value (levels ! (i - 1)) x \<noteq> []"
  shows "set (entry (level_groups levels i nodes) v) =
      (if i = 0 then rn_Name ` {x\<in>set nodes. vl_value (levels ! i) x = v}
       else (\<lambda>x. hyperNodeName (vl_name (levels ! (i - 1))) (vl_value (levels ! (i - 1)) x)) `
              {x\<in>set nodes. vl_value (levels ! i) x = v})"
    and "fst ` set (level_groups levels i nodes) = vl_value (levels ! i) ` set nodes"
    and "distinct (map fst (level_groups levels i nodes))"
proof -
  let ?xs = "filter (\<lambda>x. vl_value (levels ! i) x = v) nodes"
  note eq = level_groups_eq [OF assms]
  have inv: "distinct (map fst [])" by simp
  have get: "map_get (level_groups levels i nodes) v = fold (\<lambda>x e. Some (group_step levels i x e)) ?xs None"
    unfolding eq by (simp add: gm.get_group)
  show "set (entry (level_groups levels i nodes) v) =
      (if i = 0 then rn_Name ` {x\<in>set nodes. vl_value (levels ! i) x = v}
       else (\<lambda>x. hyperNodeName (vl_name (levels ! (i - 1))) (vl_value (levels ! (i - 1)) x)) `
              {x\<in>set nodes. vl_value (levels ! i) x = v})"
  proof (cases ?xs)
    case Nil
    then show ?thesis by (simp add: entry_def get) (auto simp: filter_empty_conv)
  next
    case (Cons x xs)
    have all: "set ?xs = {x\<in>set nodes. vl_value (levels ! i) x = v}" by auto
    obtain ys where "fold (\<lambda>x e. Some (group_step levels i x e)) xs (Some (group_step levels i x None)) = Some ys"
      using fold_Some [of "group_step levels i"] by blast
    with fold_group_step [OF this] show ?thesis
      unfolding all [symmetric] get Cons entry_def
      by (simp add: group_step_def appendUnique_def)
  qed
  have "dom (map_get (level_groups levels i nodes)) = vl_value (levels ! i) ` set nodes"
    unfolding eq by (subst gm.dom_group) auto
  then show "fst ` set (level_groups levels i nodes) = vl_value (levels ! i) ` set nodes"
    by (simp add: dom_map_of_conv_image_fst)
  show "distinct (map fst (level_groups levels i nodes))"
    unfolding eq by (rule gm.invar_group) simp
qed

subsection \<open>The tree\<close>

text \<open>The nodes a HyperNode stands for, following its members down to the lowest tier.\<close>

inductive under :: "hyper_node list \<Rightarrow> hyper_node \<Rightarrow> string \<Rightarrow> bool" for hs where
  under_node: "h \<in> set hs \<Longrightarrow> m \<in> set (hn_Members h) \<Longrightarrow> hm_Type m = memberTypeNode \<Longrightarrow>
    hm_Name m = n \<Longrightarrow> under hs h n"
| under_group: "h \<in> set hs \<Longrightarrow> m \<in> set (hn_Members h) \<Longrightarrow> hm_Type m = memberTypeHyperNode \<Longrightarrow>
    c \<in> set hs \<Longrightarrow> hn_Name c = hm_Name m \<Longrightarrow> under hs c n \<Longrightarrow> under hs h n"

inductive_cases under_cases: "under hs h n"

text \<open>The HyperNode of a level and value.\<close>

definition group_node :: "resolved \<Rightarrow> nat \<Rightarrow> string \<Rightarrow> hyper_node" where
  "group_node r i v =
     hyperNode (vl_name (volcanoLevels r ! i)) v (int i + 1)
       (if i = 0 then memberTypeNode else memberTypeHyperNode)
       (entry (level_groups (volcanoLevels r) i (rs_Nodes r)) v)"

abbreviation level_of :: "resolved \<Rightarrow> nat \<Rightarrow> resolved_node \<Rightarrow> string" where
  "level_of r i x \<equiv> vl_value (volcanoLevels r ! i) x"

definition levels_named :: "resolved \<Rightarrow> bool" where
  "levels_named r \<longleftrightarrow> (\<forall>l\<in>set (volcanoLevels r). \<forall>x\<in>set (rs_Nodes r). vl_value l x \<noteq> [])"

text \<open>Each level groups whole groups of the level below.\<close>

definition levels_nest :: "resolved \<Rightarrow> bool" where
  "levels_nest r \<longleftrightarrow> (\<forall>i. Suc i < length (volcanoLevels r) \<longrightarrow>
     (\<forall>x\<in>set (rs_Nodes r). \<forall>y\<in>set (rs_Nodes r).
        level_of r i x = level_of r i y \<longrightarrow> level_of r (Suc i) x = level_of r (Suc i) y))"

lemma volcano_level_names:
  "distinct (map vl_name (volcanoLevels r))"
  "l \<in> set (volcanoLevels r) \<Longrightarrow> vl_name l \<in> {''host'', ''nvlink-domain'', ''rack'', ''fault-domain''}"
  by (auto simp: volcanoLevels_def split: if_splits)

lemma hyperNodeName_inject:
  assumes "a \<in> {''host'', ''nvlink-domain'', ''rack'', ''fault-domain''}"
    and "b \<in> {''host'', ''nvlink-domain'', ''rack'', ''fault-domain''}"
  shows "hyperNodeName a v = hyperNodeName b w \<longleftrightarrow> a = b \<and> v = w"
  using assms by (auto simp: hyperNodeName_def)

lemma hyperNodeName_levels:
  assumes "i < length (volcanoLevels r)" "j < length (volcanoLevels r)"
  shows "hyperNodeName (vl_name (volcanoLevels r ! i)) v = hyperNodeName (vl_name (volcanoLevels r ! j)) w \<longleftrightarrow>
         i = j \<and> v = w"
proof -
  have "vl_name (volcanoLevels r ! i) = vl_name (volcanoLevels r ! j) \<longleftrightarrow> i = j"
    using nth_eq_iff_index_eq [OF volcano_level_names(1) [of r], of i j] assms by simp
  then show ?thesis
    using hyperNodeName_inject [OF volcano_level_names(2) volcano_level_names(2)] assms nth_mem by metis
qed

lemma group_node_sel [simp]:
  "hn_Name (group_node r i v) = hyperNodeName (vl_name (volcanoLevels r ! i)) v"
  "hn_Tier (group_node r i v) = int i + 1" "hn_TierName (group_node r i v) = vl_name (volcanoLevels r ! i)"
  "hn_Labels (group_node r i v) = [(LabelManagedBy, ManagedByValue)]"
  by (simp_all add: group_node_def hyperNode_def)

lemma named_levels:
  assumes "levels_named r" "i < length (volcanoLevels r)"
  shows "\<forall>x\<in>set (rs_Nodes r). level_of r i x \<noteq> [] \<and> level_of r (i - 1) x \<noteq> []"
  using assms by (auto simp: levels_named_def)

lemma group_node_members:
  assumes "levels_named r" "i < length (volcanoLevels r)"
  shows "set (hn_Members (group_node r i v)) =
    (if i = 0 then (\<lambda>x. \<lparr>hm_Type = memberTypeNode, hm_Name = rn_Name x\<rparr>) ` {x\<in>set (rs_Nodes r). level_of r i x = v}
     else (\<lambda>x. \<lparr>hm_Type = memberTypeHyperNode,
            hm_Name = hyperNodeName (vl_name (volcanoLevels r ! (i - 1))) (level_of r (i - 1) x)\<rparr>) `
          {x\<in>set (rs_Nodes r). level_of r i x = v})"
  using group_members(1) [OF named_levels [OF assms], of v]
  by (simp add: group_node_def hyperNode_def image_image)

lemma set_VolcanoHyperNodes:
  assumes "levels_named r"
  shows "set (VolcanoHyperNodes r) =
         {group_node r i v | i v. i < length (volcanoLevels r) \<and> v \<in> level_of r i ` set (rs_Nodes r)}"
proof -
  have "VolcanoHyperNodes r = concat (map (\<lambda>i. map (group_node r i)
      (sortedKeys (level_groups (volcanoLevels r) i (rs_Nodes r)))) [0..<length (volcanoLevels r)])"
    by (simp add: VolcanoHyperNodes_def Let_def group_node_def [abs_def])
  moreover have "set (sortedKeys (level_groups (volcanoLevels r) i (rs_Nodes r))) = level_of r i ` set (rs_Nodes r)"
    if "i < length (volcanoLevels r)" for i
    using group_members(2) [OF named_levels [OF assms that]] by (simp add: set_sortedKeys)
  ultimately have "set (VolcanoHyperNodes r) =
      (\<Union>i\<in>{..<length (volcanoLevels r)}. group_node r i ` level_of r i ` set (rs_Nodes r))"
    by (auto simp del: set_sortedKeys)
  then show ?thesis by blast
qed

lemma group_node_mem:
  "levels_named r \<Longrightarrow> i < length (volcanoLevels r) \<Longrightarrow> v \<in> level_of r i ` set (rs_Nodes r) \<Longrightarrow>
   group_node r i v \<in> set (VolcanoHyperNodes r)"
  unfolding set_VolcanoHyperNodes by blast

lemma distinct_hyper_names:
  assumes "levels_named r"
  shows "distinct (map hn_Name (VolcanoHyperNodes r))"
proof -
  let ?keys = "\<lambda>i. sortedKeys (level_groups (volcanoLevels r) i (rs_Nodes r))"
  have eq: "map hn_Name (VolcanoHyperNodes r) =
      concat (map (\<lambda>i. map (hyperNodeName (vl_name (volcanoLevels r ! i))) (?keys i)) [0..<length (volcanoLevels r)])"
    by (simp add: VolcanoHyperNodes_def Let_def map_concat comp_def hyperNode_def)
  have keys: "distinct (?keys i)" if "i < length (volcanoLevels r)" for i
    using group_members(3) [OF named_levels [OF assms that]] by (simp add: sortedKeys_def)
  have "distinct (concat (map (\<lambda>i. map (hyperNodeName (vl_name (volcanoLevels r ! i))) (?keys i)) is))"
    if "distinct is" "set is \<subseteq> {..<length (volcanoLevels r)}" for "is"
    using that
    by (induction "is") (auto simp: distinct_map keys hyperNodeName_levels inj_on_def)
  then show ?thesis unfolding eq by (auto simp: atLeast0LessThan)
qed

lemma under_group_node:
  assumes "levels_named r" "levels_nest r" "i < length (volcanoLevels r)" "v \<in> level_of r i ` set (rs_Nodes r)"
  shows "under (VolcanoHyperNodes r) (group_node r i v) n \<longleftrightarrow>
         (\<exists>x\<in>set (rs_Nodes r). rn_Name x = n \<and> level_of r i x = v)"
  using assms(3,4)
proof (induction i arbitrary: v)
  case 0
  have mem: "group_node r 0 v \<in> set (VolcanoHyperNodes r)"
    by (rule group_node_mem [OF assms(1) 0])
  note members = group_node_members [OF assms(1) 0(1), of v]
  show ?case
  proof
    assume "under (VolcanoHyperNodes r) (group_node r 0 v) n"
    then show "\<exists>x\<in>set (rs_Nodes r). rn_Name x = n \<and> level_of r 0 x = v"
      by cases (auto simp: members memberTypeNode_def memberTypeHyperNode_def)
  next
    assume "\<exists>x\<in>set (rs_Nodes r). rn_Name x = n \<and> level_of r 0 x = v"
    then obtain x where x: "x \<in> set (rs_Nodes r)" "rn_Name x = n" "level_of r 0 x = v" by blast
    show "under (VolcanoHyperNodes r) (group_node r 0 v) n"
      by (rule under_node [OF mem, of "\<lparr>hm_Type = memberTypeNode, hm_Name = n\<rparr>"]) (use x in \<open>auto simp: members\<close>)
  qed
next
  case (Suc i)
  have i: "i < length (volcanoLevels r)" using Suc.prems by simp
  have mem: "group_node r (Suc i) v \<in> set (VolcanoHyperNodes r)"
    by (rule group_node_mem [OF assms(1) Suc.prems])
  note members = group_node_members [OF assms(1) Suc.prems(1), of v]
  have nest: "level_of r (Suc i) x = level_of r (Suc i) y"
    if "x \<in> set (rs_Nodes r)" "y \<in> set (rs_Nodes r)" "level_of r i x = level_of r i y" for x y
    using assms(2) Suc.prems(1) that unfolding levels_nest_def by blast
  show ?case
  proof
    assume "under (VolcanoHyperNodes r) (group_node r (Suc i) v) n"
    then show "\<exists>x\<in>set (rs_Nodes r). rn_Name x = n \<and> level_of r (Suc i) x = v"
    proof cases
      case (under_node m)
      then show ?thesis by (auto simp: members memberTypeNode_def memberTypeHyperNode_def)
    next
      case (under_group m c)
      then obtain y where y: "y \<in> set (rs_Nodes r)" "level_of r (Suc i) y = v"
        "hn_Name c = hyperNodeName (vl_name (volcanoLevels r ! i)) (level_of r i y)"
        by (auto simp: members)
      obtain j w where c: "c = group_node r j w" "j < length (volcanoLevels r)"
        using under_group by (auto simp: set_VolcanoHyperNodes [OF assms(1)])
      have "c = group_node r i (level_of r i y)"
        using y(3) hyperNodeName_levels [OF c(2) i] by (simp add: c(1))
      then obtain x where "x \<in> set (rs_Nodes r)" "rn_Name x = n" "level_of r i x = level_of r i y"
        using Suc.IH [OF i, of "level_of r i y"] under_group y(1) by auto
      with nest y show ?thesis by blast
    qed
  next
    assume "\<exists>x\<in>set (rs_Nodes r). rn_Name x = n \<and> level_of r (Suc i) x = v"
    then obtain x where x: "x \<in> set (rs_Nodes r)" "rn_Name x = n" "level_of r (Suc i) x = v" by blast
    show "under (VolcanoHyperNodes r) (group_node r (Suc i) v) n"
    proof (rule under_group [OF mem, of "\<lparr>hm_Type = memberTypeHyperNode,
          hm_Name = hyperNodeName (vl_name (volcanoLevels r ! i)) (level_of r i x)\<rparr>" "group_node r i (level_of r i x)"])
      show "group_node r i (level_of r i x) \<in> set (VolcanoHyperNodes r)"
        using x(1) by (intro group_node_mem [OF assms(1) i] imageI)
      show "under (VolcanoHyperNodes r) (group_node r i (level_of r i x)) n"
        using Suc.IH [OF i, of "level_of r i x"] x(1,2) by blast
    qed (use x in \<open>auto simp: members\<close>)
  qed
qed

subsection \<open>Properties\<close>

lemma resolved_levels_named:
  "topology_wf ct \<Longrightarrow> levels_named (resolved_view uuid prof ct)"
  unfolding levels_named_def
  by (auto simp: volcanoLevels_def resolved_names_nonempty allNodesHaveNVLink_def list_all_iff split: if_splits)

lemma resolved_same_domain:
  assumes "topology_wf ct" "domains_separate ct" "x \<in> set (placed ct)" "y \<in> set (placed ct)"
    and "node_domain ct x = node_domain ct y" "node_domain ct x \<noteq> []"
  shows "fst x = fst y"
proof -
  have "x \<in> {z\<in>set (placed ct). node_domain ct z = node_domain ct y}" using assms(3,5) by simp
  then show ?thesis
    using domain_members [OF assms(1,2,4)] assms(5,6) by (auto split: if_splits)
qed

lemma resolved_levels_nest:
  assumes wf: "topology_wf ct" and sep: "domains_separate ct"
  shows "levels_nest (resolved_view uuid prof ct)"
proof -
  let ?r = "resolved_view uuid prof ct" and ?view = "\<lambda>p. node_view uuid prof ct (fst p) (snd p)"
  have host: "p = q" if "p \<in> set (placed ct)" "q \<in> set (placed ct)" "rn_Name (?view p) = rn_Name (?view q)" for p q
    using placed_name_inject [OF wf that(1,2)] that(3) by simp
  have racks: "distinct (map rk_Name (racks ct))" using wf by (simp add: topology_wf_def)
  have rack: "rn_FaultDomain (?view p) = rn_FaultDomain (?view q)"
    if "p \<in> set (placed ct)" "q \<in> set (placed ct)" "rn_Rack (?view p) = rn_Rack (?view q)" for p q
  proof -
    have "fst p = fst q"
      using that(3) inj_onD [OF conjunct2 [OF iffD1 [OF distinct_map racks]], of "fst p" "fst q"]
        placed_wf(4) [OF wf that(1)] placed_wf(4) [OF wf that(2)] by simp
    then show ?thesis by simp
  qed
  have domain: "rn_Rack (?view p) = rn_Rack (?view q)"
    if "p \<in> set (placed ct)" "q \<in> set (placed ct)" "rn_NVLinkDomain (?view p) = rn_NVLinkDomain (?view q)"
      "rn_NVLinkDomain (?view p) \<noteq> []" for p q
    using resolved_same_domain [OF wf sep that(1,2)] that(3,4) by simp
  have views: "levels_nest ?r"
    if step: "\<And>i p q. Suc i < length (volcanoLevels ?r) \<Longrightarrow> p \<in> set (placed ct) \<Longrightarrow> q \<in> set (placed ct) \<Longrightarrow>
      level_of ?r i (?view p) = level_of ?r i (?view q) \<Longrightarrow>
      level_of ?r (Suc i) (?view p) = level_of ?r (Suc i) (?view q)"
    unfolding levels_nest_def
  proof (intro allI impI ballI)
    fix i x y
    assume i: "Suc i < length (volcanoLevels ?r)" and xy: "level_of ?r i x = level_of ?r i y"
      and "x \<in> set (rs_Nodes ?r)" "y \<in> set (rs_Nodes ?r)"
    then obtain p q where "p \<in> set (placed ct)" "x = ?view p" "q \<in> set (placed ct)" "y = ?view q"
      unfolding resolved_nodes by (auto simp: split_beta)
    with step [OF i, of p q] xy show "level_of ?r (Suc i) x = level_of ?r (Suc i) y" by simp
  qed
  show ?thesis
  proof (cases "allNodesHaveNVLink ?r")
    case True
    then have ne: "rn_NVLinkDomain (?view p) \<noteq> []" if "p \<in> set (placed ct)" for p
      using that by (force simp: allNodesHaveNVLink_def list_all_iff resolved_nodes split_beta)
    have step: "level_of ?r (Suc i) (?view p) = level_of ?r (Suc i) (?view q)"
      if "Suc i < length (volcanoLevels ?r)" "p \<in> set (placed ct)" "q \<in> set (placed ct)"
        "level_of ?r i (?view p) = level_of ?r i (?view q)" for i p q
    proof -
      have "length (volcanoLevels ?r) = 4" using True by (simp add: volcanoLevels_def)
      with that(1) consider "i = 0" | "i = 1" | "i = 2" by linarith
      then show ?thesis
      proof cases
        case 1
        then have "p = q" using that(4) by (intro host [OF that(2,3)]) (simp add: volcanoLevels_def)
        then show ?thesis by simp
      next
        case 2
        then show ?thesis using that(4) domain [OF that(2,3) _ ne [OF that(2)]] True by (simp add: volcanoLevels_def)
      next
        case 3
        then show ?thesis using that(4) rack [OF that(2,3)] True by (simp add: volcanoLevels_def)
      qed
    qed
    then show ?thesis by (rule views)
  next
    case False
    have step: "level_of ?r (Suc i) (?view p) = level_of ?r (Suc i) (?view q)"
      if "Suc i < length (volcanoLevels ?r)" "p \<in> set (placed ct)" "q \<in> set (placed ct)"
        "level_of ?r i (?view p) = level_of ?r i (?view q)" for i p q
    proof -
      have "length (volcanoLevels ?r) = 3" using False by (simp add: volcanoLevels_def)
      with that(1) consider "i = 0" | "i = 1" by linarith
      then show ?thesis
      proof cases
        case 1
        then have "p = q" using that(4) by (intro host [OF that(2,3)]) (simp add: volcanoLevels_def)
        then show ?thesis by simp
      next
        case 2
        then show ?thesis using that(4) rack [OF that(2,3)] False by (simp add: volcanoLevels_def)
      qed
    qed
    then show ?thesis by (rule views)
  qed
qed

lemma level_label:
  assumes "i < length (volcanoLevels r)" "levels_named r" "x \<in> set (rs_Nodes r)"
  shows "\<exists>label. LabelForLevel (vl_name (volcanoLevels r ! i)) = Some label \<and>
     map_get (kn_Labels (node_object x t)) label = Some (level_of r i x)"
proof -
  have "volcanoLevels r ! i \<in> set (volcanoLevels r)" using assms(1) by simp
  moreover have "level_of r i x \<noteq> []" using assms by (auto simp: levels_named_def)
  ultimately show ?thesis
    by (auto simp: volcanoLevels_def LabelForLevel_def levelLabels_def node_labels split: if_splits)
qed

text \<open>
  C21. Volcano's tree and the node labels describe the same machine: for a valid topology whose
  NVLink domains do not collide, HyperNode names are distinct, and a node lies under a
  HyperNode of some level exactly when it carries, as its label for that level, the value the
  HyperNode stands for. So a scenario's placement level means the same group of nodes to
  Volcano as to a scheduler that reads labels.
\<close>

theorem Volcano_tree_matches_labels:
  assumes "Validate ct = []" "loads load prof ct" "domains_separate ct"
    and "Resolve uuid load ct = Some (Inr r)"
  shows "distinct (map hn_Name (VolcanoHyperNodes r)) \<and>
     (\<forall>h\<in>set (VolcanoHyperNodes r). \<exists>v label.
        hn_TierName h \<in> set (VolcanoTierNames r) \<and> hn_Name h = hyperNodeName (hn_TierName h) v \<and>
        LabelForLevel (hn_TierName h) = Some label \<and>
        (\<forall>n\<in>set (Nodes r). under (VolcanoHyperNodes r) h (kn_Name n) \<longleftrightarrow> map_get (kn_Labels n) label = Some v)) \<and>
     (\<forall>n\<in>set (Nodes r). \<forall>l\<in>set (VolcanoTierNames r). \<exists>h\<in>set (VolcanoHyperNodes r).
        hn_TierName h = l \<and> under (VolcanoHyperNodes r) h (kn_Name n))"
proof -
  have wf: "topology_wf ct" using assms(1) by (simp add: Validate_wf)
  have r: "r = resolved_view uuid prof ct" using Resolve_eq [OF wf assms(2)] assms(4) by simp
  have named: "levels_named r" unfolding r by (rule resolved_levels_named [OF wf])
  have nest: "levels_nest r" unfolding r by (rule resolved_levels_nest [OF wf assms(3)])
  let ?hs = "VolcanoHyperNodes r" and ?k = "length (volcanoLevels r)"
  have names: "distinct (map rn_Name (rs_Nodes r))"
    using distinct_placed_names [OF wf] by (simp add: r resolved_nodes comp_def split_beta)
  have same: "x = y" if "x \<in> set (rs_Nodes r)" "y \<in> set (rs_Nodes r)" "rn_Name x = rn_Name y" for x y
    using inj_onD [OF conjunct2 [OF iffD1 [OF distinct_map names]] that(3,1,2)] .
  have under: "under ?hs (group_node r i v) (rn_Name x) \<longleftrightarrow> level_of r i x = v"
    if "i < ?k" "v \<in> level_of r i ` set (rs_Nodes r)" "x \<in> set (rs_Nodes r)" for i v x
    using under_group_node [OF named nest that(1,2), of "rn_Name x"] same that(3) by auto
  have all: "\<exists>v label. hn_TierName h \<in> set (VolcanoTierNames r) \<and> hn_Name h = hyperNodeName (hn_TierName h) v \<and>
        LabelForLevel (hn_TierName h) = Some label \<and>
        (\<forall>n\<in>set (Nodes r). under ?hs h (kn_Name n) \<longleftrightarrow> map_get (kn_Labels n) label = Some v)"
    if h: "h \<in> set ?hs" for h
  proof -
    obtain i v where i: "i < ?k" "v \<in> level_of r i ` set (rs_Nodes r)" and h: "h = group_node r i v"
      using h by (auto simp: set_VolcanoHyperNodes [OF named])
    then obtain y where "y \<in> set (rs_Nodes r)" by auto
    then obtain label where label: "LabelForLevel (vl_name (volcanoLevels r ! i)) = Some label"
      using level_label [OF i(1) named] by blast
    have "under ?hs h (kn_Name n) \<longleftrightarrow> map_get (kn_Labels n) label = Some v" if n: "n \<in> set (Nodes r)" for n
    proof -
      obtain x where x: "x \<in> set (rs_Nodes r)" "n = node_object x (rs_Name r)" using n by (auto simp: Nodes_def)
      then have "map_get (kn_Labels n) label = Some (level_of r i x)"
        using level_label [OF i(1) named x(1), of "rs_Name r"] label by auto
      then show ?thesis using under [OF i x(1)] by (simp add: h x(2) node_labels)
    qed
    moreover have "vl_name (volcanoLevels r ! i) \<in> set (VolcanoTierNames r)"
      using i(1) by (simp add: VolcanoTierNames_def)
    ultimately show ?thesis using label by (auto simp: h)
  qed
  have cover: "\<exists>h\<in>set ?hs. hn_TierName h = l \<and> under ?hs h (kn_Name n)"
    if n: "n \<in> set (Nodes r)" and l: "l \<in> set (VolcanoTierNames r)" for n l
  proof -
    obtain x where x: "x \<in> set (rs_Nodes r)" "n = node_object x (rs_Name r)" using n by (auto simp: Nodes_def)
    obtain i where i: "i < ?k" "l = vl_name (volcanoLevels r ! i)"
      using l by (auto simp: VolcanoTierNames_def in_set_conv_nth)
    have v: "level_of r i x \<in> level_of r i ` set (rs_Nodes r)" using x(1) by simp
    show ?thesis
      using under [OF i(1) v x(1)]
      by (intro bexI [OF _ group_node_mem [OF named i(1) v]]) (simp add: i x node_labels)
  qed
  show ?thesis using distinct_hyper_names [OF named] all cover by blast
qed

theorem Volcano_tree_matches_labels_witness:
  "\<exists>r. Resolve (\<lambda>s. s) (\<lambda>_. Inr sample_profile) (demo_topology ''nvl'' []) = Some (Inr r) \<and>
     set (VolcanoTierNames r) = {''host'', ''nvlink-domain'', ''rack'', ''fault-domain''} \<and>
     (\<forall>n\<in>set (Nodes r). \<exists>h\<in>set (VolcanoHyperNodes r).
        hn_TierName h = ''rack'' \<and> under (VolcanoHyperNodes r) h (kn_Name n))"
proof -
  let ?ct = "demo_topology ''nvl'' []"
  let ?r = "resolved_view (\<lambda>s. s) (\<lambda>_. sample_profile) ?ct"
  have v: "Validate ?ct = []" using demo_wf by (simp add: Validate_wf)
  have s: "domains_separate ?ct"
    by (simp add: domains_separate_def demo_topology_def all_nodes_def)
  have res: "Resolve (\<lambda>s. s) (\<lambda>_. Inr sample_profile) ?ct = Some (Inr ?r)"
    by (rule Resolve_eq [OF demo_wf demo_loads])
  have "allNodesHaveNVLink ?r"
    by (simp add: allNodesHaveNVLink_def resolved_nodes placed_def demo_topology_def nvlinkFor_def
        pool_of_def demo_pool_def NVLinkFullMesh_def NVLinkNone_def)
  then have "set (VolcanoTierNames ?r) = {''host'', ''nvlink-domain'', ''rack'', ''fault-domain''}"
    by (simp add: VolcanoTierNames_def volcanoLevels_def)
  note this and Volcano_tree_matches_labels [OF v demo_loads s res, THEN conjunct2, THEN conjunct2]
  then have "\<forall>n\<in>set (Nodes ?r). \<exists>h\<in>set (VolcanoHyperNodes ?r).
      hn_TierName h = ''rack'' \<and> under (VolcanoHyperNodes ?r) h (kn_Name n)" by simp
  with res \<open>set (VolcanoTierNames ?r) = _\<close> show ?thesis by (intro exI [of _ ?r]) simp
qed

end
