(* ===== verification/Scenario.thy ===== *)
theory Scenario
  imports GoPrelude
begin

text \<open>
  internal/scenario/types.go and parse.go: the scenario document, its validation and its
  loading. Durations are nanoseconds. As in the topology, \<open>Validate_scenario\<close> lists every
  problem in the order the code finds them, and a document is accepted when there is none.
\<close>

subsection \<open>The document\<close>

definition APIVersion_scenario :: string where "APIVersion_scenario = ''gpu-sim.io/v1alpha1''"
definition Kind_scenario :: string where "Kind_scenario = ''Scenario''"
definition SchedulerKAI :: string where "SchedulerKAI = ''kai''"
definition SchedulerVolcano :: string where "SchedulerVolcano = ''volcano''"
definition SchedulerDefault :: string where "SchedulerDefault = ''default''"
definition Schedulers :: "string list" where
  "Schedulers = [SchedulerKAI, SchedulerVolcano, SchedulerDefault]"
definition EffectNoExecute :: string where "EffectNoExecute = ''NoExecute''"
definition EffectNoSchedule :: string where "EffectNoSchedule = ''NoSchedule''"
definition ScheduledAll :: string where "ScheduledAll = ''all''"
definition ScheduledNone :: string where "ScheduledNone = ''none''"

lemmas scenario_constants = APIVersion_scenario_def Kind_scenario_def SchedulerKAI_def SchedulerVolcano_def
  SchedulerDefault_def EffectNoExecute_def EffectNoSchedule_def ScheduledAll_def ScheduledNone_def

record degrade =
  dg_Level :: string
  dg_Value :: string
  dg_Devices :: "(string \<times> string) list"
  dg_Effect :: string

record fault =
  ft_Name :: string
  ft_At :: int
  ft_Degrade :: "degrade option"
  ft_KillNode :: string

record placement =
  pl_Required :: string

record workload =
  wl_Name :: string
  wl_Replicas :: int
  wl_GPUs :: int
  wl_Gang :: bool
  wl_Placement :: "placement option"
  wl_MIGProfile :: string
  wl_DeviceSelector :: string
  wl_SubmitAt :: int
  wl_RetireAt :: int

record fragmentation_assertion =
  fa_AtLeast :: "int option"
  fa_AtMost :: "int option"

record assertion =
  as_Name :: string
  as_Workload :: string
  as_Scheduled :: string
  as_ConfinedTo :: string
  as_Running :: "int option"
  as_AllocatedDevices :: "(string \<times> string) list"
  as_Disrupted :: "int option"
  as_RescheduledWithin :: int
  as_Fragmentation :: "fragmentation_assertion option"
  as_UnschedulableReason :: string
  as_Within :: int
  as_Settle :: int

record cluster_ref =
  cr_Topology :: string
  cr_Scheduler :: string

record scenario_spec =
  ps_Cluster :: cluster_ref
  ps_Workloads :: "workload list"
  ps_Faults :: "fault list"
  ps_Assertions :: "assertion list"

record scenario =
  sc_APIVersion :: string
  sc_Kind :: string
  sc_Name :: string
  sc_Description :: string
  sc_Spec :: scenario_spec

definition TaintEffect :: "degrade \<Rightarrow> string" where
  "TaintEffect d = (if dg_Effect d = [] then EffectNoExecute else dg_Effect d)"

subsection \<open>Validation\<close>

text \<open>Where a problem is: an index, or a name once there is one.\<close>

datatype place = At string int | Named string string

datatype scenario_error =
    ScenarioAPIVersion string
  | ScenarioKind string
  | ScenarioNoName
  | ScenarioNoTopology
  | ScenarioNoScheduler
  | ScenarioUnknownScheduler string
  | NoWorkloads
  | NoAssertions
  | WorkloadTwice string
  | FaultTwice string
  | NoNameAt place
  | BadReplicas place int
  | NegativeGPUs place int
  | PlacementNoLevel place
  | NegativeSubmitAt place
  | RetiresTooEarly place int int
  | NamesNoWorkload place
  | UnknownWorkload place string
  | BadScheduled place string
  | UnboundedFragmentation place
  | NoCondition place
  | ManyConditions place int
  | WithinAndSettle place
  | NoFaultDeclared place
  | NoneWithWithin place
  | FiresTooEarly place int
  | DegradeAndKill place
  | NeitherDegradeNorKill place
  | LevelAndDevices place
  | DegradesNothing place
  | LevelWithoutValue place
  | BadEffect place string

definition place_of :: "string \<Rightarrow> int \<Rightarrow> string \<Rightarrow> place \<times> scenario_error list" where
  "place_of kind i name = (if name \<noteq> [] then (Named kind name, []) else (At kind i, [NoNameAt (At kind i)]))"

definition validate_workload :: "int \<Rightarrow> workload \<Rightarrow> scenario_error list" where
  "validate_workload i w =
     (let (at, errs) = place_of ''workload'' i (wl_Name w)
      in errs @
         (if wl_Replicas w \<le> 0 then [BadReplicas at (wl_Replicas w)] else []) @
         (if wl_GPUs w < 0 then [NegativeGPUs at (wl_GPUs w)] else []) @
         (case wl_Placement w of None \<Rightarrow> []
          | Some p \<Rightarrow> if pl_Required p = [] then [PlacementNoLevel at] else []) @
         (if wl_SubmitAt w < 0 then [NegativeSubmitAt at] else []) @
         (if wl_RetireAt w \<noteq> 0 \<and> wl_RetireAt w \<le> wl_SubmitAt w
          then [RetiresTooEarly at (wl_RetireAt w) (wl_SubmitAt w)] else []))"

definition validate_degrade :: "place \<Rightarrow> degrade \<Rightarrow> scenario_error list" where
  "validate_degrade at d =
     (let byLevel = dg_Level d \<noteq> [] \<or> dg_Value d \<noteq> []; byDevices = dg_Devices d \<noteq> []
      in (if byLevel \<and> byDevices then [LevelAndDevices at]
          else if \<not> byLevel \<and> \<not> byDevices then [DegradesNothing at]
          else if byLevel \<and> (dg_Level d = [] \<or> dg_Value d = []) then [LevelWithoutValue at]
          else []) @
         (if dg_Effect d = [] \<or> dg_Effect d = EffectNoExecute \<or> dg_Effect d = EffectNoSchedule then []
          else [BadEffect at (dg_Effect d)]))"

definition validate_fault :: "int \<Rightarrow> fault \<Rightarrow> scenario_error list" where
  "validate_fault i f =
     (let (at, errs) = place_of ''fault'' i (ft_Name f)
      in errs @
         (if ft_At f \<le> 0 then [FiresTooEarly at (ft_At f)] else []) @
         (if ft_Degrade f \<noteq> None \<and> ft_KillNode f \<noteq> [] then [DegradeAndKill at]
          else (case ft_Degrade f of
                  None \<Rightarrow> if ft_KillNode f = [] then [NeitherDegradeNorKill at] else []
                | Some d \<Rightarrow> validate_degrade at d)))"

text \<open>The conditions an assertion sets, in the order the code counts them.\<close>

definition conditions :: "assertion \<Rightarrow> bool list" where
  "conditions a =
     [as_Scheduled a \<noteq> [], as_ConfinedTo a \<noteq> [], as_Running a \<noteq> None, as_AllocatedDevices a \<noteq> [],
      as_UnschedulableReason a \<noteq> [], as_Disrupted a \<noteq> None, as_RescheduledWithin a > 0,
      as_Fragmentation a \<noteq> None]"

definition validate_assertion ::
    "int \<Rightarrow> assertion \<Rightarrow> (string \<times> bool) list \<Rightarrow> bool \<Rightarrow> scenario_error list" where
  "validate_assertion i a workloads hasFaults =
     (let (at, errs) = place_of ''assertion'' i (as_Name a);
          set_count = length (filter id (conditions a))
      in errs @
         (if as_Workload a = [] \<and> as_Fragmentation a = None then [NamesNoWorkload at]
          else if as_Workload a \<noteq> [] \<and> workloads \<noteq> [] \<and> map_get workloads (as_Workload a) \<noteq> Some True
          then [UnknownWorkload at (as_Workload a)] else []) @
         (if as_Scheduled a \<noteq> [] \<and> as_Scheduled a \<noteq> ScheduledAll \<and> as_Scheduled a \<noteq> ScheduledNone \<and>
             atoi (as_Scheduled a) = None then [BadScheduled at (as_Scheduled a)] else []) @
         (case as_Fragmentation a of None \<Rightarrow> []
          | Some f \<Rightarrow> if fa_AtLeast f = None \<and> fa_AtMost f = None then [UnboundedFragmentation at] else []) @
         (if set_count = 1 then [] else if set_count = 0 then [NoCondition at]
          else [ManyConditions at (int set_count)]) @
         (if as_Within a > 0 \<and> as_Settle a > 0 then [WithinAndSettle at] else []) @
         (if (as_Disrupted a \<noteq> None \<or> as_RescheduledWithin a > 0) \<and> \<not> hasFaults
          then [NoFaultDeclared at] else []) @
         (if as_Scheduled a = ScheduledNone \<and> as_Within a > 0 then [NoneWithWithin at] else []))"

fun validate_workloads ::
    "int \<Rightarrow> workload list \<Rightarrow> (string \<times> bool) list \<Rightarrow> scenario_error list \<times> (string \<times> bool) list" where
  "validate_workloads i [] names = ([], names)"
| "validate_workloads i (w # ws) names =
     (let (errs, names') = validate_workloads (i + 1) ws (map_put (wl_Name w) True names)
      in (validate_workload i w @
          (if map_get names (wl_Name w) = Some True then [WorkloadTwice (wl_Name w)] else []) @ errs, names'))"

fun validate_faults :: "int \<Rightarrow> fault list \<Rightarrow> (string \<times> bool) list \<Rightarrow> scenario_error list" where
  "validate_faults i [] faultNames = []"
| "validate_faults i (f # fs) faultNames =
     validate_fault i f @
     (if map_get faultNames (ft_Name f) = Some True then [FaultTwice (ft_Name f)] else []) @
     validate_faults (i + 1) fs (map_put (ft_Name f) True faultNames)"

fun validate_assertions ::
    "int \<Rightarrow> assertion list \<Rightarrow> (string \<times> bool) list \<Rightarrow> bool \<Rightarrow> scenario_error list" where
  "validate_assertions i [] names hasFaults = []"
| "validate_assertions i (a # as) names hasFaults =
     validate_assertion i a names hasFaults @ validate_assertions (i + 1) as names hasFaults"

definition Validate_scenario :: "scenario \<Rightarrow> scenario_error list" where
  "Validate_scenario s =
     (let spec = sc_Spec s; sched = cr_Scheduler (ps_Cluster spec);
          (workloadErrs, names) = validate_workloads 0 (ps_Workloads spec) []
      in (if sc_APIVersion s \<noteq> APIVersion_scenario then [ScenarioAPIVersion (sc_APIVersion s)] else []) @
         (if sc_Kind s \<noteq> Kind_scenario then [ScenarioKind (sc_Kind s)] else []) @
         (if sc_Name s = [] then [ScenarioNoName] else []) @
         (if cr_Topology (ps_Cluster spec) = [] then [ScenarioNoTopology] else []) @
         (if sched = SchedulerKAI \<or> sched = SchedulerVolcano \<or> sched = SchedulerDefault then []
          else if sched = [] then [ScenarioNoScheduler] else [ScenarioUnknownScheduler sched]) @
         (if ps_Workloads spec = [] then [NoWorkloads] else []) @
         (if ps_Assertions spec = [] then [NoAssertions] else []) @
         workloadErrs @
         validate_faults 0 (ps_Faults spec) [] @
         validate_assertions 0 (ps_Assertions spec) names (ps_Faults spec \<noteq> []))"

definition ExpectedScheduled :: "assertion \<Rightarrow> int \<Rightarrow> int option" where
  "ExpectedScheduled a replicas =
     (if as_Scheduled a = ScheduledAll then Some replicas
      else if as_Scheduled a = ScheduledNone then Some 0
      else atoi (as_Scheduled a))"

subsection \<open>Loading\<close>

text \<open>\<open>path/filepath\<close> on Unix: \<open>IsAbs\<close>, \<open>Clean\<close>, \<open>Dir\<close> and \<open>Join\<close> of two elements.\<close>

fun split_on :: "char \<Rightarrow> string \<Rightarrow> string list" where
  "split_on c [] = [[]]"
| "split_on c (x # xs) =
     (if x = c then [] # split_on c xs
      else (case split_on c xs of [] \<Rightarrow> [[x]] | p # ps \<Rightarrow> (x # p) # ps))"

definition path_is_abs :: "string \<Rightarrow> bool" where
  "path_is_abs p \<longleftrightarrow> p \<noteq> [] \<and> hd p = CHR ''/''"

definition clean_step :: "bool \<Rightarrow> string \<Rightarrow> string list \<Rightarrow> string list" where
  "clean_step rooted part stack =
     (if part = [] \<or> part = ''.'' then stack
      else if part = ''..'' then
        (case stack of
           [] \<Rightarrow> if rooted then [] else [''..'']
         | t # rest \<Rightarrow> if t = ''..'' then ''..'' # stack else rest)
      else part # stack)"

definition path_clean :: "string \<Rightarrow> string" where
  "path_clean p =
     (if p = [] then ''.''
      else let rooted = path_is_abs p;
               comps = rev (fold (clean_step rooted) (split_on CHR ''/'' p) []);
               out = (if rooted then ''/'' else []) @ join ''/'' comps
           in if out = [] then ''.'' else out)"

definition path_dir :: "string \<Rightarrow> string" where
  "path_dir p = path_clean (rev (dropWhile (\<lambda>c. c \<noteq> CHR ''/'') (rev p)))"

definition path_join :: "string \<Rightarrow> string \<Rightarrow> string" where
  "path_join a b =
     (if a = [] \<and> b = [] then []
      else if a = [] then path_clean b
      else if b = [] then path_clean a
      else path_clean (a @ ''/'' @ b))"

datatype scenario_load_error =
    ReadingScenario string
  | ParsingScenario string string
  | InvalidScenario string "scenario_error list"

definition resolve_topology_path :: "string \<Rightarrow> scenario \<Rightarrow> scenario" where
  "resolve_topology_path path s =
     (let spec = sc_Spec s; cl = ps_Cluster spec
      in if \<not> path_is_abs (cr_Topology cl) \<and> cr_Topology cl \<noteq> []
         then s\<lparr>sc_Spec := spec\<lparr>ps_Cluster := cl\<lparr>cr_Topology := path_join (path_dir path) (cr_Topology cl)\<rparr>\<rparr>\<rparr>
         else s)"

definition Load_scenario ::
    "(string \<Rightarrow> string + string) \<Rightarrow> (string \<Rightarrow> string + scenario) \<Rightarrow> string \<Rightarrow> scenario_load_error + scenario" where
  "Load_scenario readFile unmarshalStrict path =
     (case readFile path of
        Inl e \<Rightarrow> Inl (ReadingScenario e)
      | Inr data \<Rightarrow>
          (case unmarshalStrict data of
             Inl e \<Rightarrow> Inl (ParsingScenario path e)
           | Inr raw \<Rightarrow>
               (let s = resolve_topology_path path raw
                in if Validate_scenario s \<noteq> [] then Inl (InvalidScenario path (Validate_scenario s)) else Inr s)))"

subsection \<open>What a valid scenario is\<close>

definition workload_wf :: "workload \<Rightarrow> bool" where
  "workload_wf w \<longleftrightarrow> wl_Name w \<noteq> [] \<and> 0 < wl_Replicas w \<and> 0 \<le> wl_GPUs w \<and>
     (\<forall>p. wl_Placement w = Some p \<longrightarrow> pl_Required p \<noteq> []) \<and>
     0 \<le> wl_SubmitAt w \<and> (wl_RetireAt w \<noteq> 0 \<longrightarrow> wl_SubmitAt w < wl_RetireAt w)"

definition degrade_wf :: "degrade \<Rightarrow> bool" where
  "degrade_wf d \<longleftrightarrow>
     (dg_Level d \<noteq> [] \<and> dg_Value d \<noteq> [] \<and> dg_Devices d = [] \<or>
      dg_Level d = [] \<and> dg_Value d = [] \<and> dg_Devices d \<noteq> []) \<and>
     dg_Effect d \<in> {[], EffectNoExecute, EffectNoSchedule}"

definition fault_wf :: "fault \<Rightarrow> bool" where
  "fault_wf f \<longleftrightarrow> ft_Name f \<noteq> [] \<and> 0 < ft_At f \<and>
     (case ft_Degrade f of None \<Rightarrow> ft_KillNode f \<noteq> [] | Some d \<Rightarrow> ft_KillNode f = [] \<and> degrade_wf d)"

definition assertion_wf :: "string set \<Rightarrow> bool \<Rightarrow> assertion \<Rightarrow> bool" where
  "assertion_wf names hasFaults a \<longleftrightarrow> as_Name a \<noteq> [] \<and>
     (if as_Workload a = [] then as_Fragmentation a \<noteq> None else as_Workload a \<in> names) \<and>
     (\<exists>!k. k < length (conditions a) \<and> conditions a ! k) \<and>
     (as_Scheduled a \<noteq> [] \<longrightarrow> (\<forall>n. ExpectedScheduled a n \<noteq> None)) \<and>
     (\<forall>f. as_Fragmentation a = Some f \<longrightarrow> fa_AtLeast f \<noteq> None \<or> fa_AtMost f \<noteq> None) \<and>
     \<not> (as_Within a > 0 \<and> as_Settle a > 0) \<and>
     (as_Disrupted a \<noteq> None \<or> as_RescheduledWithin a > 0 \<longrightarrow> hasFaults) \<and>
     \<not> (as_Scheduled a = ScheduledNone \<and> as_Within a > 0)"

definition scenario_wf :: "scenario \<Rightarrow> bool" where
  "scenario_wf s \<longleftrightarrow>
     (let spec = sc_Spec s; names = set (map wl_Name (ps_Workloads spec))
      in sc_APIVersion s = APIVersion_scenario \<and> sc_Kind s = Kind_scenario \<and> sc_Name s \<noteq> [] \<and>
         cr_Topology (ps_Cluster spec) \<noteq> [] \<and> cr_Scheduler (ps_Cluster spec) \<in> set Schedulers \<and>
         ps_Workloads spec \<noteq> [] \<and> ps_Assertions spec \<noteq> [] \<and>
         list_all workload_wf (ps_Workloads spec) \<and> distinct (map wl_Name (ps_Workloads spec)) \<and>
         list_all fault_wf (ps_Faults spec) \<and> distinct (map ft_Name (ps_Faults spec)) \<and>
         list_all (assertion_wf names (ps_Faults spec \<noteq> [])) (ps_Assertions spec))"

lemma validate_workload_Nil: "validate_workload i w = [] \<longleftrightarrow> workload_wf w"
  by (auto simp: validate_workload_def workload_wf_def place_of_def Let_def split: option.splits if_splits)

lemma validate_degrade_Nil: "validate_degrade at d = [] \<longleftrightarrow> degrade_wf d"
  by (auto simp: validate_degrade_def degrade_wf_def Let_def split: if_splits)

lemma validate_fault_Nil: "validate_fault i f = [] \<longleftrightarrow> fault_wf f"
  by (auto simp: validate_fault_def fault_wf_def place_of_def validate_degrade_Nil split: option.splits if_splits)

lemma singleton_Ex1: "(\<exists>x. Collect P = {x}) \<longleftrightarrow> (\<exists>!k. P k)"
proof
  assume "\<exists>x. Collect P = {x}"
  then obtain x where x: "Collect P = {x}" by blast
  then have "x \<in> Collect P" by (simp only: singletonI)
  then have "P x" by (rule CollectD)
  moreover have "k = x" if "P k" for k
  proof -
    from that have "k \<in> Collect P" by (rule CollectI)
    then show ?thesis by (simp only: x singleton_iff)
  qed
  ultimately show "\<exists>!k. P k" by (rule ex1I)
next
  assume "\<exists>!k. P k"
  then show "\<exists>x. Collect P = {x}"
  proof (rule ex1E)
    fix x
    assume x: "P x" and unique: "\<forall>y. P y \<longrightarrow> y = x"
    have "Collect P = {x}"
    proof (rule equalityI; rule subsetI)
      show "k \<in> {x}" if "k \<in> Collect P" for k
        unfolding singleton_iff by (rule unique [THEN spec, THEN mp, OF CollectD [OF that]])
      show "k \<in> Collect P" if "k \<in> {x}" for k
        using that x by (simp only: singleton_iff mem_Collect_eq)
    qed
    then show "\<exists>x. Collect P = {x}" by (rule exI)
  qed
qed

lemma one_true: "length (filter id bs) = 1 \<longleftrightarrow> (\<exists>!k. k < length bs \<and> bs ! k)"
proof -
  have "length (filter id bs) = card {k. k < length bs \<and> bs ! k}"
    by (simp add: length_filter_conv_card)
  also have "\<dots> = 1 \<longleftrightarrow> (\<exists>!k. k < length bs \<and> bs ! k)"
    by (simp only: One_nat_def card_1_singleton_iff singleton_Ex1)
  finally show ?thesis .
qed

lemma validate_assertion_Nil:
  assumes "names \<noteq> []" "\<And>n. map_get names n = Some True \<longleftrightarrow> n \<in> A"
  shows "validate_assertion i a names hasFaults = [] \<longleftrightarrow> assertion_wf A hasFaults a"
proof -
  have sched: "(as_Scheduled a \<noteq> [] \<longrightarrow> (\<forall>n. ExpectedScheduled a n \<noteq> None)) \<longleftrightarrow>
      \<not> (as_Scheduled a \<noteq> [] \<and> as_Scheduled a \<noteq> ScheduledAll \<and> as_Scheduled a \<noteq> ScheduledNone \<and>
         atoi (as_Scheduled a) = None)"
    by (auto simp: ExpectedScheduled_def)
  have cases: "(if c = 1 then [] else if c = 0 then [x] else [y]) = [] \<longleftrightarrow> c = (1::nat)" for c and x y :: scenario_error
    by simp
  show ?thesis
    unfolding validate_assertion_def assertion_wf_def sched one_true [symmetric]
    using assms by (auto simp: place_of_def Let_def cases split: option.splits)
qed

lemma validate_workloads_names:
  "snd (validate_workloads i ws names) = fold (\<lambda>w. map_put (wl_Name w) True) ws names"
  by (induction i ws names rule: validate_workloads.induct) (auto simp: split_beta Let_def)

lemma names_get:
  "map_get (fold (\<lambda>w. map_put (wl_Name w) True) ws names) n = Some True \<longleftrightarrow>
     n \<in> set (map wl_Name ws) \<or> map_get names n = Some True"
  by (induction ws arbitrary: names) (auto simp: update_conv')

lemma validate_workloads_Nil:
  "fst (validate_workloads i ws names) = [] \<longleftrightarrow>
     list_all workload_wf ws \<and> distinct (map wl_Name ws) \<and>
     (\<forall>n\<in>set (map wl_Name ws). map_get names n \<noteq> Some True)"
proof (induction i ws names rule: validate_workloads.induct)
  case (2 i w ws names)
  then show ?case by (auto simp: split_beta Let_def validate_workload_Nil update_conv' image_iff)
qed simp

lemma validate_faults_Nil:
  "validate_faults i fs names = [] \<longleftrightarrow>
     list_all fault_wf fs \<and> distinct (map ft_Name fs) \<and>
     (\<forall>n\<in>set (map ft_Name fs). map_get names n \<noteq> Some True)"
proof (induction i fs names rule: validate_faults.induct)
  case (2 i f fs names)
  then show ?case by (auto simp: validate_fault_Nil update_conv' image_iff)
qed simp

lemma validate_assertions_Nil:
  "names \<noteq> [] \<Longrightarrow> (\<And>n. map_get names n = Some True \<longleftrightarrow> n \<in> A) \<Longrightarrow>
     validate_assertions i as names hasFaults = [] \<longleftrightarrow> list_all (assertion_wf A hasFaults) as"
  by (induction i as names hasFaults rule: validate_assertions.induct) (auto simp: validate_assertion_Nil)

lemma Validate_scenario_wf: "Validate_scenario s = [] \<longleftrightarrow> scenario_wf s"
proof (cases "ps_Workloads (sc_Spec s) = []")
  case True
  then show ?thesis by (simp add: Validate_scenario_def scenario_wf_def Let_def)
next
  case False
  let ?ws = "ps_Workloads (sc_Spec s)" and ?names = "snd (validate_workloads 0 (ps_Workloads (sc_Spec s)) [])"
  have get: "map_get ?names n = Some True \<longleftrightarrow> n \<in> set (map wl_Name ?ws)" for n
    by (simp add: validate_workloads_names names_get)
  obtain w where "w \<in> set ?ws" using False by (cases ?ws) auto
  then have "map_get ?names (wl_Name w) = Some True" by (simp add: get)
  then have "?names \<noteq> []" by auto
  note assertions = validate_assertions_Nil [OF this get]
  show ?thesis
    using validate_workloads_Nil [of 0 ?ws "[]"] validate_faults_Nil [of 0 "ps_Faults (sc_Spec s)" "[]"]
      assertions [of 0 "ps_Assertions (sc_Spec s)" "ps_Faults (sc_Spec s) \<noteq> []"]
    by (auto simp: Validate_scenario_def scenario_wf_def Let_def split_beta Schedulers_def)
qed

text \<open>
  C13. Scenario validation is exact: it reports no problem if and only if the scenario is well
  formed. In particular an accepted scenario has at least one workload and one assertion,
  names that differ, every assertion sets exactly one condition and refers to a workload that
  exists (or bounds fragmentation), a count that parses, never both waiting modes, and
  something that breaks whenever it asks about a fault.
\<close>

theorem Validate_scenario_iff_wf: "Validate_scenario s = [] \<longleftrightarrow> scenario_wf s"
  by (rule Validate_scenario_wf)

end
