(* ===== verification/Workload.thy ===== *)
theory Workload
  imports Scenario GenerateNodes "HOL-Library.Word"
begin

text \<open>
  internal/workload/translate.go and volcano.go: a workload's intent turned into Kubernetes
  objects for one scheduler. Replica counts of the Kubernetes API are 32-bit words, so the
  conversion from the scenario's count wraps as Go's does.
\<close>

subsection \<open>Constants\<close>

definition gpuDeviceClass :: string where "gpuDeviceClass = ''gpu.nvidia.com''"
definition migDeviceClass :: string where "migDeviceClass = ''mig.nvidia.com''"
definition kwokNodeLabel :: string where "kwokNodeLabel = ''type''"
definition kwokNodeValue :: string where "kwokNodeValue = ''kwok''"
definition kwokTaintKey :: string where "kwokTaintKey = ''kwok.x-k8s.io/node''"
definition workloadImage :: string where "workloadImage = ''ubuntu:24.04''"
definition kaiSchedulerName :: string where "kaiSchedulerName = ''kai-scheduler''"
definition kaiQueueLabel :: string where "kaiQueueLabel = ''kai.scheduler/queue''"
definition kaiDefaultQueue :: string where "kaiDefaultQueue = ''default-queue''"
definition kaiMinMemberAnn :: string where "kaiMinMemberAnn = ''kai.scheduler/batch-min-member''"
definition kaiTopologyAnn :: string where "kaiTopologyAnn = ''kai.scheduler/topology''"
definition kaiRequiredPlaceAn :: string where "kaiRequiredPlaceAn = ''kai.scheduler/topology-required-placement''"
definition LabelWorkload :: string where "LabelWorkload = ''gpu-sim.io/workload''"
definition volcanoSchedulerName :: string where "volcanoSchedulerName = ''volcano''"
definition volcanoDefaultQueue :: string where "volcanoDefaultQueue = ''default''"
definition volcanoGroupAnnotation :: string where "volcanoGroupAnnotation = ''scheduling.k8s.io/group-name''"
definition volcanoPodGroupAPIVersion :: string where "volcanoPodGroupAPIVersion = ''scheduling.volcano.sh/v1beta1''"
definition volcanoPodGroupKind :: string where "volcanoPodGroupKind = ''PodGroup''"
definition volcanoTopologyHard :: string where "volcanoTopologyHard = ''hard''"

lemmas workload_constants = gpuDeviceClass_def migDeviceClass_def kwokNodeLabel_def kwokNodeValue_def
  kwokTaintKey_def workloadImage_def kaiSchedulerName_def kaiQueueLabel_def kaiDefaultQueue_def
  kaiMinMemberAnn_def kaiTopologyAnn_def kaiRequiredPlaceAn_def LabelWorkload_def volcanoSchedulerName_def
  volcanoDefaultQueue_def volcanoGroupAnnotation_def volcanoTopologyHard_def

subsection \<open>Objects\<close>

record unsupported_error =
  ue_Scheduler :: string
  ue_Workload :: string
  ue_Intent :: string
  ue_Why :: string

record device_request =
  dq_Name :: string
  dq_DeviceClassName :: string
  dq_Count :: int
  dq_AllocationMode :: string
  dq_Selectors :: "string list"

record claim_template =
  tm_Name :: string
  tm_Namespace :: string
  tm_Requests :: "device_request list"

record toleration =
  to_Key :: string
  to_Operator :: string
  to_Value :: string
  to_Effect :: string

record container =
  co_Name :: string
  co_Image :: string
  co_Command :: "string list"
  co_Claims :: "string list"

record pod_claim =
  pc_Name :: string
  pc_TemplateName :: string

record pod_spec =
  po_NodeSelector :: "(string \<times> string) list"
  po_Tolerations :: "toleration list"
  po_Containers :: "container list"
  po_SchedulerName :: string
  po_ResourceClaims :: "pod_claim list"
  po_RestartPolicy :: string

record pod_template =
  te_Labels :: "(string \<times> string) list"
  te_Annotations :: "(string \<times> string) list"
  te_Spec :: pod_spec

record job_object =
  jb_Name :: string
  jb_Namespace :: string
  jb_Annotations :: "(string \<times> string) list"
  jb_Parallelism :: "32 word"
  jb_Completions :: "32 word"
  jb_Template :: pod_template

record deployment_object =
  dp_Name :: string
  dp_Namespace :: string
  dp_Replicas :: "32 word"
  dp_Selector :: "(string \<times> string) list"
  dp_Template :: pod_template

record network_topology =
  nt_Mode :: string
  nt_HighestTierName :: string

record volcano_pod_group =
  vg_APIVersion :: string
  vg_Kind :: string
  vg_Name :: string
  vg_Namespace :: string
  vg_MinMember :: "32 word"
  vg_Queue :: string
  vg_NetworkTopology :: "network_topology option"

record objects =
  ob_ClaimTemplate :: "claim_template option"
  ob_Job :: "job_object option"
  ob_Deployment :: "deployment_object option"
  ob_PodGroup :: "volcano_pod_group option"

subsection \<open>Translation\<close>

definition required_level :: "workload \<Rightarrow> string" where
  "required_level w = (case wl_Placement w of None \<Rightarrow> [] | Some p \<Rightarrow> pl_Required p)"

definition checkSupported :: "workload \<Rightarrow> string \<Rightarrow> unsupported_error option" where
  "checkSupported w sched =
     (if sched \<noteq> SchedulerDefault then None
      else if wl_Gang w then Some
        \<lparr>ue_Scheduler = sched, ue_Workload = wl_Name w, ue_Intent = ''gang scheduling'',
         ue_Why = ''the default scheduler places pods one at a time and has no all-or-nothing concept''\<rparr>
      else if required_level w \<noteq> [] then Some
        \<lparr>ue_Scheduler = sched, ue_Workload = wl_Name w, ue_Intent = ''required topology placement'',
         ue_Why = ''the default scheduler can spread across a topology key but cannot confine a workload to one domain''\<rparr>
      else None)"

definition claimTemplateName :: "string \<Rightarrow> string" where
  "claimTemplateName workload = workload @ ''-gpu''"

definition claimTemplate :: "workload \<Rightarrow> string \<Rightarrow> claim_template" where
  "claimTemplate w namespace =
     \<lparr>tm_Name = claimTemplateName (wl_Name w), tm_Namespace = namespace,
      tm_Requests =
        [\<lparr>dq_Name = ''gpu'',
          dq_DeviceClassName = (if wl_MIGProfile w \<noteq> [] then migDeviceClass else gpuDeviceClass),
          dq_Count = wl_GPUs w, dq_AllocationMode = ''ExactCount'',
          dq_Selectors =
            (if wl_MIGProfile w \<noteq> []
             then [''device.attributes['' @ go_quote gpuDeviceClass @ ''].profile == '' @ go_quote (wl_MIGProfile w)]
             else []) @
            (if wl_DeviceSelector w \<noteq> [] then [wl_DeviceSelector w] else [])\<rparr>]\<rparr>"

definition podSpec :: "workload \<Rightarrow> string \<Rightarrow> string \<Rightarrow> pod_spec" where
  "podSpec w sched namespace =
     \<lparr>po_NodeSelector = [(kwokNodeLabel, kwokNodeValue)],
      po_Tolerations = [\<lparr>to_Key = kwokTaintKey, to_Operator = ''Equal'', to_Value = ''fake'', to_Effect = ''NoSchedule''\<rparr>],
      po_Containers =
        [\<lparr>co_Name = ''main'', co_Image = workloadImage, co_Command = [''sleep'', ''infinity''],
          co_Claims = (if wl_GPUs w > 0 then [''gpu''] else [])\<rparr>],
      po_SchedulerName =
        (if sched = SchedulerKAI then kaiSchedulerName
         else if sched = SchedulerVolcano then volcanoSchedulerName else []),
      po_ResourceClaims =
        (if wl_GPUs w > 0 then [\<lparr>pc_Name = ''gpu'', pc_TemplateName = claimTemplateName (wl_Name w)\<rparr>] else []),
      po_RestartPolicy = []\<rparr>"

definition podLabels :: "workload \<Rightarrow> string \<Rightarrow> (string \<times> string) list" where
  "podLabels w sched =
     (LabelWorkload, wl_Name w) # (if sched = SchedulerKAI then [(kaiQueueLabel, kaiDefaultQueue)] else [])"

definition podAnnotations :: "workload \<Rightarrow> string \<Rightarrow> (string \<times> string) list" where
  "podAnnotations w sched = (if sched \<noteq> SchedulerVolcano then [] else [(volcanoGroupAnnotation, wl_Name w)])"

definition int32 :: "int \<Rightarrow> 32 word" where
  "int32 i = word_of_int i"

definition pod_template :: "workload \<Rightarrow> string \<Rightarrow> pod_spec \<Rightarrow> pod_template" where
  "pod_template w sched spec =
     \<lparr>te_Labels = podLabels w sched, te_Annotations = podAnnotations w sched, te_Spec = spec\<rparr>"

definition job :: "workload \<Rightarrow> string \<Rightarrow> string \<Rightarrow> string \<Rightarrow> pod_spec \<Rightarrow> job_object" where
  "job w sched namespace topologyName spec =
     \<lparr>jb_Name = wl_Name w, jb_Namespace = namespace,
      jb_Annotations =
        (if sched = SchedulerKAI then
           (kaiMinMemberAnn, itoa (wl_Replicas w)) #
           (if required_level w \<noteq> []
            then [(kaiTopologyAnn, topologyName), (kaiRequiredPlaceAn, required_level w)] else [])
         else []),
      jb_Parallelism = int32 (wl_Replicas w), jb_Completions = int32 (wl_Replicas w),
      jb_Template = pod_template w sched (spec\<lparr>po_RestartPolicy := ''Never''\<rparr>)\<rparr>"

definition deployment :: "workload \<Rightarrow> string \<Rightarrow> string \<Rightarrow> pod_spec \<Rightarrow> deployment_object" where
  "deployment w sched namespace spec =
     \<lparr>dp_Name = wl_Name w, dp_Namespace = namespace, dp_Replicas = int32 (wl_Replicas w),
      dp_Selector = [(LabelWorkload, wl_Name w)],
      dp_Template = pod_template w sched (spec\<lparr>po_RestartPolicy := ''Always''\<rparr>)\<rparr>"

definition volcanoPodGroup :: "workload \<Rightarrow> volcano_pod_group" where
  "volcanoPodGroup w =
     \<lparr>vg_APIVersion = volcanoPodGroupAPIVersion, vg_Kind = volcanoPodGroupKind, vg_Name = wl_Name w,
      vg_Namespace = [],
      vg_MinMember = (if wl_Gang w then int32 (wl_Replicas w) else 1),
      vg_Queue = volcanoDefaultQueue,
      vg_NetworkTopology =
        (if required_level w \<noteq> []
         then Some \<lparr>nt_Mode = volcanoTopologyHard, nt_HighestTierName = required_level w\<rparr> else None)\<rparr>"

definition Translate :: "workload \<Rightarrow> string \<Rightarrow> string \<Rightarrow> string \<Rightarrow> unsupported_error + objects" where
  "Translate w sched namespace topologyName =
     (case checkSupported w sched of
        Some e \<Rightarrow> Inl e
      | None \<Rightarrow>
          (let spec = podSpec w sched namespace
           in Inr
             \<lparr>ob_ClaimTemplate = (if wl_GPUs w > 0 then Some (claimTemplate w namespace) else None),
              ob_Job = (if wl_Gang w then Some (job w sched namespace topologyName spec) else None),
              ob_Deployment = (if wl_Gang w then None else Some (deployment w sched namespace spec)),
              ob_PodGroup =
                (if sched = SchedulerVolcano
                 then Some ((volcanoPodGroup w)\<lparr>vg_Namespace := namespace\<rparr>) else None)\<rparr>))"

subsection \<open>Properties\<close>

text \<open>The pod template and replica count of whichever controller was built.\<close>

definition controllers :: "objects \<Rightarrow> (pod_template \<times> 32 word) list" where
  "controllers ob =
     (case ob_Job ob of None \<Rightarrow> [] | Some j \<Rightarrow> [(jb_Template j, jb_Parallelism j)]) @
     (case ob_Deployment ob of None \<Rightarrow> [] | Some d \<Rightarrow> [(dp_Template d, dp_Replicas d)])"

text \<open>A workload to translate.\<close>

definition demo_workload :: workload where
  "demo_workload = \<lparr>wl_Name = ''train'', wl_Replicas = 4, wl_GPUs = 2, wl_Gang = True,
     wl_Placement = Some \<lparr>pl_Required = ''rack''\<rparr>, wl_MIGProfile = [], wl_DeviceSelector = [],
     wl_SubmitAt = 0, wl_RetireAt = 0\<rparr>"

lemma sint_int32: "0 \<le> i \<Longrightarrow> i < 2 ^ 32 \<Longrightarrow> sint (int32 i) = i \<longleftrightarrow> i < 2 ^ 31"
proof -
  assume i: "0 \<le> i" "i < 2 ^ 32"
  have "sint (int32 i) = signed_take_bit 31 i" unfolding int32_def sint_sbintrunc' by simp
  moreover have "signed_take_bit 31 i < 2 ^ 31" using signed_take_bit_int_less_exp [of 31 i] by simp
  moreover have "i < 2 ^ 31 \<Longrightarrow> signed_take_bit 31 i = i"
    using i by (intro signed_take_bit_int_eq_self) auto
  ultimately show ?thesis by auto
qed



lemma Translate_ok:
  assumes "Translate w sched ns topo = Inr ob"
  shows "checkSupported w sched = None" and "ob =
      \<lparr>ob_ClaimTemplate = (if wl_GPUs w > 0 then Some (claimTemplate w ns) else None),
       ob_Job = (if wl_Gang w then Some (job w sched ns topo (podSpec w sched ns)) else None),
       ob_Deployment = (if wl_Gang w then None else Some (deployment w sched ns (podSpec w sched ns))),
       ob_PodGroup = (if sched = SchedulerVolcano
          then Some ((volcanoPodGroup w)\<lparr>vg_Namespace := ns\<rparr>) else None)\<rparr>"
proof -
  show ok: "checkSupported w sched = None" using assms by (auto simp: Translate_def split: option.splits)
  then show "ob =
      \<lparr>ob_ClaimTemplate = (if wl_GPUs w > 0 then Some (claimTemplate w ns) else None),
       ob_Job = (if wl_Gang w then Some (job w sched ns topo (podSpec w sched ns)) else None),
       ob_Deployment = (if wl_Gang w then None else Some (deployment w sched ns (podSpec w sched ns))),
       ob_PodGroup = (if sched = SchedulerVolcano
          then Some ((volcanoPodGroup w)\<lparr>vg_Namespace := ns\<rparr>) else None)\<rparr>"
    using assms by (simp add: Translate_def Let_def)
qed

lemma sint_replicas: "0 < i \<Longrightarrow> i < 2 ^ 31 \<Longrightarrow> sint (int32 i) = i"
  by (subst sint_int32) auto



text \<open>The device class as it is quoted in the CEL expression.\<close>

lemma quoted_class: "go_quote ''gpu.nvidia.com'' = ''\"gpu.nvidia.com\"''"
  by (simp add: go_quote_def quote_char_def)

text \<open>
  C14. What was asked for reaches the cluster: a translation of a workload with fewer than
  \<open>2 ^ 31\<close> replicas is one controller of the workload's name and namespace that runs that many
  pods (and, as a Job, waits for that many completions). Its pods carry the workload's label and
  the chosen scheduler's name (none, which is the cluster's default, for the default scheduler),
  and are restricted to simulated nodes: every node that gpu-sim generates meets their selector,
  and each of its taints is tolerated by an \<open>Equal\<close> toleration of that key, value and effect.
  GPUs are claimed exactly when requested: one template the pod refers to, used by the container
  under the claim's name, for exactly the requested count, of the MIG class with a CEL expression
  on the profile when a MIG profile is named and of the GPU class otherwise, with the workload's
  own CEL selector added when it has one. A KAI gang announces its full size and its required level, and a Volcano pod
  names a group of the workload's own namespace with the gang's size and level. (A KAI workload
  that is not a gang loses its required level, as the property on refusals states.)
\<close>

theorem Translate_expresses_intent:
  assumes "0 < wl_Replicas w" "wl_Replicas w < 2 ^ 31" "Translate w sched ns topo = Inr ob"
  shows "length (controllers ob) = 1 \<and> (\<forall>(pod, n)\<in>set (controllers ob).
            sint n = wl_Replicas w \<and>
            map_get (te_Labels pod) LabelWorkload = Some (wl_Name w) \<and>
            po_NodeSelector (te_Spec pod) = [(kwokNodeLabel, kwokNodeValue)] \<and>
            (\<forall>rn t. set (po_NodeSelector (te_Spec pod)) \<subseteq> set (kn_Labels (node_object rn t)) \<and>
               (\<forall>x\<in>set (kn_Taints (node_object rn t)). \<exists>y\<in>set (po_Tolerations (te_Spec pod)).
                  to_Operator y = ''Equal'' \<and> to_Key y = ta_Key x \<and> to_Value y = ta_Value x \<and> to_Effect y = ta_Effect x)) \<and>
            po_SchedulerName (te_Spec pod) =
              (if sched = SchedulerKAI then ''kai-scheduler'' else if sched = SchedulerVolcano then ''volcano'' else []) \<and>
            map_get (te_Labels pod) kaiQueueLabel = (if sched = SchedulerKAI then Some kaiDefaultQueue else None) \<and>
            (sched = SchedulerVolcano \<longrightarrow>
               (\<exists>g. ob_PodGroup ob = Some g \<and> vg_Namespace g = ns \<and>
                  map_get (te_Annotations pod) volcanoGroupAnnotation = Some (vg_Name g) \<and>
                  sint (vg_MinMember g) = (if wl_Gang w then wl_Replicas w else 1) \<and>
                  (required_level w \<noteq> [] \<longrightarrow> map_option nt_HighestTierName (vg_NetworkTopology g) = Some (required_level w)))) \<and>
            (\<exists>c. po_Containers (te_Spec pod) = [c] \<and> co_Claims c = map pc_Name (po_ResourceClaims (te_Spec pod))) \<and>
            (if 0 < wl_GPUs w then
               \<exists>t q. ob_ClaimTemplate ob = Some t \<and> tm_Requests t = [q] \<and> tm_Namespace t = ns \<and>
                 map pc_TemplateName (po_ResourceClaims (te_Spec pod)) = [tm_Name t] \<and>
                 dq_Count q = wl_GPUs w \<and> dq_AllocationMode q = ''ExactCount'' \<and>
                 dq_DeviceClassName q = (if wl_MIGProfile w = [] then ''gpu.nvidia.com'' else ''mig.nvidia.com'') \<and>
                 dq_Selectors q =
                   (if wl_MIGProfile w = [] then []
                    else [''device.attributes[\"gpu.nvidia.com\"].profile == '' @ go_quote (wl_MIGProfile w)]) @
                   (if wl_DeviceSelector w = [] then [] else [wl_DeviceSelector w])
             else ob_ClaimTemplate ob = None \<and> po_ResourceClaims (te_Spec pod) = [])) \<and>
         (\<forall>j. ob_Job ob = Some j \<longrightarrow> jb_Name j = wl_Name w \<and> jb_Namespace j = ns \<and>
            sint (jb_Completions j) = wl_Replicas w \<and> po_RestartPolicy (te_Spec (jb_Template j)) = ''Never'' \<and>
            (sched = SchedulerKAI \<longrightarrow>
               Option.bind (map_get (jb_Annotations j) kaiMinMemberAnn) atoi = Some (wl_Replicas w) \<and>
               (required_level w \<noteq> [] \<longrightarrow>
                  map_get (jb_Annotations j) kaiTopologyAnn = Some topo \<and>
                  map_get (jb_Annotations j) kaiRequiredPlaceAn = Some (required_level w)))) \<and>
         (\<forall>d. ob_Deployment ob = Some d \<longrightarrow> dp_Name d = wl_Name w \<and> dp_Namespace d = ns \<and>
            po_RestartPolicy (te_Spec (dp_Template d)) = ''Always'' \<and>
            (\<forall>(k, v)\<in>set (dp_Selector d). map_get (te_Labels (dp_Template d)) k = Some v))"
proof -
  have n: "sint (int32 (wl_Replicas w)) = wl_Replicas w" by (rule sint_replicas [OF assms(1,2)])
  have "atoi (itoa (wl_Replicas w)) = Some (wl_Replicas w)" using assms(1,2) by (intro atoi_itoa) auto
  then show ?thesis
    unfolding Translate_ok(2) [OF assms(3)]
    by (cases "wl_Gang w")
      (simp_all add: controllers_def job_def deployment_def pod_template_def podSpec_def podLabels_def
        podAnnotations_def volcanoPodGroup_def claimTemplate_def node_object_def label_defs n quoted_class
        workload_constants scenario_constants)
qed

theorem Translate_expresses_intent_witness:
  "\<exists>ob j t. Translate (demo_workload\<lparr>wl_MIGProfile := ''1g.10gb''\<rparr>) SchedulerKAI ''ns'' ''demo'' = Inr ob \<and>
     ob_Job ob = Some j \<and> sint (jb_Completions j) = 4 \<and> map_get (jb_Annotations j) kaiRequiredPlaceAn = Some ''rack'' \<and>
     ob_ClaimTemplate ob = Some t \<and>
     map dq_Selectors (tm_Requests t) = [[''device.attributes[\"gpu.nvidia.com\"].profile == '' @ go_quote ''1g.10gb'']]"
proof -
  let ?w = "demo_workload\<lparr>wl_MIGProfile := ''1g.10gb''\<rparr>"
  have "\<exists>ob j. Translate ?w SchedulerKAI ''ns'' ''demo'' = Inr ob \<and> ob_Job ob = Some j"
    by (simp add: Translate_def checkSupported_def demo_workload_def scenario_constants)
  then obtain ob j where ob: "Translate ?w SchedulerKAI ''ns'' ''demo'' = Inr ob" "ob_Job ob = Some j"
    by blast
  have w: "0 < wl_Replicas ?w" "wl_Replicas ?w < 2 ^ 31" "required_level ?w = ''rack''" "wl_Replicas ?w = 4"
    "0 < wl_GPUs ?w" "wl_MIGProfile ?w = ''1g.10gb''" "wl_DeviceSelector ?w = []"
    by (simp_all add: demo_workload_def required_level_def)
  have "(jb_Template j, jb_Parallelism j) \<in> set (controllers ob)" by (simp add: controllers_def ob(2))
  with Translate_expresses_intent [OF w(1,2) ob(1)] ob w(3-7) show ?thesis by fastforce
qed

text \<open>
  A required placement of a workload that is not a gang is silently dropped on KAI: such a
  workload is accepted and translated to exactly the objects it would have without the
  placement, so nothing confines it.
\<close>

theorem KAI_drops_placement:
  "Translate (w\<lparr>wl_Gang := False, wl_Placement := Some p\<rparr>) SchedulerKAI ns topo =
   Translate (w\<lparr>wl_Gang := False, wl_Placement := None\<rparr>) SchedulerKAI ns topo"
  by (simp add: Translate_def checkSupported_def deployment_def pod_template_def podSpec_def podLabels_def
      podAnnotations_def claimTemplate_def required_level_def scenario_constants)

text \<open>
  Replica counts are truncated to 32 bits: a scenario's count below \<open>2 ^ 32\<close> reaches the
  controller unchanged if and only if it is below \<open>2 ^ 31\<close>, and \<open>2 ^ 32 + 1\<close>, which validation
  accepts, becomes a Job of one pod whose KAI annotation still announces \<open>2 ^ 32 + 1\<close> members.
\<close>

theorem replicas_truncated:
  "(\<forall>sched ns topo w ob. 0 < wl_Replicas w \<and> wl_Replicas w < 2 ^ 32 \<and> Translate w sched ns topo = Inr ob \<longrightarrow>
      (\<forall>(pod, n)\<in>set (controllers ob). sint n = wl_Replicas w \<longleftrightarrow> wl_Replicas w < 2 ^ 31)) \<and>
   workload_wf (demo_workload\<lparr>wl_Replicas := 2 ^ 32 + 1\<rparr>) \<and>
   (\<exists>ob j. Translate (demo_workload\<lparr>wl_Replicas := 2 ^ 32 + 1\<rparr>) SchedulerKAI ''ns'' ''demo'' = Inr ob \<and>
      ob_Job ob = Some j \<and> jb_Parallelism j = 1 \<and>
      map_get (jb_Annotations j) kaiMinMemberAnn = Some (itoa (2 ^ 32 + 1)))"
proof (intro conjI allI impI)
  fix sched ns topo w ob
  assume a: "0 < wl_Replicas w \<and> wl_Replicas w < 2 ^ 32 \<and> Translate w sched ns topo = Inr ob"
  have "\<forall>(pod, n)\<in>set (controllers ob). n = int32 (wl_Replicas w)"
    using a by (auto simp: Translate_def controllers_def Let_def job_def deployment_def split: option.splits if_splits)
  then show "\<forall>(pod, n)\<in>set (controllers ob). sint n = wl_Replicas w \<longleftrightarrow> wl_Replicas w < 2 ^ 31"
    using sint_int32 [of "wl_Replicas w"] a by auto
next
  show "workload_wf (demo_workload\<lparr>wl_Replicas := 2 ^ 32 + 1\<rparr>)"
    by (simp add: workload_wf_def demo_workload_def)
next
  show "\<exists>ob j. Translate (demo_workload\<lparr>wl_Replicas := 2 ^ 32 + 1\<rparr>) SchedulerKAI ''ns'' ''demo'' = Inr ob \<and>
      ob_Job ob = Some j \<and> jb_Parallelism j = 1 \<and>
      map_get (jb_Annotations j) kaiMinMemberAnn = Some (itoa (2 ^ 32 + 1))"
    by (simp add: Translate_def checkSupported_def demo_workload_def scenario_constants job_def int32_def
        workload_constants)
qed

theorem replicas_truncated_witness:
  "\<exists>ob. Translate demo_workload SchedulerKAI ''ns'' ''demo'' = Inr ob \<and>
     (\<forall>(pod, n)\<in>set (controllers ob). sint n = 4)"
proof -
  obtain ob where ob: "Translate demo_workload SchedulerKAI ''ns'' ''demo'' = Inr ob"
    by (simp add: Translate_def checkSupported_def demo_workload_def scenario_constants)
  have "0 < wl_Replicas demo_workload \<and> wl_Replicas demo_workload < 2 ^ 32 \<and>
      Translate demo_workload SchedulerKAI ''ns'' ''demo'' = Inr ob" "wl_Replicas demo_workload = 4"
    using ob by (simp_all add: demo_workload_def)
  with replicas_truncated [THEN conjunct1, rule_format, OF this(1)] ob show ?thesis by auto
qed

end
