(* ===== verification/GenerateSlices.thy ===== *)
theory GenerateSlices
  imports GenerateNodes MigCapacity "HOL-Library.Word"
begin

text \<open>
  internal/generate/resourceslice.go and migslice.go, with the attribute names of labels.go:
  the DRA ResourceSlices of a resolved topology. A device attribute is the API's union of
  four optional values. Go maps are association lists built in the order the code writes
  them. \<open>None\<close> stands for a panic or an endless loop.
\<close>

subsection \<open>Attribute names and other constants\<close>

definition AttrType :: string where "AttrType = ''type''"
definition AttrUUID :: string where "AttrUUID = ''uuid''"
definition AttrProductName :: string where "AttrProductName = ''productName''"
definition AttrArchitecture :: string where "AttrArchitecture = ''architecture''"
definition AttrPCIBusID :: string where "AttrPCIBusID = ''pciBusID''"
definition AttrPCIeRoot :: string where "AttrPCIeRoot = ''pcieRoot''"
definition AttrNUMANode :: string where "AttrNUMANode = ''numaNode''"
definition DeviceTypeGPU :: string where "DeviceTypeGPU = ''gpu''"
definition AttrNVLinkDomain :: string where "AttrNVLinkDomain = ''gpu-sim.io/nvlinkDomain''"
definition AttrNVLinkPeerCount :: string where "AttrNVLinkPeerCount = ''gpu-sim.io/nvlinkPeerCount''"
definition AttrFaultDomain :: string where "AttrFaultDomain = ''gpu-sim.io/faultDomain''"
definition AttrLegacyType :: string where "AttrLegacyType = ''gpu.nvidia.com/type''"
definition AttrLegacyUUID :: string where "AttrLegacyUUID = ''gpu.nvidia.com/uuid''"
definition AttrLegacyProductName :: string where "AttrLegacyProductName = ''gpu.nvidia.com/productName''"
definition AttrLegacyModel :: string where "AttrLegacyModel = ''model''"
definition DriverName :: string where "DriverName = ''gpu.nvidia.com''"
definition AttrParentUUID :: string where "AttrParentUUID = ''parentUUID''"
definition AttrProfile :: string where "AttrProfile = ''profile''"
definition DeviceTypeMIG :: string where "DeviceTypeMIG = ''mig''"
definition MIGDeviceClassName :: string where "MIGDeviceClassName = ''mig.nvidia.com''"
definition maxDevicesPerSlice :: int where "maxDevicesPerSlice = 64"

lemmas attr_defs = AttrType_def AttrUUID_def AttrProductName_def AttrArchitecture_def AttrPCIBusID_def
  AttrPCIeRoot_def AttrNUMANode_def AttrNVLinkDomain_def AttrNVLinkPeerCount_def AttrFaultDomain_def
  AttrLegacyType_def AttrLegacyUUID_def AttrLegacyProductName_def AttrLegacyModel_def
  AttrParentUUID_def AttrProfile_def

subsection \<open>Data\<close>

record device_attribute =
  da_Int :: "int option"
  da_Bool :: "bool option"
  da_String :: "string option"
  da_Version :: "string option"

definition string_attr :: "string \<Rightarrow> device_attribute" where
  "string_attr s = \<lparr>da_Int = None, da_Bool = None, da_String = Some s, da_Version = None\<rparr>"

definition int_attr :: "int \<Rightarrow> device_attribute" where
  "int_attr i = \<lparr>da_Int = Some i, da_Bool = None, da_String = None, da_Version = None\<rparr>"

record counter_consumption =
  cc_CounterSet :: string
  cc_Counters :: "(string \<times> int) list"

record counter_set =
  cs_Name :: string
  cs_Counters :: "(string \<times> int) list"

record device_taint =
  dt_Key :: string
  dt_Effect :: string

record slice_device =
  sd_Name :: string
  sd_Attributes :: "(string \<times> device_attribute) list"
  sd_Capacity :: "(string \<times> int) list"
  sd_ConsumesCounters :: "counter_consumption list"
  sd_Taints :: "device_taint list"

record slice_spec =
  ss_Driver :: string
  ss_NodeName :: "string option"
  ss_PoolName :: string
  ss_PoolGeneration :: int
  ss_PoolSliceCount :: int
  ss_SharedCounters :: "counter_set list"
  ss_Devices :: "slice_device list"

record resource_slice =
  sl_Name :: string
  sl_Labels :: "(string \<times> string) list"
  sl_Spec :: slice_spec

record device_class =
  dc_Name :: string
  dc_Expressions :: "string list"

subsection \<open>Whole GPUs\<close>

definition SliceName :: "string \<Rightarrow> string" where
  "SliceName nodeName = ''kwok-'' @ nodeName @ ''-gpu''"

definition device :: "resolved_node \<Rightarrow> resolved_gpu \<Rightarrow> slice_device" where
  "device rn gpu =
     \<lparr>sd_Name = rg_DeviceName gpu,
      sd_Attributes =
        [(AttrType, string_attr DeviceTypeGPU), (AttrUUID, string_attr (rg_UUID gpu)),
         (AttrProductName, string_attr (rn_ProductName rn)),
         (AttrLegacyType, string_attr DeviceTypeGPU), (AttrLegacyUUID, string_attr (rg_UUID gpu)),
         (AttrLegacyProductName, string_attr (rn_ProductName rn)),
         (AttrLegacyModel, string_attr (rn_ProductName rn))] @
        (if rn_Architecture rn \<noteq> [] then [(AttrArchitecture, string_attr (rn_Architecture rn))] else []) @
        (if rg_PCIBusID gpu \<noteq> [] then [(AttrPCIBusID, string_attr (rg_PCIBusID gpu))] else []) @
        (if rg_HasNUMA gpu
         then [(AttrPCIeRoot, string_attr (rg_PCIeRoot gpu)), (AttrNUMANode, int_attr (rg_NUMANode gpu))] else []) @
        (if rg_NVLinkDomain gpu \<noteq> []
         then [(AttrNVLinkDomain, string_attr (rg_NVLinkDomain gpu)),
               (AttrNVLinkPeerCount, int_attr (rg_NVLinkPeers gpu))] else []) @
        (if rg_FaultDomain gpu \<noteq> [] then [(AttrFaultDomain, string_attr (rg_FaultDomain gpu))] else []),
      sd_Capacity = [], sd_ConsumesCounters = [], sd_Taints = []\<rparr>"

definition slice_labels :: "resolved_node \<Rightarrow> string \<Rightarrow> (string \<times> string) list" where
  "slice_labels rn topologyName =
     [(LabelRack, rn_Rack rn), (LabelManagedBy, ManagedByValue), (LabelTopology, topologyName)]"

definition resourceSlice :: "resolved_node \<Rightarrow> string \<Rightarrow> resource_slice" where
  "resourceSlice rn topologyName =
     \<lparr>sl_Name = SliceName (rn_Name rn), sl_Labels = slice_labels rn topologyName,
      sl_Spec = \<lparr>ss_Driver = DriverName, ss_NodeName = Some (rn_Name rn), ss_PoolName = rn_Name rn,
        ss_PoolGeneration = 0, ss_PoolSliceCount = 1, ss_SharedCounters = [],
        ss_Devices = map (device rn) (rn_GPUs rn)\<rparr>\<rparr>"

subsection \<open>Partitions\<close>

definition counterSliceName :: "string \<Rightarrow> string" where
  "counterSliceName node = ''kwok-'' @ node @ ''-mig-counters''"

definition partitionSliceName :: "string \<Rightarrow> int \<Rightarrow> string" where
  "partitionSliceName node i = ''kwok-'' @ node @ ''-mig-'' @ itoa i"

definition newSlice ::
    "resolved_node \<Rightarrow> string \<Rightarrow> string \<Rightarrow> int \<Rightarrow> (slice_spec \<Rightarrow> slice_spec) \<Rightarrow> resource_slice" where
  "newSlice rn topologyName name sliceCount fill =
     \<lparr>sl_Name = name, sl_Labels = slice_labels rn topologyName,
      sl_Spec = fill \<lparr>ss_Driver = DriverName, ss_NodeName = Some (rn_Name rn), ss_PoolName = rn_Name rn,
        ss_PoolGeneration = 0, ss_PoolSliceCount = sliceCount, ss_SharedCounters = [], ss_Devices = []\<rparr>\<rparr>"

text \<open>The two loops that fill a counter map: one unit per memory slice, then the compute pool.\<close>

definition slice_counters :: "int list \<Rightarrow> int \<Rightarrow> (string \<times> int) list" where
  "slice_counters slices sm =
     map_put SMSliceCounter sm (fold (\<lambda>i. map_put (MemorySliceCounter i) 1) slices [])"

definition counterSetFor :: "geometry \<Rightarrow> int \<Rightarrow> counter_set" where
  "counterSetFor g gpuIndex =
     \<lparr>cs_Name = CounterSetName gpuIndex,
      cs_Counters = slice_counters [0..geo_MemorySlices g - 1] (geo_SMSlices g)\<rparr>"

text \<open>
  The pattern \<open>\.(\d+)gb$\<close> read from the right, \<open>strconv.ParseInt\<close>'s range check, and the
  product at the width of \<open>int64\<close>.
\<close>

definition profileMemory :: "string \<Rightarrow> int option" where
  "profileMemory name =
     (case cut_prefix ''bg'' (rev name) of None \<Rightarrow> None
      | Some r \<Rightarrow>
          let digits = rev (takeWhile is_digit r); rest = dropWhile is_digit r;
              gigabytes = int (digits_value digits)
          in if digits = [] \<or> rest = [] \<or> hd rest \<noteq> CHR ''.'' then None
             else if gigabytes \<ge> 2 ^ 63 then None
             else Some (sint (word_of_int (gigabytes * 1024 * 1024 * 1024) :: 64 word)))"

definition migDevice :: "resolved_node \<Rightarrow> resolved_gpu \<Rightarrow> mig_partition \<Rightarrow> slice_device" where
  "migDevice rn gpu p =
     \<lparr>sd_Name = pt_DeviceName p,
      sd_Attributes =
        [(AttrType, string_attr DeviceTypeMIG), (AttrProfile, string_attr (mp_Name (pt_Profile p))),
         (AttrParentUUID, string_attr (rg_UUID gpu)), (AttrProductName, string_attr (rn_ProductName rn))] @
        (if rn_Architecture rn \<noteq> [] then [(AttrArchitecture, string_attr (rn_Architecture rn))] else []) @
        (if rg_HasNUMA gpu
         then [(AttrPCIeRoot, string_attr (rg_PCIeRoot gpu)), (AttrNUMANode, int_attr (rg_NUMANode gpu))] else []) @
        (if rg_NVLinkDomain gpu \<noteq> [] then [(AttrNVLinkDomain, string_attr (rg_NVLinkDomain gpu))] else []) @
        (if rg_FaultDomain gpu \<noteq> [] then [(AttrFaultDomain, string_attr (rg_FaultDomain gpu))] else []),
      sd_Capacity = (case profileMemory (mp_Name (pt_Profile p)) of None \<Rightarrow> [] | Some m \<Rightarrow> [(''memory'', m)]),
      sd_ConsumesCounters =
        [\<lparr>cc_CounterSet = CounterSetName (rg_Index gpu),
          cc_Counters = slice_counters (MemorySlices p) (mp_SMSlices (pt_Profile p))\<rparr>],
      sd_Taints = []\<rparr>"

definition chunkDevices :: "'a list \<Rightarrow> int \<Rightarrow> 'a list list option" where
  "chunkDevices devices sz =
     map_option snd (while_option
       (\<lambda>(start, chunks). start < int (length devices))
       (\<lambda>(start, chunks).
          let stop = (if start + sz > int (length devices) then int (length devices) else start + sz)
          in (start + sz, chunks @ [take (nat (stop - start)) (drop (nat start) devices)]))
       (0, []))"

definition migSlices :: "resolved_node \<Rightarrow> string \<Rightarrow> resource_slice list option" where
  "migSlices rn topologyName = do {
     m \<leftarrow> rn_MIG rn;
     let counterSets = map (\<lambda>gpu. counterSetFor (rm_Geometry m) (rg_Index gpu)) (rn_GPUs rn);
     let devices = concat (map (\<lambda>gpu. map (migDevice rn gpu) (rg_Partitions gpu)) (rn_GPUs rn));
     chunks \<leftarrow> chunkDevices devices maxDevicesPerSlice;
     let sliceCount = 1 + int (length chunks);
     Some (newSlice rn topologyName (counterSliceName (rn_Name rn)) sliceCount
             (\<lambda>spec. spec\<lparr>ss_SharedCounters := counterSets\<rparr>) #
           map (\<lambda>(i, chunk). newSlice rn topologyName (partitionSliceName (rn_Name rn) i) sliceCount
                  (\<lambda>spec. spec\<lparr>ss_Devices := chunk\<rparr>))
             (zip [0..int (length chunks) - 1] chunks)) }"

definition ResourceSlices :: "resolved \<Rightarrow> resource_slice list option" where
  "ResourceSlices r =
     map_option concat
       (collect (\<lambda>rn. if rn_MIG rn \<noteq> None then migSlices rn (rs_Name r)
                      else Some [resourceSlice rn (rs_Name r)]) (rs_Nodes r))"

definition MIGDeviceClass :: device_class where
  "MIGDeviceClass =
     \<lparr>dc_Name = MIGDeviceClassName,
      dc_Expressions = [''device.driver == '' @ go_quote DriverName @ '' && device.attributes['' @
        go_quote DriverName @ ''].type == '' @ go_quote DeviceTypeMIG]\<rparr>"

subsection \<open>Chunks\<close>

function chunks_of :: "nat \<Rightarrow> 'a list \<Rightarrow> 'a list list" where
  "chunks_of n xs = (if xs = [] \<or> n = 0 then [] else take n xs # chunks_of n (drop n xs))"
  by pat_completeness auto
termination by (relation "measure (length \<circ> snd)") auto

declare chunks_of.simps [simp del]

lemma chunks_of_Nil [simp]: "chunks_of n [] = []"
  by (simp add: chunks_of.simps)

lemma chunks_of_step: "xs \<noteq> [] \<Longrightarrow> 0 < n \<Longrightarrow> chunks_of n xs = take n xs # chunks_of n (drop n xs)"
  by (subst chunks_of.simps) simp

lemma concat_chunks_of: "0 < n \<Longrightarrow> concat (chunks_of n xs) = xs"
  by (induction n xs rule: chunks_of.induct) (subst chunks_of.simps, auto)

lemma chunks_of_sizes: "0 < n \<Longrightarrow> c \<in> set (chunks_of n xs) \<Longrightarrow> c \<noteq> [] \<and> length c \<le> n"
proof (induction n xs rule: chunks_of.induct)
  case (1 n xs)
  then show ?case by (subst (asm) (2) chunks_of.simps) (auto split: if_splits)
qed

lemma chunk_loop:
  assumes "0 < n" "xs = drop k ys" "k \<le> length ys"
  shows "map_option snd (while_option
       (\<lambda>(start, chunks). start < int (length ys))
       (\<lambda>(start, chunks).
          let stop = (if start + int n > int (length ys) then int (length ys) else start + int n)
          in (start + int n, chunks @ [take (nat (stop - start)) (drop (nat start) ys)]))
       (int k, acc)) = Some (acc @ chunks_of n xs)"
  using assms
proof (induction n xs arbitrary: k acc rule: chunks_of.induct)
  case (1 n xs)
  let ?b = "\<lambda>(start, chunks :: 'a list list). start < int (length ys)"
  let ?c = "\<lambda>(start, chunks).
          let stop = (if start + int n > int (length ys) then int (length ys) else start + int n)
          in (start + int n, chunks @ [take (nat (stop - start)) (drop (nat start) ys)])"
  show ?case
  proof (cases "xs = []")
    case True
    with "1.prems" show ?thesis by (subst while_option_unfold) simp
  next
    case False
    then have lt: "k < length ys" using "1.prems" by (cases "k < length ys") auto
    have now: "take (nat ((if int k + int n > int (length ys) then int (length ys) else int k + int n) - int k))
        (drop k ys) = take n xs"
      using "1.prems" by (auto simp: take_Cons' not_less)
    have step: "while_option ?b ?c (int k, acc) = while_option ?b ?c (int k + int n, acc @ [take n xs])"
      using lt now by (subst while_option_unfold) (simp add: Let_def)
    show ?thesis
    proof (cases "k + n \<le> length ys")
      case True
      have "drop n xs = drop (k + n) ys" using "1.prems" by (simp add: add.commute)
      from "1.IH" [OF _ "1.prems"(1) this True, of "acc @ [take n xs]"] False "1.prems"(1)
      show ?thesis unfolding step by (simp add: chunks_of_step)
    next
      case beyond: False
      then have "drop n xs = []" using "1.prems" by simp
      moreover have "while_option ?b ?c (int k + int n, acc @ [take n xs]) = Some (int k + int n, acc @ [take n xs])"
        using beyond by (subst while_option_unfold) simp
      ultimately show ?thesis unfolding step using False "1.prems"(1) by (simp add: chunks_of_step)
    qed
  qed
qed

lemma chunkDevices_eq:
  assumes "0 < sz"
  shows "chunkDevices xs sz = Some (chunks_of (nat sz) xs)"
proof -
  obtain n where n: "sz = int n" "0 < n" using assms by (metis zero_less_imp_eq_int)
  from chunk_loop [of n xs 0 xs "[]"] n(2) show ?thesis by (simp add: chunkDevices_def n(1))
qed

subsection \<open>Slice names\<close>

text \<open>A slice name can be read back: its last segment tells the three kinds apart.\<close>

datatype slice_id = GPUSlice string | CounterSlice string | PartitionSlice string int

fun slice_id_name :: "slice_id \<Rightarrow> string" where
  "slice_id_name (GPUSlice n) = SliceName n"
| "slice_id_name (CounterSlice n) = counterSliceName n"
| "slice_id_name (PartitionSlice n i) = partitionSliceName n i"

definition read_slice_name :: "string \<Rightarrow> slice_id option" where
  "read_slice_name s =
     (case cut_prefix ''kwok-'' s of None \<Rightarrow> None
      | Some r \<Rightarrow>
          let last = rev (takeWhile (\<lambda>c. c \<noteq> CHR ''-'') (rev r));
              front = drop 1 (dropWhile (\<lambda>c. c \<noteq> CHR ''-'') (rev r))
          in if last = ''gpu'' then Some (GPUSlice (rev front))
             else (case cut_prefix ''gim-'' front of None \<Rightarrow> None
                   | Some f \<Rightarrow> Some (if last = ''counters'' then CounterSlice (rev f)
                                    else PartitionSlice (rev f) (int (digits_value last)))))"

definition slice_id_ok :: "slice_id \<Rightarrow> bool" where
  "slice_id_ok x = (case x of PartitionSlice n i \<Rightarrow> 0 \<le> i | _ \<Rightarrow> True)"

lemma last_segment:
  assumes "CHR ''-'' \<notin> set d"
  shows "takeWhile (\<lambda>c. c \<noteq> CHR ''-'') (rev (n @ CHR ''-'' # d)) = rev d"
    "dropWhile (\<lambda>c. c \<noteq> CHR ''-'') (rev (n @ CHR ''-'' # d)) = CHR ''-'' # rev n"
proof -
  have "c \<noteq> CHR ''-''" if "c \<in> set (rev d)" for c using that assms by auto
  then show "takeWhile (\<lambda>c. c \<noteq> CHR ''-'') (rev (n @ CHR ''-'' # d)) = rev d"
    "dropWhile (\<lambda>c. c \<noteq> CHR ''-'') (rev (n @ CHR ''-'' # d)) = CHR ''-'' # rev n"
    using takeWhile_append2 [of "rev d" "\<lambda>c. c \<noteq> CHR ''-''" "CHR ''-'' # rev n"]
      dropWhile_append2 [of "rev d" "\<lambda>c. c \<noteq> CHR ''-''" "CHR ''-'' # rev n"] by simp_all
qed

lemma cut_kwok: "cut_prefix ''kwok-'' (''kwok-'' @ s) = Some s"
  by (rule cut_prefix_append)

lemma read_slice_name_print:
  assumes "slice_id_ok x"
  shows "read_slice_name (slice_id_name x) = Some x"
proof (cases x)
  case (GPUSlice n)
  show ?thesis
    using last_segment [of "''gpu''" n] cut_kwok [of "n @ ''-gpu''"]
    by (simp add: GPUSlice SliceName_def read_slice_name_def)
next
  case (CounterSlice n)
  show ?thesis
    using last_segment [of "''counters''" "n @ ''-mig''"] cut_kwok [of "n @ ''-mig-counters''"]
    by (simp add: CounterSlice counterSliceName_def read_slice_name_def)
next
  case (PartitionSlice n i)
  with assms have i: "0 \<le> i" by (simp add: slice_id_ok_def)
  then have "is_digit (hd (itoa i))" "digits_value (itoa i) = nat i"
    by (simp_all add: itoa_def hd_itoa_nat)
  then have "itoa i \<noteq> ''gpu''" "itoa i \<noteq> ''counters''" "int (digits_value (itoa i)) = i"
    using i by (auto simp: is_digit_def)
  then show ?thesis
    using last_segment [of "itoa i" "n @ ''-mig''"] minus_free [OF i] cut_kwok [of "n @ ''-mig-'' @ itoa i"]
    by (simp add: PartitionSlice partitionSliceName_def read_slice_name_def)
qed

interpretation slice_name: readable_name slice_id_name read_slice_name slice_id_ok
  by unfold_locales (rule read_slice_name_print)

subsection \<open>The slices of a node, written out\<close>

definition mig_devices :: "resolved_node \<Rightarrow> slice_device list" where
  "mig_devices rn = concat (map (\<lambda>gpu. map (migDevice rn gpu) (rg_Partitions gpu)) (rn_GPUs rn))"

definition mig_chunks :: "resolved_node \<Rightarrow> (int \<times> slice_device list) list" where
  "mig_chunks rn = (let cs = chunks_of 64 (mig_devices rn) in zip [0..int (length cs) - 1] cs)"

definition mig_slices_view :: "resolved_node \<Rightarrow> resolved_mig \<Rightarrow> string \<Rightarrow> resource_slice list" where
  "mig_slices_view rn m t =
     (let n = 1 + int (length (mig_chunks rn)) in
      newSlice rn t (counterSliceName (rn_Name rn)) n
        (\<lambda>spec. spec\<lparr>ss_SharedCounters := map (\<lambda>gpu. counterSetFor (rm_Geometry m) (rg_Index gpu)) (rn_GPUs rn)\<rparr>) #
      map (\<lambda>(i, chunk). newSlice rn t (partitionSliceName (rn_Name rn) i) n (\<lambda>spec. spec\<lparr>ss_Devices := chunk\<rparr>))
        (mig_chunks rn))"

definition node_slices :: "string \<Rightarrow> resolved_node \<Rightarrow> resource_slice list" where
  "node_slices t rn =
     (case rn_MIG rn of None \<Rightarrow> [resourceSlice rn t] | Some m \<Rightarrow> mig_slices_view rn m t)"

definition node_devices :: "resolved_node \<Rightarrow> slice_device list" where
  "node_devices rn = (case rn_MIG rn of None \<Rightarrow> map (device rn) (rn_GPUs rn) | Some m \<Rightarrow> mig_devices rn)"

definition node_slice_ids :: "resolved_node \<Rightarrow> slice_id list" where
  "node_slice_ids rn =
     (case rn_MIG rn of None \<Rightarrow> [GPUSlice (rn_Name rn)]
      | Some m \<Rightarrow> CounterSlice (rn_Name rn) # map (PartitionSlice (rn_Name rn) \<circ> fst) (mig_chunks rn))"

lemma newSlice_sel [simp]:
  "sl_Name (newSlice rn t n k f) = n" "sl_Labels (newSlice rn t n k f) = slice_labels rn t"
  by (simp_all add: newSlice_def)

lemma mig_chunks_len: "length (mig_chunks rn) = length (chunks_of 64 (mig_devices rn))"
  by (simp add: mig_chunks_def Let_def)

lemma mig_chunks_snd: "map snd (mig_chunks rn) = chunks_of 64 (mig_devices rn)"
  by (simp add: mig_chunks_def Let_def)

lemma mig_chunks_fst: "map fst (mig_chunks rn) = [0..int (length (mig_chunks rn)) - 1]"
  unfolding mig_chunks_len by (simp add: mig_chunks_def Let_def)

lemma mig_chunks_mem:
  assumes "(i, c) \<in> set (mig_chunks rn)"
  shows "0 \<le> i \<and> c \<noteq> [] \<and> length c \<le> 64"
proof -
  have "i \<in> set (map fst (mig_chunks rn))" "c \<in> set (map snd (mig_chunks rn))"
    using assms by force+
  then show ?thesis unfolding mig_chunks_fst mig_chunks_snd using chunks_of_sizes [of 64 c] by simp
qed

lemma migSlices_eq: "rn_MIG rn = Some m \<Longrightarrow> migSlices rn t = Some (mig_slices_view rn m t)"
  by (simp add: migSlices_def chunkDevices_eq maxDevicesPerSlice_def Let_def mig_devices_def
      mig_slices_view_def mig_chunks_def)

lemma ResourceSlices_eq: "ResourceSlices r = Some (concat (map (node_slices (rs_Name r)) (rs_Nodes r)))"
proof -
  have "collect (\<lambda>rn. if rn_MIG rn \<noteq> None then migSlices rn (rs_Name r)
                      else Some [resourceSlice rn (rs_Name r)]) (rs_Nodes r) =
        Some (map (node_slices (rs_Name r)) (rs_Nodes r))"
    by (rule collect_total) (auto simp: node_slices_def migSlices_eq)
  then show ?thesis by (simp add: ResourceSlices_def)
qed

lemma slice_spec_of [simp]:
  "sl_Spec (newSlice rn t n k f) = f \<lparr>ss_Driver = DriverName, ss_NodeName = Some (rn_Name rn),
     ss_PoolName = rn_Name rn, ss_PoolGeneration = 0, ss_PoolSliceCount = k, ss_SharedCounters = [],
     ss_Devices = []\<rparr>"
  by (simp add: newSlice_def)

lemma mig_slices_devices: "concat (map (ss_Devices \<circ> sl_Spec) (mig_slices_view rn m t)) = mig_devices rn"
proof -
  have "map (ss_Devices \<circ> sl_Spec) (mig_slices_view rn m t) = [] # map snd (mig_chunks rn)"
    by (simp add: mig_slices_view_def Let_def comp_def split_beta)
  then show ?thesis by (simp add: mig_chunks_snd concat_chunks_of)
qed

lemma node_slices_devices: "concat (map (ss_Devices \<circ> sl_Spec) (node_slices t rn)) = node_devices rn"
  using mig_slices_devices [of rn _ t]
  by (simp add: node_slices_def node_devices_def resourceSlice_def split: option.split)

lemma node_slices_pool:
  "s \<in> set (node_slices t rn) \<Longrightarrow>
     ss_PoolName (sl_Spec s) = rn_Name rn \<and> ss_NodeName (sl_Spec s) = Some (rn_Name rn) \<and>
     ss_Driver (sl_Spec s) = DriverName \<and>
     ss_PoolSliceCount (sl_Spec s) = int (length (node_slices t rn)) \<and> sl_Labels s = slice_labels rn t"
  by (auto simp: node_slices_def resourceSlice_def mig_slices_view_def Let_def split: option.splits)

lemma node_slices_names: "map sl_Name (node_slices t rn) = map slice_id_name (node_slice_ids rn)"
  by (simp add: node_slices_def node_slice_ids_def resourceSlice_def mig_slices_view_def Let_def comp_def
      split_beta split: option.split)

lemma node_slices_nonempty: "node_slices t rn \<noteq> []"
  by (simp add: node_slices_def mig_slices_view_def Let_def split: option.split)

lemma node_slice_ids_ok:
  "distinct (node_slice_ids rn)" "x \<in> set (node_slice_ids rn) \<Longrightarrow> slice_id_ok x"
  "x \<in> set (node_slice_ids rn) \<Longrightarrow>
     x = GPUSlice (rn_Name rn) \<or> x = CounterSlice (rn_Name rn) \<or> (\<exists>i. x = PartitionSlice (rn_Name rn) i)"
proof -
  have "inj_on fst (set (mig_chunks rn)) \<and> distinct (mig_chunks rn)"
    using distinct_map [of fst "mig_chunks rn"] unfolding mig_chunks_fst by simp
  then show "distinct (node_slice_ids rn)"
    by (auto simp: node_slice_ids_def distinct_map inj_on_def split: option.split)
qed (auto simp: node_slice_ids_def slice_id_ok_def dest: mig_chunks_mem split: option.splits)

lemma distinct_slice_names:
  assumes "distinct (map rn_Name xs)"
  shows "distinct (map sl_Name (concat (map (node_slices t) xs)))"
proof -
  have "map sl_Name (concat (map (node_slices t) xs)) = map slice_id_name (concat (map node_slice_ids xs))"
    by (simp add: map_concat comp_def node_slices_names)
  moreover have "distinct (concat (map node_slice_ids xs))"
    using assms
  proof (induction xs)
    case (Cons x xs)
    have "a \<noteq> b" if "a \<in> set (node_slice_ids x)" "y \<in> set xs" "b \<in> set (node_slice_ids y)" for a b y
    proof -
      have "rn_Name x \<noteq> rn_Name y" using Cons.prems that(2) by auto
      with node_slice_ids_ok(3) [OF that(1)] node_slice_ids_ok(3) [OF that(3)] show ?thesis by auto
    qed
    with Cons show ?case by (auto simp: node_slice_ids_ok)
  qed simp
  moreover have "\<forall>x\<in>set (concat (map node_slice_ids xs)). slice_id_ok x"
    by (auto simp: node_slice_ids_ok)
  ultimately show ?thesis by (simp only: slice_name.distinct_map_print)
qed

lemma filter_pool:
  assumes "distinct (map rn_Name xs)" "x \<in> set xs"
  shows "filter (\<lambda>s. ss_PoolName (sl_Spec s) = rn_Name x) (concat (map (node_slices t) xs)) = node_slices t x"
  using assms
proof (induction xs)
  case (Cons y ys)
  have pool: "filter (\<lambda>s. ss_PoolName (sl_Spec s) = n) (node_slices t z) =
      (if n = rn_Name z then node_slices t z else [])" for z n
    using node_slices_pool by (auto simp: filter_id_conv filter_empty_conv)
  show ?case
  proof (cases "x = y")
    case True
    have "filter (\<lambda>s. ss_PoolName (sl_Spec s) = rn_Name y) (concat (map (node_slices t) ys)) = []"
      using Cons.prems by (auto simp: filter_empty_conv image_iff dest!: node_slices_pool)
    with True show ?thesis by (simp add: pool)
  next
    case False
    then have "x \<in> set ys" using Cons.prems by simp
    then have "rn_Name x \<in> rn_Name ` set ys" by (rule imageI)
    then have "rn_Name x \<noteq> rn_Name y" using Cons.prems by auto
    with False Cons show ?thesis by (simp add: pool)
  qed
qed simp

subsection \<open>Properties\<close>

text \<open>
  A MIG node is published as one inventory within the API's limits: a first slice with one
  counter set per GPU and no device, then slices of 1 to 64 devices and no counter, which
  together hold every partition of every GPU once, in order. All declare the node's pool and
  the number of slices there really are, under names that differ.
\<close>

theorem migSlices_inventory:
  assumes "rn_MIG rn = Some m"
  shows "\<exists>c ss. migSlices rn t = Some (c # ss) \<and>
     ss_SharedCounters (sl_Spec c) = map (counterSetFor (rm_Geometry m) \<circ> rg_Index) (rn_GPUs rn) \<and>
     ss_Devices (sl_Spec c) = [] \<and>
     concat (map (ss_Devices \<circ> sl_Spec) ss) =
       concat (map (\<lambda>gpu. map (migDevice rn gpu) (rg_Partitions gpu)) (rn_GPUs rn)) \<and>
     (\<forall>s\<in>set ss. ss_SharedCounters (sl_Spec s) = [] \<and> ss_Devices (sl_Spec s) \<noteq> [] \<and>
        length (ss_Devices (sl_Spec s)) \<le> 64) \<and>
     (\<forall>s\<in>set (c # ss). ss_PoolName (sl_Spec s) = rn_Name rn \<and> ss_NodeName (sl_Spec s) = Some (rn_Name rn) \<and>
        ss_PoolSliceCount (sl_Spec s) = int (length (c # ss))) \<and>
     distinct (map sl_Name (c # ss))"
proof -
  have view: "node_slices t rn = mig_slices_view rn m t" by (simp add: node_slices_def assms)
  define c where "c = hd (mig_slices_view rn m t)"
  define ss where "ss = tl (mig_slices_view rn m t)"
  have v: "mig_slices_view rn m t = c # ss"
    and c: "ss_SharedCounters (sl_Spec c) = map (counterSetFor (rm_Geometry m) \<circ> rg_Index) (rn_GPUs rn)"
      "ss_Devices (sl_Spec c) = []"
    by (simp_all add: c_def ss_def mig_slices_view_def Let_def comp_def)
  moreover have "\<forall>s\<in>set ss. ss_SharedCounters (sl_Spec s) = [] \<and> ss_Devices (sl_Spec s) \<noteq> [] \<and>
        length (ss_Devices (sl_Spec s)) \<le> 64"
    by (auto simp: ss_def mig_slices_view_def Let_def dest: mig_chunks_mem)
  moreover have "concat (map (ss_Devices \<circ> sl_Spec) ss) = mig_devices rn"
    using mig_slices_devices [of rn m t] c(2) by (simp add: v)
  moreover have "distinct (map sl_Name (c # ss))"
    using distinct_slice_names [of "[rn]" t] by (simp add: view v)
  moreover have "\<forall>s\<in>set (c # ss). ss_PoolName (sl_Spec s) = rn_Name rn \<and>
      ss_NodeName (sl_Spec s) = Some (rn_Name rn) \<and> ss_PoolSliceCount (sl_Spec s) = int (length (c # ss))"
    using node_slices_pool [of _ t rn] by (simp add: view v)
  ultimately show ?thesis
    using migSlices_eq [OF assms, of t] by (intro exI [of _ c] exI [of _ ss]) (simp add: mig_devices_def)
qed

text \<open>
  C18. Publishing a resolved topology never panics, and the slices of the whole cluster are
  consistent: slice names are distinct, and for every node the slices of its pool are exactly
  as many as each of them announces, carry the node's rack and the topology's name and the
  marker that makes them gpu-sim's own, and hold one device per GPU, or on a MIG node one
  device per partition.
\<close>

theorem ResourceSlices_published:
  assumes "Validate ct = []" "loads load prof ct" "Resolve uuid load ct = Some (Inr r)"
  shows "\<exists>ss. ResourceSlices r = Some ss \<and> distinct (map sl_Name ss) \<and>
     (\<forall>s\<in>set ss. managed (sl_Labels s) \<and> has_label (sl_Labels s) LabelTopology (ct_MetadataName ct)) \<and>
     (\<forall>x\<in>set (rs_Nodes r).
        let pool = filter (\<lambda>s. ss_PoolName (sl_Spec s) = rn_Name x) ss;
            devices = concat (map (ss_Devices \<circ> sl_Spec) pool)
        in pool \<noteq> [] \<and>
           (\<forall>s\<in>set pool. ss_PoolSliceCount (sl_Spec s) = int (length pool) \<and>
              ss_NodeName (sl_Spec s) = Some (rn_Name x) \<and> has_label (sl_Labels s) LabelRack (rn_Rack x)) \<and>
           map sd_Name devices =
             (if rn_MIG x = None then map rg_DeviceName (rn_GPUs x)
              else map pt_DeviceName (concat (map rg_Partitions (rn_GPUs x)))))"
proof -
  have wf: "topology_wf ct" using assms(1) by (simp add: Validate_wf)
  have r: "r = resolved_view uuid prof ct" using Resolve_eq [OF wf assms(2)] assms(3) by simp
  have nodes: "distinct (map rn_Name (rs_Nodes r))"
    using distinct_placed_names [OF wf] by (simp add: r resolved_nodes comp_def split_beta)
  have name: "rs_Name r = ct_MetadataName ct" by (simp add: r resolved_view_def)
  have labels: "has_label (slice_labels rn t) LabelRack (rn_Rack rn)" "managed (slice_labels rn t)"
    "has_label (slice_labels rn t) LabelTopology t" for rn t
    by (simp_all add: slice_labels_def has_label_def managed_def label_defs)
  have devices: "map sd_Name (node_devices x) =
      (if rn_MIG x = None then map rg_DeviceName (rn_GPUs x)
       else map pt_DeviceName (concat (map rg_Partitions (rn_GPUs x))))" for x
    by (simp add: node_devices_def device_def mig_devices_def migDevice_def map_concat comp_def split: option.split)
  show ?thesis
  proof (intro exI conjI ballI)
    show "ResourceSlices r = Some (concat (map (node_slices (rs_Name r)) (rs_Nodes r)))"
      by (rule ResourceSlices_eq)
    show "distinct (map sl_Name (concat (map (node_slices (rs_Name r)) (rs_Nodes r))))"
      by (rule distinct_slice_names [OF nodes])
  next
    fix s
    assume "s \<in> set (concat (map (node_slices (rs_Name r)) (rs_Nodes r)))"
    then obtain x where "s \<in> set (node_slices (rs_Name r) x)" by auto
    then show "managed (sl_Labels s)" "has_label (sl_Labels s) LabelTopology (ct_MetadataName ct)"
      using labels by (auto dest: node_slices_pool simp: name)
  next
    fix x
    assume x: "x \<in> set (rs_Nodes r)"
    show "let pool = filter (\<lambda>s. ss_PoolName (sl_Spec s) = rn_Name x)
               (concat (map (node_slices (rs_Name r)) (rs_Nodes r)));
            devices = concat (map (ss_Devices \<circ> sl_Spec) pool)
        in pool \<noteq> [] \<and>
           (\<forall>s\<in>set pool. ss_PoolSliceCount (sl_Spec s) = int (length pool) \<and>
              ss_NodeName (sl_Spec s) = Some (rn_Name x) \<and> has_label (sl_Labels s) LabelRack (rn_Rack x)) \<and>
           map sd_Name devices =
             (if rn_MIG x = None then map rg_DeviceName (rn_GPUs x)
              else map pt_DeviceName (concat (map rg_Partitions (rn_GPUs x))))"
      using node_slices_pool [of _ "rs_Name r" x] labels
      unfolding filter_pool [OF nodes x] Let_def node_slices_devices devices
      by (auto simp: node_slices_nonempty)
  qed
qed

theorem ResourceSlices_published_witness:
  "\<exists>r ss. Resolve (\<lambda>s. s) (\<lambda>_. Inr sample_profile) (demo_mig_topology []) = Some (Inr r) \<and>
     ResourceSlices r = Some ss \<and> distinct (map sl_Name ss)"
proof -
  have wf: "topology_wf (demo_mig_topology [])" by (rule demo_mig_wf) simp
  then have v: "Validate (demo_mig_topology []) = []" by (simp add: Validate_wf)
  note res = Resolve_eq [OF wf demo_mig_loads, of "\<lambda>s. s"]
  from ResourceSlices_published [OF v demo_mig_loads res] res show ?thesis by blast
qed

theorem migSlices_inventory_witness:
  "let rn = hd (rs_Nodes (resolved_view (\<lambda>s. s) (\<lambda>_. sample_profile) (demo_mig_topology []))) in
   \<exists>c ss. migSlices rn ''demo'' = Some (c # ss) \<and> distinct (map sl_Name (c # ss))"
proof -
  let ?rn = "hd (rs_Nodes (resolved_view (\<lambda>s. s) (\<lambda>_. sample_profile) (demo_mig_topology [])))"
  have "topology_wf (demo_mig_topology [])" by (rule demo_mig_wf) simp
  then have "MIGEnabled (pool_of (demo_mig_topology []) (rn_Pool ?rn)) \<longrightarrow> rn_MIG ?rn \<noteq> None"
    by (auto simp: topology_wf_def demo_mig_topology_def resolved_view_def node_view_def Let_def pool_of_def
        pool_wf_def mig_view_def resolve_mig_def MIGEnabled_def)
  then obtain m where "rn_MIG ?rn = Some m"
    by (auto simp: demo_mig_topology_def resolved_view_def node_view_def Let_def pool_of_def MIGEnabled_def)
  from migSlices_inventory [OF this, of "''demo''"] show ?thesis unfolding Let_def by blast
qed

subsection \<open>What the published counters allow\<close>

text \<open>
  How the DRA allocator reads shared counters: a set of devices may be allocated together
  when every counter they consume exists in the pool and none is drawn below zero.
\<close>

definition drawn :: "string \<Rightarrow> string \<Rightarrow> slice_device \<Rightarrow> int" where
  "drawn counterSet counter d =
     sum_list (map (\<lambda>cc. case map_get (cc_Counters cc) counter of None \<Rightarrow> 0 | Some v \<Rightarrow> v)
       (filter (\<lambda>cc. cc_CounterSet cc = counterSet) (sd_ConsumesCounters d)))"

definition counters_allow :: "counter_set list \<Rightarrow> slice_device list \<Rightarrow> bool" where
  "counters_allow sets devices \<longleftrightarrow>
     (\<forall>d\<in>set devices. \<forall>cc\<in>set (sd_ConsumesCounters d). \<exists>cs\<in>set sets.
        cs_Name cs = cc_CounterSet cc \<and> set (map_keys (cc_Counters cc)) \<subseteq> set (map_keys (cs_Counters cs))) \<and>
     (\<forall>cs\<in>set sets. \<forall>k\<in>set (map_keys (cs_Counters cs)). \<exists>v. map_get (cs_Counters cs) k = Some v \<and>
        sum_list (map (drawn (cs_Name cs) k) devices) \<le> v)"

lemma CounterSetName_inject: "0 \<le> i \<Longrightarrow> 0 \<le> j \<Longrightarrow> CounterSetName i = CounterSetName j \<longleftrightarrow> i = j"
  by (simp add: CounterSetName_def itoa_inj_nonneg)

lemma MemorySliceCounter_inject:
  "0 \<le> i \<Longrightarrow> 0 \<le> j \<Longrightarrow> MemorySliceCounter i = MemorySliceCounter j \<longleftrightarrow> i = j"
  by (simp add: MemorySliceCounter_def itoa_inj_nonneg)

lemma SMSliceCounter_neq [simp]: "MemorySliceCounter i \<noteq> SMSliceCounter" "SMSliceCounter \<noteq> MemorySliceCounter i"
  by (simp_all add: MemorySliceCounter_def SMSliceCounter_def)

lemma memory_counters:
  "map_get (fold (\<lambda>i. map_put (MemorySliceCounter i) 1) is m) k =
     (if k \<in> MemorySliceCounter ` set is then Some (1::int) else map_get m k)"
  by (induction "is" arbitrary: m) (auto simp: update_conv')

lemma get_slice_counters:
  "map_get (slice_counters is sm) k =
     (if k = SMSliceCounter then Some sm else if k \<in> MemorySliceCounter ` set is then Some 1 else None)"
  by (auto simp: slice_counters_def update_conv' memory_counters)

lemma keys_slice_counters: "set (map_keys (slice_counters is sm)) = insert SMSliceCounter (MemorySliceCounter ` set is)"
proof -
  have "set (map_keys (slice_counters is sm)) = dom (map_get (slice_counters is sm))"
    by (simp add: dom_map_of_conv_image_fst)
  also have "\<dots> = insert SMSliceCounter (MemorySliceCounter ` set is)"
    by (auto simp: dom_def get_slice_counters)
  finally show ?thesis .
qed

lemma drawn_migDevice:
  assumes "0 \<le> i" "0 \<le> rg_Index gpu"
  shows "drawn (CounterSetName i) k (migDevice rn gpu p) =
     (if rg_Index gpu = i then
        (if k = SMSliceCounter then mp_SMSlices (pt_Profile p)
         else if k \<in> MemorySliceCounter ` set (MemorySlices p) then 1 else 0) else 0)"
  using assms by (simp add: drawn_def migDevice_def CounterSetName_inject get_slice_counters)

lemma no_overlap_count:
  assumes "\<forall>p\<in>set ps. profile_ok (pt_Profile p) \<and> pt_GPUIndex p = i \<and> set (MemorySlices p) \<subseteq> A"
  shows "sorted_wrt (\<lambda>a b. \<not> Overlaps a b) ps \<longleftrightarrow>
         (\<forall>x\<in>A. sum_list (map (\<lambda>p. if x \<in> set (MemorySlices p) then 1 else 0 :: int) ps) \<le> 1)"
  using assms
proof (induction ps)
  case (Cons p ps)
  let ?count = "\<lambda>ps x. sum_list (map (\<lambda>p. if x \<in> set (MemorySlices p) then 1 else 0 :: int) ps)"
  have nonneg: "0 \<le> ?count ps x" for x by (rule sum_list_nonneg) auto
  have zero: "?count ps x = 0 \<longleftrightarrow> (\<forall>q\<in>set ps. x \<notin> set (MemorySlices q))" for x
    by (subst sum_list_nonneg_eq_0_iff) (simp_all only: set_map ball_simps, auto)
  have "(\<forall>q\<in>set ps. \<not> Overlaps p q) \<longleftrightarrow> (\<forall>q\<in>set ps. set (MemorySlices p) \<inter> set (MemorySlices q) = {})"
    using Cons.prems by (intro ball_cong refl) (simp add: Overlaps_iff_shared)
  also have "\<dots> \<longleftrightarrow> (\<forall>x\<in>set (MemorySlices p). ?count ps x = 0)" unfolding zero by blast
  finally have head: "(\<forall>q\<in>set ps. \<not> Overlaps p q) \<longleftrightarrow> (\<forall>x\<in>set (MemorySlices p). ?count ps x = 0)" .
  have sub: "set (MemorySlices p) \<subseteq> A" using Cons.prems by simp
  have "(\<forall>x\<in>A. ?count (p # ps) x \<le> 1) \<longleftrightarrow>
      (\<forall>x\<in>set (MemorySlices p). ?count ps x = 0) \<and> (\<forall>x\<in>A. ?count ps x \<le> 1)"
  proof -
    have "?count (p # ps) x \<le> 1 \<longleftrightarrow> ?count ps x \<le> 1 \<and> (x \<in> set (MemorySlices p) \<longrightarrow> ?count ps x = 0)" for x
      using nonneg [of x] by (cases "x \<in> set (MemorySlices p)") auto
    with sub show ?thesis by blast
  qed
  with head Cons show ?case by simp
qed simp

text \<open>The choice of devices made on one GPU.\<close>

definition chosen_on :: "int \<Rightarrow> (resolved_gpu \<times> mig_partition) list \<Rightarrow> mig_partition list" where
  "chosen_on i chosen = map snd (filter (\<lambda>(g, p). rg_Index g = i) chosen)"

lemma sum_chosen:
  "sum_list (map (\<lambda>(g, p). if rg_Index g = i then f p else 0 :: int) chosen) =
   sum_list (map f (chosen_on i chosen))"
  by (induction chosen) (auto simp: chosen_on_def)

lemma counters_allow_iff_fits:
  assumes gpus: "\<forall>g\<in>set gpus. 0 \<le> rg_Index g"
    and parts: "\<forall>(g, p)\<in>set chosen. g \<in> set gpus \<and> pt_GPUIndex p = rg_Index g \<and> profile_ok (pt_Profile p) \<and>
       set (MemorySlices p) \<subseteq> {0..<geo_MemorySlices geo}"
  shows "counters_allow (map (counterSetFor geo \<circ> rg_Index) gpus) (map (\<lambda>(g, p). migDevice rn g p) chosen) \<longleftrightarrow>
         (\<forall>g\<in>set gpus. fits geo (chosen_on (rg_Index g) chosen))"
proof -
  let ?devs = "map (\<lambda>(g, p). migDevice rn g p) chosen" and ?slices = "{0..<geo_MemorySlices geo}"
  have keys: "set (map_keys (cs_Counters (counterSetFor geo i))) =
      insert SMSliceCounter (MemorySliceCounter ` ?slices)" for i
  proof -
    have "set [0..geo_MemorySlices geo - 1] = ?slices" by auto
    then show ?thesis by (simp only: counterSetFor_def counter_set.simps keys_slice_counters)
  qed
  have exist: "\<forall>d\<in>set ?devs. \<forall>cc\<in>set (sd_ConsumesCounters d). \<exists>cs\<in>set (map (counterSetFor geo \<circ> rg_Index) gpus).
        cs_Name cs = cc_CounterSet cc \<and> set (map_keys (cc_Counters cc)) \<subseteq> set (map_keys (cs_Counters cs))"
  proof (intro ballI)
    fix d cc
    assume "d \<in> set ?devs" "cc \<in> set (sd_ConsumesCounters d)"
    then obtain g p where gp: "(g, p) \<in> set chosen"
      and cc: "cc = \<lparr>cc_CounterSet = CounterSetName (rg_Index g),
          cc_Counters = slice_counters (MemorySlices p) (mp_SMSlices (pt_Profile p))\<rparr>"
      by (auto simp: migDevice_def)
    have "set (map_keys (cc_Counters cc)) \<subseteq> set (map_keys (cs_Counters (counterSetFor geo (rg_Index g))))"
      using parts gp unfolding keys cc counter_consumption.simps keys_slice_counters by fastforce
    moreover have "cs_Name (counterSetFor geo (rg_Index g)) = cc_CounterSet cc"
      by (simp add: counterSetFor_def cc)
    moreover have "g \<in> set gpus" using parts gp by auto
    ultimately show "\<exists>cs\<in>set (map (counterSetFor geo \<circ> rg_Index) gpus). cs_Name cs = cc_CounterSet cc \<and>
        set (map_keys (cc_Counters cc)) \<subseteq> set (map_keys (cs_Counters cs))" by auto
  qed
  have draw: "sum_list (map (drawn (CounterSetName i) k) ?devs) =
      sum_list (map (\<lambda>p. if k = SMSliceCounter then mp_SMSlices (pt_Profile p)
         else if k \<in> MemorySliceCounter ` set (MemorySlices p) then 1 else 0) (chosen_on i chosen))"
    if "0 \<le> i" for i k
  proof -
    have "map (drawn (CounterSetName i) k) ?devs = map (\<lambda>(g, p). if rg_Index g = i then
        (if k = SMSliceCounter then mp_SMSlices (pt_Profile p)
         else if k \<in> MemorySliceCounter ` set (MemorySlices p) then 1 else 0) else 0) chosen"
      using parts gpus that by (auto simp: drawn_migDevice)
    then show ?thesis by (simp only: sum_chosen)
  qed
  have mem: "MemorySliceCounter x \<in> MemorySliceCounter ` set (MemorySlices p) \<longleftrightarrow> x \<in> set (MemorySlices p)"
    if "x \<in> ?slices" "p \<in> set (chosen_on i chosen)" for x p i
  proof -
    have "set (MemorySlices p) \<subseteq> ?slices" using that(2) parts by (fastforce simp: chosen_on_def)
    moreover have "inj_on MemorySliceCounter ?slices"
      by (rule inj_onI) (simp add: MemorySliceCounter_inject)
    ultimately show ?thesis using that(1) by (simp only: inj_on_image_mem_iff)
  qed
  have one: "(\<forall>k\<in>set (map_keys (cs_Counters (counterSetFor geo i))). \<exists>v.
        map_get (cs_Counters (counterSetFor geo i)) k = Some v \<and>
        sum_list (map (drawn (cs_Name (counterSetFor geo i)) k) ?devs) \<le> v) \<longleftrightarrow>
      fits geo (chosen_on i chosen)" if "0 \<le> i" for i
  proof -
    have range: "set [0..geo_MemorySlices geo - 1] = ?slices" by auto
    have val: "map_get (cs_Counters (counterSetFor geo i)) k =
        (if k = SMSliceCounter then Some (geo_SMSlices geo)
         else if k \<in> MemorySliceCounter ` ?slices then Some 1 else None)" for k
      by (simp only: counterSetFor_def counter_set.simps get_slice_counters range)
    have "\<forall>p\<in>set (chosen_on i chosen). profile_ok (pt_Profile p) \<and> pt_GPUIndex p = i \<and>
        set (MemorySlices p) \<subseteq> ?slices"
      using parts by (auto simp: chosen_on_def)
    note count = no_overlap_count [OF this]
    have name: "cs_Name (counterSetFor geo i) = CounterSetName i" by (simp add: counterSetFor_def)
    show ?thesis
      unfolding keys val name draw [OF that] fits_def count by (auto simp: mem comp_def cong: map_cong)
  qed
  have "(\<forall>cs\<in>set (map (counterSetFor geo \<circ> rg_Index) gpus). \<forall>k\<in>set (map_keys (cs_Counters cs)). \<exists>v.
        map_get (cs_Counters cs) k = Some v \<and> sum_list (map (drawn (cs_Name cs) k) ?devs) \<le> v) \<longleftrightarrow>
      (\<forall>g\<in>set gpus. fits geo (chosen_on (rg_Index g) chosen))"
    using gpus one by auto
  with exist show ?thesis unfolding counters_allow_def by blast
qed

lemma resolved_partitions:
  assumes "topology_wf ct" "x \<in> set (rs_Nodes (resolved_view uuid prof ct))" "rn_MIG x = Some m"
    "g \<in> set (rn_GPUs x)" "p \<in> set (rg_Partitions g)"
  shows "pt_GPUIndex p = rg_Index g" "profile_ok (pt_Profile p)" "pt_Profile p \<in> set (rm_Profiles m)"
    "set (MemorySlices p) \<subseteq> {0..<geo_MemorySlices (rm_Geometry m)}" "0 \<le> rg_Index g"
    "p \<in> set (partitions_of (rm_Geometry m) (rg_Index g) (pt_Profile p))"
proof -
  obtain k n where x: "x = node_view uuid prof ct k n" using assms(2) by (auto simp: resolved_nodes)
  note facts = resolved_gpu_facts [OF x assms(4)]
  show "0 \<le> rg_Index g" by (rule facts(5))
  have ok: "list_all profile_ok (rm_Profiles m)"
    using assms(3) mig_view_Some(5) by (auto simp: x)
  obtain q where q: "q \<in> set (rm_Profiles m)" "p \<in> set (partitions_of (rm_Geometry m) (rg_Index g) q)"
    using assms(3,5) by (auto simp: facts(9))
  then have p: "pt_Profile p = q" "pt_GPUIndex p = rg_Index g" by (auto simp: set_partitions_of)
  with q ok show "pt_GPUIndex p = rg_Index g" "profile_ok (pt_Profile p)" "pt_Profile p \<in> set (rm_Profiles m)"
    "p \<in> set (partitions_of (rm_Geometry m) (rg_Index g) (pt_Profile p))"
    by (auto simp: list_all_iff)
  show "set (MemorySlices p) \<subseteq> {0..<geo_MemorySlices (rm_Geometry m)}"
    by (rule partition_in_range [OF q(2)]) (use ok q(1) in \<open>simp add: list_all_iff\<close>)
qed

text \<open>
  C1. The published counters express the hardware exactly: on every MIG node of a resolved
  valid topology, a choice of its partition devices is one the shared counters allow if and
  only if on each GPU the chosen partitions physically fit, overlapping in no memory slice
  and needing no more compute slices than there are.
\<close>

theorem counters_express_geometry:
  assumes "Validate ct = []" "loads load prof ct" "Resolve uuid load ct = Some (Inr r)"
    and "x \<in> set (rs_Nodes r)" "rn_MIG x = Some m"
    and "\<forall>(g, p)\<in>set chosen. g \<in> set (rn_GPUs x) \<and> p \<in> set (rg_Partitions g)"
  shows "counters_allow (map (counterSetFor (rm_Geometry m) \<circ> rg_Index) (rn_GPUs x))
           (map (\<lambda>(g, p). migDevice x g p) chosen) \<longleftrightarrow>
         (\<forall>g\<in>set (rn_GPUs x). fits (rm_Geometry m) (chosen_on (rg_Index g) chosen))"
proof (rule counters_allow_iff_fits)
  have wf: "topology_wf ct" using assms(1) by (simp add: Validate_wf)
  have r: "r = resolved_view uuid prof ct" using Resolve_eq [OF wf assms(2)] assms(3) by simp
  obtain k n where x: "x = node_view uuid prof ct k n" using assms(4) by (auto simp: r resolved_nodes)
  show "\<forall>g\<in>set (rn_GPUs x). 0 \<le> rg_Index g" using resolved_gpu_facts(5) [OF x] by simp
  note part = resolved_partitions [OF wf assms(4) [unfolded r] assms(5)]
  show "\<forall>(g, p)\<in>set chosen. g \<in> set (rn_GPUs x) \<and> pt_GPUIndex p = rg_Index g \<and> profile_ok (pt_Profile p) \<and>
       set (MemorySlices p) \<subseteq> {0..<geo_MemorySlices (rm_Geometry m)}"
    using assms(6) part by fastforce
qed

theorem counters_express_geometry_witness:
  "\<exists>x m g p. rn_MIG x = Some m \<and> g \<in> set (rn_GPUs x) \<and>
     \<not> counters_allow (map (counterSetFor (rm_Geometry m) \<circ> rg_Index) (rn_GPUs x)) [migDevice x g p, migDevice x g p]"
proof -
  let ?ct = "demo_mig_topology []"
  let ?r = "resolved_view (\<lambda>s. s) (\<lambda>_. sample_profile) ?ct"
  let ?x = "hd (rs_Nodes ?r)"
  have wf: "topology_wf ?ct" by (rule demo_mig_wf) simp
  then have v: "Validate ?ct = []" by (simp add: Validate_wf)
  have x: "?x \<in> set (rs_Nodes ?r)" and nodes: "rn_GPUs ?x \<noteq> []"
    by (simp_all add: resolved_nodes placed_def demo_mig_topology_def node_view_def Let_def pool_of_def)
  have pool: "rn_MIG ?x = mig_view (pool_of ?ct ''p'')"
    by (simp add: resolved_nodes placed_def demo_mig_topology_def)
  have "to_lower ''h100'' = ''h100''" by code_simp
  then have "\<exists>m. mig_view (pool_of ?ct ''p'') = Some m \<and> rm_Profiles m \<noteq> [] \<and>
      (\<forall>p\<in>set (rm_Profiles m). slots (rm_Geometry m) p \<noteq> 0)"
    by (simp add: mig_view_def resolve_mig_def pool_of_def demo_mig_topology_def MIGEnabled_def mig_names_def
        GeometryFor_def geometry_table SelectProfiles_def slots_def)
  then obtain m where m: "rn_MIG ?x = Some m" "rm_Profiles m \<noteq> []"
    "\<forall>p\<in>set (rm_Profiles m). slots (rm_Geometry m) p \<noteq> 0"
    unfolding pool by blast
  obtain g where g: "g \<in> set (rn_GPUs ?x)" using nodes by (cases "rn_GPUs ?x") auto
  obtain k n where kn: "?x = node_view (\<lambda>s. s) (\<lambda>_. sample_profile) ?ct k n"
    using x by (auto simp: resolved_nodes)
  obtain q where q: "q \<in> set (rm_Profiles m)" using m(2) by (cases "rm_Profiles m") auto
  then have "partitions_of (rm_Geometry m) (rg_Index g) q \<noteq> []"
    using m(3) by (metis length_0_conv length_partitions_of)
  with q obtain p where p: "p \<in> set (rg_Partitions g)"
    using resolved_gpu_facts(9) [OF kn g] m(1) by (cases "partitions_of (rm_Geometry m) (rg_Index g) q") fastforce+
  have ok: "Overlaps p p" using resolved_partitions(2) [OF wf x m(1) g p] by (simp add: Overlaps_def profile_ok_def)
  have "\<not> fits (rm_Geometry m) (chosen_on (rg_Index g) [(g, p), (g, p)])"
    using ok by (simp add: fits_def chosen_on_def)
  moreover have "\<forall>(h, q)\<in>set [(g, p), (g, p)]. h \<in> set (rn_GPUs ?x) \<and> q \<in> set (rg_Partitions h)"
    using g p by simp
  note counters_express_geometry [OF v demo_mig_loads Resolve_eq [OF wf demo_mig_loads] x m(1) this]
  ultimately have "\<not> counters_allow (map (counterSetFor (rm_Geometry m) \<circ> rg_Index) (rn_GPUs ?x))
      [migDevice ?x g p, migDevice ?x g p]" using g by fastforce
  with m(1) g show ?thesis by blast
qed

subsection \<open>Agreement with the node objects\<close>

lemma device_attributes:
  "map_get (sd_Attributes (device rn g)) AttrNVLinkDomain =
     (if rg_NVLinkDomain g = [] then None else Some (string_attr (rg_NVLinkDomain g)))"
  "map_get (sd_Attributes (device rn g)) AttrFaultDomain =
     (if rg_FaultDomain g = [] then None else Some (string_attr (rg_FaultDomain g)))"
  "map_get (sd_Attributes (device rn g)) AttrType = Some (string_attr DeviceTypeGPU)"
  "map_get (sd_Attributes (migDevice rn g p)) AttrNVLinkDomain =
     (if rg_NVLinkDomain g = [] then None else Some (string_attr (rg_NVLinkDomain g)))"
  "map_get (sd_Attributes (migDevice rn g p)) AttrFaultDomain =
     (if rg_FaultDomain g = [] then None else Some (string_attr (rg_FaultDomain g)))"
  "map_get (sd_Attributes (migDevice rn g p)) AttrType = Some (string_attr DeviceTypeMIG)"
  by (simp_all add: device_def migDevice_def attr_defs)

lemma node_devices_domains:
  assumes "\<forall>g\<in>set (rn_GPUs x). rg_NVLinkDomain g = rn_NVLinkDomain x \<and> rg_FaultDomain g = rn_FaultDomain x"
    and "d \<in> set (node_devices x)"
  shows "map_get (sd_Attributes d) AttrNVLinkDomain =
      (if rn_NVLinkDomain x = [] then None else Some (string_attr (rn_NVLinkDomain x)))"
    "map_get (sd_Attributes d) AttrFaultDomain =
      (if rn_FaultDomain x = [] then None else Some (string_attr (rn_FaultDomain x)))"
  using assms by (auto simp: node_devices_def mig_devices_def device_attributes split: option.splits)

text \<open>
  C20. The three projections of a topology cannot disagree: for a resolved valid topology, a
  slice and the node it is bound to carry the same rack label, and every device of the slice
  publishes as attributes exactly the NVLink domain (present or absent) and the fault domain
  that the node carries as labels.
\<close>

theorem slices_agree_with_nodes:
  assumes "Validate ct = []" "loads load prof ct" "Resolve uuid load ct = Some (Inr r)"
    and "ResourceSlices r = Some ss" "s \<in> set ss" "n \<in> set (Nodes r)"
    and "ss_NodeName (sl_Spec s) = Some (kn_Name n)"
  shows "map_get (sl_Labels s) LabelRack = map_get (kn_Labels n) LabelRack \<and>
     (\<forall>d\<in>set (ss_Devices (sl_Spec s)).
        map_get (sd_Attributes d) AttrNVLinkDomain =
          map_option string_attr (map_get (kn_Labels n) LabelNVLinkDomain) \<and>
        map_get (sd_Attributes d) AttrFaultDomain =
          map_option string_attr (map_get (kn_Labels n) LabelFaultDomain))"
proof -
  have wf: "topology_wf ct" using assms(1) by (simp add: Validate_wf)
  have r: "r = resolved_view uuid prof ct" using Resolve_eq [OF wf assms(2)] assms(3) by simp
  obtain x where x: "x \<in> set (rs_Nodes r)" and s: "s \<in> set (node_slices (rs_Name r) x)"
    using assms(4,5) by (auto simp: ResourceSlices_eq)
  obtain y where y: "y \<in> set (rs_Nodes r)" and n: "n = node_object y (rs_Name r)"
    using assms(6) by (auto simp: Nodes_def)
  have "rn_Name x = rn_Name y"
    using assms(7) node_slices_pool [OF s] by (simp add: n node_labels)
  moreover have "distinct (map rn_Name (rs_Nodes r))"
    using distinct_placed_names [OF wf] by (simp add: r resolved_nodes comp_def split_beta)
  ultimately have n: "n = node_object x (rs_Name r)" using x y n by (metis distinct_map inj_onD)
  obtain k d where kd: "x = node_view uuid prof ct k d" using x by (auto simp: r resolved_nodes)
  have gpus: "\<forall>g\<in>set (rn_GPUs x). rg_NVLinkDomain g = rn_NVLinkDomain x \<and> rg_FaultDomain g = rn_FaultDomain x"
    using resolved_gpu_facts(1,2) [OF kd] by simp
  have devs: "set (ss_Devices (sl_Spec s)) \<subseteq> set (node_devices x)"
    using s by (auto simp flip: node_slices_devices [of "rs_Name r"])
  have "map_get (sl_Labels s) LabelRack = Some (rn_Rack x)"
    using node_slices_pool [OF s] by (simp add: slice_labels_def label_defs)
  then show ?thesis
    using devs node_devices_domains [OF gpus] resolved_names_nonempty(3) [OF wf x [unfolded r]]
    by (auto simp: n node_labels)
qed

theorem slices_agree_with_nodes_witness:
  "\<exists>r ss. Resolve (\<lambda>s. s) (\<lambda>_. Inr sample_profile) (demo_topology ''nvl'' []) = Some (Inr r) \<and>
     ResourceSlices r = Some ss \<and>
     (\<exists>s\<in>set ss. \<exists>n\<in>set (Nodes r). map_get (sl_Labels s) LabelRack = map_get (kn_Labels n) LabelRack)"
proof -
  let ?r = "resolved_view (\<lambda>s. s) (\<lambda>_. sample_profile) (demo_topology ''nvl'' [])"
  let ?x = "hd (rs_Nodes ?r)"
  have v: "Validate (demo_topology ''nvl'' []) = []" using demo_wf by (simp add: Validate_wf)
  have res: "Resolve (\<lambda>s. s) (\<lambda>_. Inr sample_profile) (demo_topology ''nvl'' []) = Some (Inr ?r)"
    by (rule Resolve_eq [OF demo_wf demo_loads])
  have x: "?x \<in> set (rs_Nodes ?r)" by (simp add: resolved_nodes placed_def demo_topology_def)
  then have n: "node_object ?x (rs_Name ?r) \<in> set (Nodes ?r)" by (simp add: Nodes_def)
  obtain s where s: "s \<in> set (node_slices (rs_Name ?r) ?x)"
    using node_slices_nonempty by (cases "node_slices (rs_Name ?r) ?x") auto
  with x have ss: "s \<in> set (concat (map (node_slices (rs_Name ?r)) (rs_Nodes ?r)))" by auto
  have "ss_NodeName (sl_Spec s) = Some (kn_Name (node_object ?x (rs_Name ?r)))"
    using node_slices_pool [OF s] by (simp add: node_labels)
  from slices_agree_with_nodes [OF v demo_loads res ResourceSlices_eq ss n this] res ss n ResourceSlices_eq
  show ?thesis by blast
qed

subsection \<open>Partition device names\<close>

lemma distinct_concat_mapD:
  "distinct (concat (map f xs)) \<Longrightarrow> \<forall>x\<in>set xs. f x \<noteq> [] \<Longrightarrow> distinct xs"
  by (induction xs) (auto, metis UN_I disjoint_iff last_in_set)

lemma SelectProfiles_distinct:
  assumes "GeometryFor k = Inr g" "SelectProfiles g names = Inr ps"
  shows "distinct names \<longleftrightarrow> distinct ps" "inj_on (strip_dots \<circ> mp_Name) (set ps)"
proof -
  note shape = geometries_shape [OF GeometryFor_Inr [OF assms(1)]]
  have all: "distinct (map (strip_dots \<circ> mp_Name) (geo_Profiles g))" using shape by simp
  have sub: "set ps \<subseteq> set (geo_Profiles g)" using SelectProfiles_mem [OF assms(2)] by auto
  with all show inj: "inj_on (strip_dots \<circ> mp_Name) (set ps)"
    by (auto simp: distinct_map intro: inj_on_subset)
  then have name: "inj_on mp_Name (set ps)" by (rule inj_on_imageI2)
  show "distinct names \<longleftrightarrow> distinct ps"
  proof (cases "names = []")
    case True
    with assms(2) all have "distinct ps" by (auto simp: SelectProfiles_def distinct_map)
    with True show ?thesis by simp
  next
    case False
    then have "list_all2 (\<lambda>n p. Lookup g n = Some p) names ps"
      using assms(2) by (simp add: SelectProfiles_def select_loop_Inr)
    then have "names = map mp_Name ps"
      by (induction rule: list_all2_induct) (auto dest: Lookup_Some)
    with name show ?thesis by (simp add: distinct_map)
  qed
qed

lemma table_slots: "GeometryFor k = Inr g \<Longrightarrow> p \<in> set (geo_Profiles g) \<Longrightarrow> slots g p \<noteq> 0"
  by (drule GeometryFor_Inr) (auto simp: geometry_table slots_def split: if_splits)

lemma mig_names_distinct_on_gpu:
  assumes "mig_view pool = Some m" "0 \<le> i"
  shows "distinct (map pt_DeviceName (concat (map (partitions_of (rm_Geometry m) i) (rm_Profiles m)))) \<longleftrightarrow>
         distinct (mig_names pool)"
proof
  note mv = mig_view_Some [OF assms(1)]
  note sel = SelectProfiles_distinct [OF mv(1,2)]
  show "distinct (mig_names pool) \<Longrightarrow>
      distinct (map pt_DeviceName (concat (map (partitions_of (rm_Geometry m) i) (rm_Profiles m))))"
    using sel by (intro distinct_partition_names [OF mv(5) _ assms(2)]) (simp add: distinct_map)
  assume "distinct (map pt_DeviceName (concat (map (partitions_of (rm_Geometry m) i) (rm_Profiles m))))"
  then have "distinct (concat (map (partitions_of (rm_Geometry m) i) (rm_Profiles m)))"
    by (simp only: distinct_map)
  moreover have "\<forall>p\<in>set (rm_Profiles m). partitions_of (rm_Geometry m) i p \<noteq> []"
    using table_slots [OF mv(1)] SelectProfiles_mem [OF mv(2)] length_partitions_of by (metis length_0_conv)
  ultimately show "distinct (mig_names pool)" using sel(1) by (simp add: distinct_concat_mapD)
qed

text \<open>
  C38. Partition device names are unique within a node exactly when the pool's \<open>mig.profiles\<close>
  names no profile twice. Validation accepts a list with a repetition, and then the slices of
  the node's pool hold two devices of one name.
\<close>

theorem partition_names_unique_iff:
  assumes "Validate ct = []" "loads load prof ct" "Resolve uuid load ct = Some (Inr r)"
    and "x \<in> set (rs_Nodes r)" "rn_MIG x \<noteq> None"
  shows "distinct (map pt_DeviceName (concat (map rg_Partitions (rn_GPUs x)))) \<longleftrightarrow>
         distinct (mig_names (pool_of ct (rn_Pool x)))"
proof -
  have wf: "topology_wf ct" using assms(1) by (simp add: Validate_wf)
  have r: "r = resolved_view uuid prof ct" using Resolve_eq [OF wf assms(2)] assms(3) by simp
  obtain p where p: "p \<in> set (placed ct)" and x: "x = node_view uuid prof ct (fst p) (snd p)"
    using assms(4) by (auto simp: r resolved_nodes)
  let ?pool = "pool_of ct (nd_Pool (snd p))"
  obtain m where m: "mig_view ?pool = Some m" "rn_MIG x = Some m" using assms(5) by (auto simp: x)
  have ok: "list_all profile_ok (rm_Profiles m)" by (rule mig_view_Some(5) [OF m(1)])
  let ?parts = "\<lambda>i. concat (map (partitions_of (rm_Geometry m) i) (rm_Profiles m))"
  have eq: "map rg_Partitions (rn_GPUs x) = map ?parts [0..node_count ct p - 1]"
    using m by (simp add: x node_view_def Let_def gpu_view_def comp_def)
  have "0 < node_count ct p" by (rule placed_wf(1) [OF wf p])
  then obtain zs where zs: "[0..node_count ct p - 1] = 0 # zs" by (simp add: upto.simps)
  have across: "pt_DeviceName a \<noteq> pt_DeviceName b"
    if "0 \<le> i" "0 \<le> j" "i \<noteq> j" "a \<in> set (?parts i)" "b \<in> set (?parts j)" for i j a b
    using that ok partition_name_inject [of a _ i _ b j] by (fastforce simp: list_all_iff)
  have many: "distinct (map pt_DeviceName (concat (map ?parts is)))"
    if "distinct (mig_names ?pool)" "distinct is" "\<forall>i\<in>set is. 0 \<le> i" for "is"
    using that(2,3)
  proof (induction "is")
    case (Cons i "is")
    have "distinct (map pt_DeviceName (?parts i))"
      using mig_names_distinct_on_gpu [OF m(1), of i] that(1) Cons.prems by simp
    moreover have "set (map pt_DeviceName (?parts i)) \<inter> set (map pt_DeviceName (concat (map ?parts is))) = {}"
    proof (rule ccontr)
      assume "set (map pt_DeviceName (?parts i)) \<inter> set (map pt_DeviceName (concat (map ?parts is))) \<noteq> {}"
      then obtain a b j where "a \<in> set (?parts i)" "j \<in> set is" "b \<in> set (?parts j)"
        "pt_DeviceName a = pt_DeviceName b" by auto
      with across [of i j a b] Cons.prems show False by auto
    qed
    ultimately show ?case using Cons by simp
  qed simp
  have pool: "rn_Pool x = nd_Pool (snd p)" by (simp add: x)
  show ?thesis
  proof
    assume "distinct (mig_names (pool_of ct (rn_Pool x)))"
    then show "distinct (map pt_DeviceName (concat (map rg_Partitions (rn_GPUs x))))"
      unfolding eq pool by (intro many) auto
  next
    assume "distinct (map pt_DeviceName (concat (map rg_Partitions (rn_GPUs x))))"
    then have "distinct (map pt_DeviceName (?parts 0))" unfolding eq zs by (simp add: distinct_map)
    then show "distinct (mig_names (pool_of ct (rn_Pool x)))"
      using mig_names_distinct_on_gpu [OF m(1), of 0] by (simp add: pool)
  qed
qed

theorem partition_names_unique_iff_witness:
  "\<exists>r x. Validate (demo_mig_topology [''1g.10gb'', ''1g.10gb'']) = [] \<and>
     Resolve (\<lambda>s. s) (\<lambda>_. Inr sample_profile) (demo_mig_topology [''1g.10gb'', ''1g.10gb'']) = Some (Inr r) \<and>
     x \<in> set (rs_Nodes r) \<and> \<not> distinct (map pt_DeviceName (concat (map rg_Partitions (rn_GPUs x))))"
proof -
  let ?ct = "demo_mig_topology [''1g.10gb'', ''1g.10gb'']"
  let ?r = "resolved_view (\<lambda>s. s) (\<lambda>_. sample_profile) ?ct"
  let ?x = "hd (rs_Nodes ?r)"
  have wf: "topology_wf ?ct" by (rule demo_mig_wf) simp
  then have v: "Validate ?ct = []" by (simp add: Validate_wf)
  have x: "?x \<in> set (rs_Nodes ?r)" and pool: "rn_Pool ?x = ''p''"
    and mig: "rn_MIG ?x = mig_view (pool_of ?ct ''p'')"
    by (simp_all add: resolved_nodes placed_def demo_mig_topology_def)
  have "(''p'', pool_of ?ct ''p'') \<in> set (pools ?ct)" by (simp add: demo_mig_topology_def pool_of_def)
  with wf have "pool_wf (pool_of ?ct ''p'')" by (auto simp: topology_wf_def)
  then have "mig_view (pool_of ?ct ''p'') \<noteq> None"
    by (auto simp: mig_view_def resolve_mig_def pool_wf_def pool_of_def demo_mig_topology_def MIGEnabled_def)
  then have "rn_MIG ?x \<noteq> None" by (simp add: mig)
  note iff = partition_names_unique_iff [OF v demo_mig_loads Resolve_eq [OF wf demo_mig_loads] x this]
  have "\<not> distinct (mig_names (pool_of ?ct ''p''))"
    by (simp add: mig_names_def pool_of_def demo_mig_topology_def)
  with iff pool x v Resolve_eq [OF wf demo_mig_loads] show ?thesis by metis
qed

subsection \<open>Memory capacity\<close>

lemma profileMemory_wrap:
  assumes "0 \<le> n" "n < 2 ^ 63"
  shows "profileMemory (s @ ''.'' @ itoa n @ ''gb'') = Some (sint (word_of_int (n * 2 ^ 30) :: 64 word))"
proof -
  have d: "list_all is_digit (itoa n)" using assms(1) itoa_nat_digits by (simp add: itoa_def)
  then have "\<forall>c\<in>set (rev (itoa n)). is_digit c" by (simp add: list_all_iff)
  then have "takeWhile is_digit (rev (itoa n) @ CHR ''.'' # rev s) = rev (itoa n)"
    "dropWhile is_digit (rev (itoa n) @ CHR ''.'' # rev s) = CHR ''.'' # rev s"
    by (simp_all add: takeWhile_append dropWhile_append is_digit_def)
  moreover have "itoa n \<noteq> []" "int (digits_value (itoa n)) = n" using assms(1) by (simp_all add: itoa_def)
  ultimately show ?thesis using assms by (simp add: profileMemory_def mult.assoc)
qed

text \<open>
  A partition's published memory is the one its profile's name states: for a name ending
  in a dot, a number below \<open>2 ^ 33\<close> and gb it is that many GiB, with no overflow of \<open>int64\<close>;
  every profile of the package's tables has such a name; and larger numbers wrap around,
  so that \<open>2 ^ 33\<close> gives a negative amount.
\<close>

theorem profileMemory_of_name:
  "(\<forall>s n. 0 \<le> n \<and> n < 2 ^ 33 \<longrightarrow> profileMemory (s @ ''.'' @ itoa n @ ''gb'') = Some (n * 2 ^ 30)) \<and>
   (\<forall>(k, g)\<in>set geometries. \<forall>p\<in>set (geo_Profiles g). profileMemory (mp_Name p) \<noteq> None) \<and>
   (\<forall>s. profileMemory (s @ ''.'' @ itoa (2 ^ 33) @ ''gb'') = Some (- (2 ^ 63)))"
proof (intro conjI allI impI)
  fix s and n :: int
  assume n: "0 \<le> n \<and> n < 2 ^ 33"
  then have "signed_take_bit 63 (n * 2 ^ 30) = n * 2 ^ 30"
    by (intro signed_take_bit_int_eq_self) auto
  then have "sint (word_of_int (n * 2 ^ 30) :: 64 word) = n * 2 ^ 30"
    unfolding sint_sbintrunc' by simp
  with n show "profileMemory (s @ ''.'' @ itoa n @ ''gb'') = Some (n * 2 ^ 30)"
    by (subst profileMemory_wrap) auto
next
  show "\<forall>(k, g)\<in>set geometries. \<forall>p\<in>set (geo_Profiles g). profileMemory (mp_Name p) \<noteq> None"
    by (simp add: geometry_table profileMemory_def is_digit_def digits_value_def digit_val_def)
next
  fix s
  show "profileMemory (s @ ''.'' @ itoa (2 ^ 33) @ ''gb'') = Some (- (2 ^ 63))"
    by (subst profileMemory_wrap) (simp_all)
qed

theorem profileMemory_of_name_witness:
  "profileMemory ''1g.10gb'' = Some 10737418240"
proof -
  have "profileMemory (''1g'' @ ''.'' @ itoa 10 @ ''gb'') = Some (10 * 2 ^ 30)"
    by (rule profileMemory_of_name [THEN conjunct1, rule_format]) simp
  then show ?thesis by (simp add: itoa_def itoa_nat.simps digit_char_def)
qed

end
