(* ===== verification/ClusterFragmentation.thy ===== *)
theory ClusterFragmentation
  imports GenerateSlices "HOL-Library.Product_Lexorder"
begin

text \<open>
  internal/cluster/fragmentation.go: the MIG picture of a cluster read back from what was
  published. What the API server returns are parameters: the managed ResourceSlices and the
  resource claims, or an error. Go does not fix the order in which a map is visited; where
  the code does not sort afterwards that order is a parameter too (\<open>rc\<close> for counter maps,
  \<open>rp\<close> for the map of profiles), of which only \<open>reorders\<close> is assumed.
\<close>

subsection \<open>Data\<close>

record device_result =
  dr_Request :: string
  dr_Driver :: string
  dr_Pool :: string
  dr_Device :: string

record owner_ref =
  ow_Kind :: string
  ow_Name :: string
  ow_UID :: string

record resource_claim =
  cl_Name :: string
  cl_Owners :: "owner_ref list"
  cl_Allocation :: "device_result list option"

record published_partition =
  pp_name :: string
  pp_profile :: mig_profile
  pp_memorySlices :: "int list"

record node_state =
  ns_counterSets :: "(int \<times> geometry) list"
  ns_devices :: "(int \<times> published_partition list) list"

record node_fragmentation =
  nf_Node :: string
  nf_GPUs :: "report list"

datatype fragmentation_error =
    ListingSlices string
  | ListingClaims string

type_synonym counter_order = "(string \<times> int) list \<Rightarrow> (string \<times> int) list"
type_synonym profile_order = "(string \<times> mig_profile) list \<Rightarrow> (string \<times> mig_profile) list"

definition reorders :: "('a list \<Rightarrow> 'a list) \<Rightarrow> bool" where
  "reorders f \<longleftrightarrow> (\<forall>xs. mset (f xs) = mset xs)"

subsection \<open>Operations\<close>

definition gpuIndexFromCounterSet :: "string \<Rightarrow> int option" where
  "gpuIndexFromCounterSet name = (case cut_prefix ''gpu-'' name of None \<Rightarrow> None | Some rest \<Rightarrow> atoi rest)"

definition memorySliceIndex :: "string \<Rightarrow> int option" where
  "memorySliceIndex counter = (case cut_prefix ''memory-slice-'' counter of None \<Rightarrow> None | Some rest \<Rightarrow> atoi rest)"

definition newNodeState :: node_state where
  "newNodeState = \<lparr>ns_counterSets = [], ns_devices = []\<rparr>"

definition nodeTotalLost :: "node_fragmentation \<Rightarrow> int" where
  "nodeTotalLost n = sum_list (map TotalLost (nf_GPUs n))"

text \<open>The loop over a counter set: the capacity of one GPU.\<close>

definition read_geometry :: "counter_order \<Rightarrow> (string \<times> int) list \<Rightarrow> geometry" where
  "read_geometry rc counters =
     fold (\<lambda>(name, counter) g.
         if name = SMSliceCounter then g\<lparr>geo_SMSlices := counter\<rparr>
         else if memorySliceIndex name \<noteq> None then g\<lparr>geo_MemorySlices := geo_MemorySlices g + 1\<rparr>
         else g)
       (rc counters) \<lparr>geo_MemorySlices = 0, geo_SMSlices = 0, geo_Profiles = []\<rparr>"

text \<open>The loop over what a device consumes, the sort, and the profile name.\<close>

definition read_consumption :: "counter_order \<Rightarrow> (string \<times> int) list \<Rightarrow> int list \<times> int" where
  "read_consumption rc counters =
     fold (\<lambda>(name, counter) (slices, sm).
         if name = SMSliceCounter then (slices, counter)
         else (case memorySliceIndex name of Some slot \<Rightarrow> (slices @ [slot], sm) | None \<Rightarrow> (slices, sm)))
       (rc counters) ([], 0)"

definition read_partition :: "counter_order \<Rightarrow> slice_device \<Rightarrow> counter_consumption \<Rightarrow> published_partition" where
  "read_partition rc d consumption =
     (let (slices, sm) = read_consumption rc (cc_Counters consumption);
          memory = sort slices;
          name = (case map_get (sd_Attributes d) AttrProfile of
                    Some attr \<Rightarrow> (case da_String attr of Some s \<Rightarrow> s | None \<Rightarrow> [])
                  | None \<Rightarrow> [])
      in \<lparr>pp_name = sd_Name d,
          pp_profile = \<lparr>mp_Name = name, mp_MemorySlices = int (length memory), mp_SMSlices = sm\<rparr>,
          pp_memorySlices = memory\<rparr>)"

definition absorb_set :: "counter_order \<Rightarrow> counter_set \<Rightarrow> (int \<times> geometry) list \<Rightarrow> (int \<times> geometry) list" where
  "absorb_set rc cs m =
     (case gpuIndexFromCounterSet (cs_Name cs) of None \<Rightarrow> m
      | Some index \<Rightarrow> map_put index (read_geometry rc (cs_Counters cs)) m)"

definition devices_at :: "(int \<times> published_partition list) list \<Rightarrow> int \<Rightarrow> published_partition list" where
  "devices_at m i = (case map_get m i of None \<Rightarrow> [] | Some l \<Rightarrow> l)"

definition absorb_device ::
    "counter_order \<Rightarrow> slice_device \<Rightarrow> (int \<times> published_partition list) list \<Rightarrow> (int \<times> published_partition list) list" where
  "absorb_device rc d m =
     (case sd_ConsumesCounters d of [] \<Rightarrow> m
      | consumption # _ \<Rightarrow>
          (case gpuIndexFromCounterSet (cc_CounterSet consumption) of None \<Rightarrow> m
           | Some index \<Rightarrow> map_put index (devices_at m index @ [read_partition rc d consumption]) m))"

definition absorb :: "counter_order \<Rightarrow> resource_slice \<Rightarrow> node_state \<Rightarrow> node_state" where
  "absorb rc s st =
     \<lparr>ns_counterSets = fold (absorb_set rc) (ss_SharedCounters (sl_Spec s)) (ns_counterSets st),
      ns_devices = fold (absorb_device rc) (ss_Devices (sl_Spec s)) (ns_devices st)\<rparr>"

definition distinctProfiles :: "profile_order \<Rightarrow> published_partition list \<Rightarrow> mig_profile list" where
  "distinctProfiles rp partitions =
     (let seen = fold (\<lambda>p m. if mp_Name (pp_profile p) \<noteq> [] then map_put (mp_Name (pp_profile p)) (pp_profile p) m else m)
                   partitions []
      in sort_key (\<lambda>p. (mp_MemorySlices p, mp_SMSlices p)) (map snd (rp seen)))"

definition allocated_state :: "(string \<times> bool) list \<Rightarrow> published_partition list \<Rightarrow> gpu_state" where
  "allocated_state allocated partitions =
     fold (\<lambda>p s. if map_get allocated (pp_name p) \<noteq> Some True then s
                 else s\<lparr>st_UsedMemorySlices := fold (\<lambda>slot. map_put slot True) (pp_memorySlices p) (st_UsedMemorySlices s),
                        st_UsedSMSlices := st_UsedSMSlices s + mp_SMSlices (pp_profile p)\<rparr>)
       partitions \<lparr>st_UsedMemorySlices = [], st_UsedSMSlices = 0\<rparr>"

definition analyse :: "profile_order \<Rightarrow> (string \<times> bool) list \<Rightarrow> node_state \<Rightarrow> report list option" where
  "analyse rp allocated st =
     collect (\<lambda>index. do {
         g \<leftarrow> map_get (ns_counterSets st) index;
         let partitions = devices_at (ns_devices st) index;
         let profiles = distinctProfiles rp partitions;
         Analyse (g\<lparr>geo_Profiles := profiles\<rparr>) profiles index (allocated_state allocated partitions) })
       (sort (map_keys (ns_counterSets st)))"

definition allocatedDeviceNames :: "resource_claim list \<Rightarrow> (string \<times> bool) list" where
  "allocatedDeviceNames claims =
     fold (\<lambda>claim m. case cl_Allocation claim of None \<Rightarrow> m
             | Some results \<Rightarrow> fold (\<lambda>result. map_put (dr_Device result) True) results m)
       claims []"

definition by_node :: "counter_order \<Rightarrow> resource_slice list \<Rightarrow> (string \<times> node_state) list" where
  "by_node rc slices =
     fold (\<lambda>slice m. case ss_NodeName (sl_Spec slice) of None \<Rightarrow> m
             | Some node \<Rightarrow>
                 map_put node (absorb rc slice (case map_get m node of None \<Rightarrow> newNodeState | Some st \<Rightarrow> st)) m)
       slices []"

definition Fragmentation ::
    "counter_order \<Rightarrow> profile_order \<Rightarrow> string + resource_slice list \<Rightarrow> string + resource_claim list \<Rightarrow>
     (fragmentation_error + node_fragmentation list) option" where
  "Fragmentation rc rp slices claims =
     (case slices of Inl e \<Rightarrow> Some (Inl (ListingSlices e))
      | Inr items \<Rightarrow>
          (case claims of Inl e \<Rightarrow> Some (Inl (ListingClaims e))
           | Inr cs \<Rightarrow>
               (let allocated = allocatedDeviceNames cs; byNode = by_node rc items
                in map_option Inr (collect
                     (\<lambda>node. do {
                        st \<leftarrow> map_get byNode node;
                        gpus \<leftarrow> analyse rp allocated st;
                        Some \<lparr>nf_Node = node, nf_GPUs = gpus\<rparr> })
                     (sort (filter (\<lambda>node. case map_get byNode node of
                                              Some st \<Rightarrow> ns_counterSets st \<noteq> [] | None \<Rightarrow> False)
                            (map_keys byNode)))))))"

subsection \<open>Reading names back\<close>

interpretation counter_set_name: readable_name CounterSetName gpuIndexFromCounterSet int64
proof
  fix i :: int
  assume "int64 i"
  then show "gpuIndexFromCounterSet (CounterSetName i) = Some i"
    unfolding gpuIndexFromCounterSet_def CounterSetName_def cut_prefix_append by (simp add: atoi_itoa)
qed

interpretation memory_slice_name: readable_name MemorySliceCounter memorySliceIndex int64
proof
  fix i :: int
  assume "int64 i"
  then show "memorySliceIndex (MemorySliceCounter i) = Some i"
    unfolding memorySliceIndex_def MemorySliceCounter_def cut_prefix_append by (simp add: atoi_itoa)
qed

lemma memorySliceIndex_SM [simp]: "memorySliceIndex SMSliceCounter = None"
  by (simp add: memorySliceIndex_def SMSliceCounter_def)

lemma reorders_set: "reorders f \<Longrightarrow> set (f xs) = set xs"
  unfolding reorders_def by (metis set_mset_mset)

lemma reorders_distinct: "reorders f \<Longrightarrow> distinct (map g (f xs)) \<longleftrightarrow> distinct (map g xs)"
  unfolding reorders_def by (metis mset_map mset_eq_imp_distinct_iff)

subsection \<open>Reading one counter map\<close>

abbreviation slots_read :: "(string \<times> int) list \<Rightarrow> int list" where
  "slots_read cs \<equiv> List.map_filter (\<lambda>(k, v). if k = SMSliceCounter then None else memorySliceIndex k) cs"

abbreviation sm_read :: "(string \<times> int) list \<Rightarrow> int \<Rightarrow> int" where
  "sm_read cs sm \<equiv> fold (\<lambda>(k, v) sm. if k = SMSliceCounter then v else sm) cs sm"

lemma read_consumption_loop:
  "fold (\<lambda>(name, counter) (slices, sm).
         if name = SMSliceCounter then (slices, counter)
         else (case memorySliceIndex name of Some slot \<Rightarrow> (slices @ [slot], sm) | None \<Rightarrow> (slices, sm)))
     cs (slices, sm) = (slices @ slots_read cs, sm_read cs sm)"
  by (induction cs arbitrary: slices sm) (auto simp: List.map_filter_simps split: option.splits if_splits)

lemma read_geometry_loop:
  "fold (\<lambda>(name, counter) g.
         if name = SMSliceCounter then g\<lparr>geo_SMSlices := counter\<rparr>
         else if memorySliceIndex name \<noteq> None then g\<lparr>geo_MemorySlices := geo_MemorySlices g + 1\<rparr>
         else g) cs g =
   g\<lparr>geo_MemorySlices := geo_MemorySlices g + int (length (slots_read cs)), geo_SMSlices := sm_read cs (geo_SMSlices g)\<rparr>"
  by (induction cs arbitrary: g) (auto simp: List.map_filter_simps split: option.splits if_splits)

lemma sm_read_eq:
  "distinct (map fst cs) \<Longrightarrow>
     sm_read cs sm = (case map_of cs SMSliceCounter of Some v \<Rightarrow> v | None \<Rightarrow> sm)"
proof (induction cs arbitrary: sm)
  case (Cons c cs)
  have "sm_read cs v = v" if "SMSliceCounter \<notin> fst ` set cs" for v
    using that by (induction cs) auto
  then show ?case using Cons by (cases c) (auto split: option.split)
qed simp

lemma mem_slots_read:
  "i \<in> set (slots_read cs) \<longleftrightarrow> (\<exists>k\<in>fst ` set cs. k \<noteq> SMSliceCounter \<and> memorySliceIndex k = Some i)"
  by (induction cs) (auto simp: List.map_filter_simps split: option.splits if_splits)

lemma set_slots_read:
  assumes "fst ` set cs = insert SMSliceCounter (MemorySliceCounter ` A)" "\<forall>i\<in>A. int64 i"
  shows "set (slots_read cs) = A"
proof -
  have "set (slots_read cs) = {i. \<exists>k\<in>fst ` set cs. k \<noteq> SMSliceCounter \<and> memorySliceIndex k = Some i}"
    unfolding mem_slots_read [symmetric] by simp
  also have "\<dots> = A" using assms(2) unfolding assms(1)
    by (auto simp: memory_slice_name.parse_print)
  finally show ?thesis .
qed

lemma distinct_slots_read:
  assumes "distinct (map fst cs)" "fst ` set cs \<subseteq> insert SMSliceCounter (MemorySliceCounter ` A)" "\<forall>i\<in>A. int64 i"
  shows "distinct (slots_read cs)"
  using assms(1,2)
proof (induction cs)
  case (Cons c cs)
  obtain k v where c: "c = (k, v)" by (cases c)
  show ?case
  proof (cases "k = SMSliceCounter")
    case True
    with Cons show ?thesis by (simp add: c List.map_filter_simps)
  next
    case False
    then obtain i where i: "i \<in> A" "k = MemorySliceCounter i" using Cons.prems(2) by (auto simp: c)
    have "i \<notin> set (slots_read cs)"
    proof
      assume "i \<in> set (slots_read cs)"
      then obtain k' v' where k': "(k', v') \<in> set cs" "k' \<noteq> SMSliceCounter" "memorySliceIndex k' = Some i"
        unfolding mem_slots_read by auto
      then obtain j where "j \<in> A" "k' = MemorySliceCounter j" using Cons.prems(2) by force
      with k' i assms(3) have "k' = k" by (auto simp: memory_slice_name.parse_print)
      with k'(1) Cons.prems(1) show False by (force simp: c)
    qed
    with Cons i assms(3) False show ?thesis
      by (simp add: c List.map_filter_simps memory_slice_name.parse_print)
  qed
qed (simp add: List.map_filter_simps)

text \<open>What is read from the counters of a list of slices, in whatever order they come.\<close>

lemma distinct_slice_counters: "distinct (map fst (slice_counters is sm))"
proof -
  have "distinct (map fst (fold (\<lambda>i. map_put (MemorySliceCounter i) (1::int)) is m))"
    if "distinct (map fst m)" for m
    using that by (induction "is" arbitrary: m) (auto simp: distinct_update)
  then show ?thesis by (simp add: slice_counters_def distinct_update)
qed

lemma read_slice_counters:
  assumes "reorders rc" "\<forall>i\<in>set is. int64 i"
  shows "sort (slots_read (rc (slice_counters is sm))) = sorted_list_of_set (set is)"
    and "sm_read (rc (slice_counters is sm)) z = sm"
proof -
  let ?cs = "rc (slice_counters is sm)"
  have keys: "fst ` set ?cs = insert SMSliceCounter (MemorySliceCounter ` set is)"
    using keys_slice_counters [of "is" sm] by (simp add: reorders_set [OF assms(1)])
  have dist: "distinct (map fst ?cs)"
    by (simp add: reorders_distinct [OF assms(1)] distinct_slice_counters)
  have "distinct (slots_read ?cs)"
    by (rule distinct_slots_read [OF dist _ assms(2)]) (simp only: keys subset_refl)
  then show "sort (slots_read ?cs) = sorted_list_of_set (set is)"
    using set_slots_read [OF keys assms(2)] by (metis sorted_list_of_set_sort_remdups distinct_remdups_id)
  have "(SMSliceCounter, sm) \<in> set ?cs"
    unfolding reorders_set [OF assms(1)] by (rule map_of_SomeD) (simp add: get_slice_counters)
  then have "map_of ?cs SMSliceCounter = Some sm" by (rule map_of_is_SomeI [OF dist])
  then show "sm_read ?cs z = sm" using sm_read_eq [OF dist] by simp
qed

lemma MemorySlices_sorted: "sorted_list_of_set (set (MemorySlices p)) = MemorySlices p"
proof -
  have "sorted (MemorySlices p)" by (simp add: MemorySlices_def sorted_iff_nth_mono)
  then show ?thesis using distinct_MemorySlices by (simp add: sorted_list_of_set.idem_if_sorted_distinct)
qed

lemma read_partition_migDevice:
  assumes "reorders rc" "\<forall>i\<in>set (MemorySlices p). int64 i" "0 \<le> mp_MemorySlices (pt_Profile p)"
    and "cc \<in> set (sd_ConsumesCounters (migDevice rn g p))"
  shows "read_partition rc (migDevice rn g p) cc =
    \<lparr>pp_name = pt_DeviceName p, pp_profile = pt_Profile p, pp_memorySlices = MemorySlices p\<rparr>"
proof -
  have cc: "cc_Counters cc = slice_counters (MemorySlices p) (mp_SMSlices (pt_Profile p))"
    using assms(4) by (simp add: migDevice_def)
  have attr: "map_get (sd_Attributes (migDevice rn g p)) AttrProfile = Some (string_attr (mp_Name (pt_Profile p)))"
    by (simp add: migDevice_def attr_defs)
  have "int (length (MemorySlices p)) = mp_MemorySlices (pt_Profile p)"
    using assms(3) by (simp add: MemorySlices_def)
  moreover have "length (slots_read (rc (slice_counters (MemorySlices p) sm))) = length (MemorySlices p)" for sm
    using arg_cong [OF read_slice_counters(1) [OF assms(1,2)], of length] by (simp add: MemorySlices_sorted)
  ultimately show ?thesis
    unfolding read_partition_def read_consumption_def read_consumption_loop Let_def cc attr
    by (simp add: read_slice_counters [OF assms(1,2)] MemorySlices_sorted string_attr_def)
      (simp add: migDevice_def)
qed

lemma read_geometry_counterSetFor:
  assumes "reorders rc" "int64 (geo_MemorySlices g)" "0 \<le> geo_MemorySlices g"
  shows "read_geometry rc (cs_Counters (counterSetFor g i)) = g\<lparr>geo_Profiles := []\<rparr>"
proof -
  let ?is = "[0..geo_MemorySlices g - 1]"
  have i: "\<forall>i\<in>set ?is. int64 i" using assms(2) by auto
  note read = read_slice_counters [OF assms(1) i]
  have "length (slots_read (rc (slice_counters ?is sm))) = nat (geo_MemorySlices g)" for sm
    using arg_cong [OF read(1), of length] by simp
  then show ?thesis using assms(3)
    by (simp add: read_geometry_def read_geometry_loop read(2) counterSetFor_def)
qed

subsection \<open>What one node's slices leave behind\<close>

definition device_index :: "slice_device \<Rightarrow> int option" where
  "device_index d = (case sd_ConsumesCounters d of [] \<Rightarrow> None | cc # _ \<Rightarrow> gpuIndexFromCounterSet (cc_CounterSet cc))"

definition read_device :: "counter_order \<Rightarrow> slice_device \<Rightarrow> published_partition" where
  "read_device rc d = read_partition rc d (hd (sd_ConsumesCounters d))"

lemma absorb_devices:
  "devices_at (fold (absorb_device rc) ds m) i =
     devices_at m i @ map (read_device rc) (filter (\<lambda>d. device_index d = Some i) ds)"
  by (induction ds arbitrary: m)
    (auto simp: absorb_device_def device_index_def read_device_def devices_at_def update_conv'
      split: list.split option.split)

lemma fold_absorb:
  "fold (absorb rc) ss st =
     \<lparr>ns_counterSets = fold (absorb_set rc) (concat (map (ss_SharedCounters \<circ> sl_Spec) ss)) (ns_counterSets st),
      ns_devices = fold (absorb_device rc) (concat (map (ss_Devices \<circ> sl_Spec) ss)) (ns_devices st)\<rparr>"
  by (induction ss arbitrary: st) (simp_all add: absorb_def)

lemma absorb_sets:
  assumes "\<forall>i\<in>set is. int64 i" "distinct is"
  shows "map_get (fold (absorb_set rc) (map (counterSetFor g) is) m) i =
      (if i \<in> set is then Some (read_geometry rc (cs_Counters (counterSetFor g i))) else map_get m i)"
    and "set (map_keys (fold (absorb_set rc) (map (counterSetFor g) is) m)) = set is \<union> set (map_keys m)"
    and "distinct (map_keys m) \<Longrightarrow> distinct (map_keys (fold (absorb_set rc) (map (counterSetFor g) is) m))"
proof -
  have step: "absorb_set rc (counterSetFor g i) m = map_put i (read_geometry rc (cs_Counters (counterSetFor g i))) m"
    if "int64 i" for i m
    using counter_set_name.parse_print [OF that] by (simp add: absorb_set_def counterSetFor_def)
  show "map_get (fold (absorb_set rc) (map (counterSetFor g) is) m) i =
      (if i \<in> set is then Some (read_geometry rc (cs_Counters (counterSetFor g i))) else map_get m i)"
    using assms by (induction "is" arbitrary: m) (auto simp: step update_conv')
  show "set (map_keys (fold (absorb_set rc) (map (counterSetFor g) is) m)) = set is \<union> set (map_keys m)"
    using assms by (induction "is" arbitrary: m) (auto simp: step)
  show "distinct (map_keys m) \<Longrightarrow> distinct (map_keys (fold (absorb_set rc) (map (counterSetFor g) is) m))"
    using assms by (induction "is" arbitrary: m) (auto simp: step distinct_update)
qed

lemma by_node_eq:
  assumes "\<forall>s\<in>set ss. ss_NodeName (sl_Spec s) \<noteq> None"
  shows "map_get (by_node rc ss) n =
      (if \<exists>s\<in>set ss. ss_NodeName (sl_Spec s) = Some n
       then Some (fold (absorb rc) (filter (\<lambda>s. ss_NodeName (sl_Spec s) = Some n) ss) newNodeState) else None)"
    and "set (map_keys (by_node rc ss)) = {n. \<exists>s\<in>set ss. ss_NodeName (sl_Spec s) = Some n}"
    and "distinct (map_keys (by_node rc ss))"
proof -
  let ?key = "\<lambda>s. the (ss_NodeName (sl_Spec s))"
  let ?f = "\<lambda>s e. absorb rc s (case e of None \<Rightarrow> newNodeState | Some st \<Rightarrow> st)"
  have eq: "by_node rc ss = fold (\<lambda>s m. map_put (?key s) (?f s (map_get m (?key s))) m) ss []"
    unfolding by_node_def using assms by (intro fold_cong refl ext) (auto split: option.split)
  have key: "?key s = n \<longleftrightarrow> ss_NodeName (sl_Spec s) = Some n" if "s \<in> set ss" for s
    using assms that by auto
  have some: "fold (\<lambda>x e. Some (?f x e)) xs (Some a) = Some (fold (absorb rc) xs a)" for xs a
    by (induction xs arbitrary: a) auto
  have none: "fold (\<lambda>x e. Some (?f x e)) xs None = (if xs = [] then None else Some (fold (absorb rc) xs newNodeState))" for xs
    by (cases xs) (simp_all add: some)
  have "map_get (by_node rc ss) n = fold (\<lambda>x e. Some (?f x e)) (filter (\<lambda>s. ?key s = n) ss) None"
    unfolding eq using gm.get_group [where m = "[]" and key = ?key and f = ?f] by simp
  also have "filter (\<lambda>s. ?key s = n) ss = filter (\<lambda>s. ss_NodeName (sl_Spec s) = Some n) ss"
    using key by (intro filter_cong) auto
  finally show "map_get (by_node rc ss) n =
      (if \<exists>s\<in>set ss. ss_NodeName (sl_Spec s) = Some n
       then Some (fold (absorb rc) (filter (\<lambda>s. ss_NodeName (sl_Spec s) = Some n) ss) newNodeState) else None)"
    by (auto simp: none filter_empty_conv)
  have "dom (map_get (by_node rc ss)) = ?key ` set ss"
    unfolding eq using gm.dom_group [where m = "[]" and key = ?key and f = ?f] by simp
  moreover have "?key ` set ss = {n. \<exists>s\<in>set ss. ss_NodeName (sl_Spec s) = Some n}"
    using assms by force
  ultimately show "set (map_keys (by_node rc ss)) = {n. \<exists>s\<in>set ss. ss_NodeName (sl_Spec s) = Some n}"
    by (simp add: dom_map_of_conv_image_fst)
  show "distinct (map_keys (by_node rc ss))" unfolding eq using gm.invar_group [where m = "[]" and key = ?key and f = ?f] by simp
qed

subsection \<open>The report depends on the allocated set only\<close>

lemma Analyse_same_state:
  assumes "state_ok s" "state_ok s'" "used s = used s'" "st_UsedSMSlices s = st_UsedSMSlices s'"
  shows "Analyse g ps i s = Analyse g ps i s'"
proof -
  have len: "length (st_UsedMemorySlices s) = length (st_UsedMemorySlices s')"
    using assms by (simp flip: card_used)
  have "(map_get (st_UsedMemorySlices s) k \<noteq> Some True) = (map_get (st_UsedMemorySlices s') k \<noteq> Some True)" for k
    using assms(3) by (auto simp: used_def set_eq_iff)
  then have "placementIsFree s = placementIsFree s'" by (simp add: placementIsFree_def fun_eq_iff)
  then have "profile_fit_of g s = profile_fit_of g s'" by (simp add: profile_fit_of_def fun_eq_iff)
  then show ?thesis using assms(4) len by (simp add: Analyse_def)
qed

lemma Analyse_profiles_irrelevant [simp]: "Analyse (g\<lparr>geo_Profiles := x\<rparr>) ps i s = Analyse g ps i s"
  by (simp add: Analyse_def profile_fit_of_def [abs_def] Placements_def)

lemma allocated_state_loop:
  assumes "state_ok s"
  shows "state_ok (fold (\<lambda>p s. if map_get allocated (pp_name p) \<noteq> Some True then s
                 else s\<lparr>st_UsedMemorySlices := fold (\<lambda>slot. map_put slot True) (pp_memorySlices p) (st_UsedMemorySlices s),
                        st_UsedSMSlices := st_UsedSMSlices s + mp_SMSlices (pp_profile p)\<rparr>) ps s) \<and>
     used (fold (\<lambda>p s. if map_get allocated (pp_name p) \<noteq> Some True then s
                 else s\<lparr>st_UsedMemorySlices := fold (\<lambda>slot. map_put slot True) (pp_memorySlices p) (st_UsedMemorySlices s),
                        st_UsedSMSlices := st_UsedSMSlices s + mp_SMSlices (pp_profile p)\<rparr>) ps s) =
       used s \<union> (\<Union>p\<in>{p\<in>set ps. map_get allocated (pp_name p) = Some True}. set (pp_memorySlices p)) \<and>
     st_UsedSMSlices (fold (\<lambda>p s. if map_get allocated (pp_name p) \<noteq> Some True then s
                 else s\<lparr>st_UsedMemorySlices := fold (\<lambda>slot. map_put slot True) (pp_memorySlices p) (st_UsedMemorySlices s),
                        st_UsedSMSlices := st_UsedSMSlices s + mp_SMSlices (pp_profile p)\<rparr>) ps s) =
       st_UsedSMSlices s + sum_list (map (mp_SMSlices \<circ> pp_profile) (filter (\<lambda>p. map_get allocated (pp_name p) = Some True) ps))"
  using assms
proof (induction ps arbitrary: s)
  case (Cons p ps)
  let ?s = "s\<lparr>st_UsedMemorySlices := fold (\<lambda>slot. map_put slot True) (pp_memorySlices p) (st_UsedMemorySlices s),
                        st_UsedSMSlices := st_UsedSMSlices s + mp_SMSlices (pp_profile p)\<rparr>"
  note put = put_all_True [of "st_UsedMemorySlices s" "pp_memorySlices p"]
  have ok: "state_ok ?s" using Cons.prems put by (simp add: state_ok_def)
  have "used ?s = used s \<union> set (pp_memorySlices p)"
    unfolding used_keys [OF ok] used_keys [OF Cons.prems] using Cons.prems put by (simp add: state_ok_def)
  then show ?case using Cons.IH [OF Cons.prems] Cons.IH [OF ok] by (auto simp: Un_assoc)
qed simp

lemma allocated_state:
  "state_ok (allocated_state allocated ps)"
  "used (allocated_state allocated ps) =
     (\<Union>p\<in>{p\<in>set ps. map_get allocated (pp_name p) = Some True}. set (pp_memorySlices p))"
  "st_UsedSMSlices (allocated_state allocated ps) =
     sum_list (map (mp_SMSlices \<circ> pp_profile) (filter (\<lambda>p. map_get allocated (pp_name p) = Some True) ps))"
  using allocated_state_loop [OF state_ok_empty [of 0], of allocated ps]
  by (simp_all add: allocated_state_def used_def)

subsection \<open>The profiles read back\<close>

lemma seen_profiles:
  assumes "\<forall>p\<in>set ps. mp_Name (pp_profile p) \<noteq> []" "inj_on mp_Name (pp_profile ` set ps)"
  defines "seen \<equiv> fold (\<lambda>p m. if mp_Name (pp_profile p) \<noteq> [] then map_put (mp_Name (pp_profile p)) (pp_profile p) m else m) ps []"
  shows "snd ` set seen = pp_profile ` set ps" "distinct (map snd seen)"
proof -
  have eq: "seen = fold (\<lambda>p m. map_put (mp_Name (pp_profile p)) (pp_profile p) m) ps []"
    unfolding seen_def using assms(1) by (intro fold_cong refl ext) auto
  have dist: "distinct (map fst (fold (\<lambda>p m. map_put (mp_Name (pp_profile p)) (pp_profile p) m) qs m))"
    if "distinct (map fst m)" for qs and m :: "(string \<times> mig_profile) list"
    using that by (induction qs arbitrary: m) (auto simp: distinct_update)
  have get: "map_get (fold (\<lambda>p m. map_put (mp_Name (pp_profile p)) (pp_profile p) m) qs m) k = Some q"
    if "set qs \<subseteq> set ps" "map_get m k = Some q \<or> (\<exists>p\<in>set qs. mp_Name (pp_profile p) = k)"
      "q \<in> pp_profile ` set ps" "mp_Name q = k" for qs m k q
    using that(1,2)
  proof (induction qs arbitrary: m)
    case (Cons p qs)
    have "pp_profile p = q" if "mp_Name (pp_profile p) = k"
      using inj_onD [OF assms(2), of "pp_profile p" q] that Cons.prems(1) \<open>q \<in> _\<close> \<open>mp_Name q = k\<close> by auto
    with Cons show ?case by (auto simp: update_conv')
  qed simp
  have only: "q \<in> pp_profile ` set ps \<and> mp_Name q = k" if "(k, q) \<in> set seen" for k q
  proof -
    have "(k, q) \<in> set (fold (\<lambda>p m. map_put (mp_Name (pp_profile p)) (pp_profile p) m) qs m) \<Longrightarrow>
        (k, q) \<in> set m \<or> q \<in> pp_profile ` set qs \<and> mp_Name q = k" for qs and m :: "(string \<times> mig_profile) list"
      by (induction qs arbitrary: m) (auto dest!: map_put_entry)
    from this [of ps "[]"] that show ?thesis by (auto simp: eq)
  qed
  have all: "(mp_Name q, q) \<in> set seen" if "q \<in> pp_profile ` set ps" for q
    using get [of ps "[]" "mp_Name q" q] that unfolding eq by (auto intro: map_of_SomeD)
  show "snd ` set seen = pp_profile ` set ps" using only all by force
  have "inj_on snd (set seen)" by (rule inj_onI) (metis only prod.collapse)
  moreover have "distinct seen" using dist [of "[]" ps] by (simp add: eq distinct_map)
  ultimately show "distinct (map snd seen)" by (simp add: distinct_map)
qed

definition table_profiles :: "resolved_mig \<Rightarrow> mig_profile list" where
  "table_profiles m = filter (\<lambda>p. p \<in> set (rm_Profiles m)) (geo_Profiles (rm_Geometry m))"

lemma table_keys:
  assumes "GeometryFor k = Inr g"
  shows "map (\<lambda>p. (mp_MemorySlices p, mp_SMSlices p)) (geo_Profiles g) = [(1, 1), (2, 1), (2, 2), (4, 3), (4, 4), (8, 7)]"
proof -
  have "map (\<lambda>p. (mp_MemorySlices p, mp_SMSlices p)) (geo_Profiles g) =
      map (\<lambda>p. (mp_MemorySlices p, mp_SMSlices p)) (map (mp_Name_update (\<lambda>_. [])) (geo_Profiles g))"
    by simp
  also have "\<dots> = [(1, 1), (2, 1), (2, 2), (4, 3), (4, 4), (8, 7)]"
    unfolding geometries_shape [OF GeometryFor_Inr [OF assms], THEN conjunct2, THEN conjunct2, THEN conjunct1]
    by (simp add: datacenterShape_def shape_def)
  finally show ?thesis .
qed

lemma distinctProfiles_table:
  assumes "mig_view pool = Some m" "reorders rp" "pp_profile ` set ps = set (rm_Profiles m)"
  shows "distinctProfiles rp ps = table_profiles m"
proof -
  let ?key = "\<lambda>p. (mp_MemorySlices p, mp_SMSlices p)"
  let ?seen = "fold (\<lambda>p m. if mp_Name (pp_profile p) \<noteq> [] then map_put (mp_Name (pp_profile p)) (pp_profile p) m else m) ps []"
  note mv = mig_view_Some [OF assms(1)]
  note shape = geometries_shape [OF GeometryFor_Inr [OF mv(1)]]
  have sub: "set (rm_Profiles m) \<subseteq> set (geo_Profiles (rm_Geometry m))" using SelectProfiles_mem [OF mv(2)] by auto
  have names: "\<forall>p\<in>set ps. mp_Name (pp_profile p) \<noteq> []" using sub shape assms(3) by auto
  have "inj_on mp_Name (set (rm_Profiles m))"
    using SelectProfiles_distinct(2) [OF mv(1,2)] by (rule inj_on_imageI2)
  then have inj: "inj_on mp_Name (pp_profile ` set ps)" by (simp add: assms(3))
  note seen = seen_profiles [OF names inj]
  have set: "set (map snd (rp ?seen)) = set (rm_Profiles m)"
    using seen(1) by (simp add: reorders_set [OF assms(2)] assms(3))
  have dist: "distinct (map snd (rp ?seen))" using seen(2) reorders_distinct [OF assms(2)] by blast
  have keys: "sorted (map ?key (geo_Profiles (rm_Geometry m)))" "distinct (map ?key (geo_Profiles (rm_Geometry m)))"
    unfolding table_keys [OF mv(1)] by (simp_all add: less_eq_prod_def)
  then have keyinj: "inj_on ?key (set (rm_Profiles m))" using sub by (auto simp: distinct_map intro: inj_on_subset)
  have "set (table_profiles m) = set (rm_Profiles m)" using sub by (auto simp: table_profiles_def)
  moreover have "sorted (map ?key (table_profiles m))" "distinct (table_profiles m)"
    unfolding table_profiles_def using keys sorted_filter [of ?key] by (auto simp: distinct_map)
  moreover have "sorted (map ?key (distinctProfiles rp ps))" "distinct (distinctProfiles rp ps)"
    "set (distinctProfiles rp ps) = set (rm_Profiles m)"
    using set dist by (simp_all add: distinctProfiles_def Let_def)
  ultimately show ?thesis
    using keyinj by (intro map_sorted_distinct_set_unique [of ?key]) (simp_all add: distinct_map)
qed

subsection \<open>The report read back from the published slices\<close>

definition go_ints :: "cluster_topology \<Rightarrow> bool" where
  "go_ints ct \<longleftrightarrow> (\<forall>(n, p)\<in>set (pools ct). int64 (np_GPUCount p))"

definition is_allocated :: "resource_claim list \<Rightarrow> string \<Rightarrow> bool" where
  "is_allocated claims d \<longleftrightarrow> (\<exists>c\<in>set claims. \<exists>rs. cl_Allocation c = Some rs \<and> d \<in> dr_Device ` set rs)"

lemma allocatedDeviceNames_iff: "map_get (allocatedDeviceNames claims) d = Some True \<longleftrightarrow> is_allocated claims d"
proof -
  have results: "map_get (fold (\<lambda>result. map_put (dr_Device result) True) rs m) d = Some True \<longleftrightarrow>
      map_get m d = Some True \<or> d \<in> dr_Device ` set rs" for rs m
    by (induction rs arbitrary: m) (auto simp: update_conv')
  have "map_get (fold (\<lambda>claim m. case cl_Allocation claim of None \<Rightarrow> m
             | Some results \<Rightarrow> fold (\<lambda>result. map_put (dr_Device result) True) results m) claims m) d = Some True \<longleftrightarrow>
      map_get m d = Some True \<or> is_allocated claims d" for m
    by (induction claims arbitrary: m) (auto simp: is_allocated_def results split: option.splits)
  then show ?thesis by (simp add: allocatedDeviceNames_def)
qed

lemma concat_single:
  assumes "mset xs = mset (c # cs)" "\<forall>s\<in>set cs. f s = []"
  shows "concat (map f xs) = f c"
proof -
  have "c \<in> set xs" using arg_cong [OF assms(1), of set_mset] by simp
  then obtain as bs where xs: "xs = as @ c # bs" by (meson split_list)
  then have "set as \<union> set bs = set cs" using assms(1) by (metis add_mset_remove_trivial mset.simps(2)
        mset_append set_mset_mset set_mset_union union_mset_add_mset_right)
  with assms(2) have "concat (map f as) = []" "concat (map f bs) = []" by (auto simp: concat_map_Nil)
  then show ?thesis by (simp only: xs map_append concat_append list.map concat.simps append_Nil append_Nil2)
qed

lemma mset_concat_perm:
  assumes "mset xs = mset ys"
  shows "mset (concat (map f xs)) = mset (concat (map f ys))"
proof -
  have "mset (concat (map f zs)) = sum_mset (image_mset (\<lambda>z. mset (f z)) (mset zs))" for zs
    by (induction zs) auto
  then show ?thesis by (simp add: assms)
qed

lemma concat_select:
  "distinct (map k xs) \<Longrightarrow> x \<in> set xs \<Longrightarrow> concat (map (\<lambda>y. if k y = k x then f y else []) xs) = f x"
proof (induction xs)
  case (Cons y ys)
  show ?case
  proof (cases "y = x")
    case True
    have "concat (map (\<lambda>y. if k y = k x then f y else []) ys) = []"
      using Cons.prems(1) True by (auto simp: concat_map_Nil image_iff)
    then show ?thesis by (simp add: True)
  next
    case False
    then have x: "x \<in> set ys" using Cons.prems(2) by simp
    then have "k x \<in> k ` set ys" by (rule imageI)
    then have "k y \<noteq> k x" using Cons.prems(1) by auto
    then show ?thesis using Cons x by simp
  qed
qed simp

definition published :: "mig_partition \<Rightarrow> published_partition" where
  "published p = \<lparr>pp_name = pt_DeviceName p, pp_profile = pt_Profile p, pp_memorySlices = MemorySlices p\<rparr>"

lemma published_sel [simp]:
  "pp_name (published p) = pt_DeviceName p" "pp_profile (published p) = pt_Profile p"
  "pp_memorySlices (published p) = MemorySlices p"
  by (simp_all add: published_def)

lemma allocated_published:
  assumes "mset ds = mset (map published ps)"
  shows "Analyse g profs i (allocated_state allocated ds) =
         Analyse g profs i (StateFromAllocated (filter (\<lambda>p. map_get allocated (pt_DeviceName p) = Some True) ps))"
proof (rule Analyse_same_state)
  have set: "set ds = published ` set ps" using arg_cong [OF assms, of set_mset] by simp
  have ds: "mset ds = image_mset published (mset ps)" using assms by simp
  show "used (allocated_state allocated ds) =
      used (StateFromAllocated (filter (\<lambda>p. map_get allocated (pt_DeviceName p) = Some True) ps))"
    unfolding allocated_state(2) StateFromAllocated_state(2) set by auto
  have "mset (map (mp_SMSlices \<circ> pp_profile) (filter (\<lambda>p. map_get allocated (pp_name p) = Some True) ds)) =
      image_mset (mp_SMSlices \<circ> pp_profile) (filter_mset (\<lambda>p. map_get allocated (pp_name p) = Some True)
        (mset (map published ps)))"
    by (simp add: ds)
  also have "\<dots> = mset (map (mp_SMSlices \<circ> pt_Profile) (filter (\<lambda>p. map_get allocated (pt_DeviceName p) = Some True) ps))"
    by (simp add: filter_mset_image_mset image_mset.compositionality comp_def flip: mset_filter)
  finally show "st_UsedSMSlices (allocated_state allocated ds) = st_UsedSMSlices
      (StateFromAllocated (filter (\<lambda>p. map_get allocated (pt_DeviceName p) = Some True) ps))"
    unfolding allocated_state(3) StateFromAllocated_state(3) by (metis sum_mset_sum_list)
qed (simp_all add: allocated_state StateFromAllocated_state)

text \<open>The report of one GPU, from what the program resolved rather than from what it published.\<close>

definition gpu_report :: "resolved_mig \<Rightarrow> resource_claim list \<Rightarrow> resolved_gpu \<Rightarrow> report option" where
  "gpu_report m claims g =
     Analyse (rm_Geometry m) (table_profiles m) (rg_Index g)
       (StateFromAllocated (filter (\<lambda>p. is_allocated claims (pt_DeviceName p)) (rg_Partitions g)))"

text \<open>A MIG node of a resolved valid topology, read back in whatever order Go visits maps.\<close>

definition published_node ::
    "(string \<Rightarrow> string) \<Rightarrow> (string \<Rightarrow> gpu_profile) \<Rightarrow> cluster_topology \<Rightarrow> resolved_node \<Rightarrow> resolved_mig \<Rightarrow>
     counter_order \<Rightarrow> profile_order \<Rightarrow> bool" where
  "published_node uuid prof ct x m rc rp \<longleftrightarrow>
     topology_wf ct \<and> go_ints ct \<and> reorders rc \<and> reorders rp \<and>
     x \<in> set (rs_Nodes (resolved_view uuid prof ct)) \<and> rn_MIG x = Some m"

lemma published_nodeD:
  assumes "published_node uuid prof ct x m rc rp"
  shows "topology_wf ct" "go_ints ct" "reorders rc" "reorders rp"
    "x \<in> set (rs_Nodes (resolved_view uuid prof ct))" "rn_MIG x = Some m"
  using assms by (simp_all add: published_node_def)

lemma node_geometry:
  assumes n: "published_node uuid prof ct x m rc rp"
  shows "geometry_ok (rm_Geometry m)" "int64 (geo_MemorySlices (rm_Geometry m))" "0 \<le> geo_MemorySlices (rm_Geometry m)"
  "\<exists>pool. mig_view pool = Some m"
proof -
  note wf = published_nodeD(1) [OF n] and ints = published_nodeD(2) [OF n] and rc = published_nodeD(3) [OF n]
    and rp = published_nodeD(4) [OF n] and x = published_nodeD(5) [OF n] and m = published_nodeD(6) [OF n]
  obtain k n where "x = node_view uuid prof ct k n" using x by (auto simp: resolved_nodes)
  then have view: "mig_view (pool_of ct (nd_Pool n)) = Some m" using m by simp
  then show "\<exists>pool. mig_view pool = Some m" by blast
  note mv = mig_view_Some [OF view]
  show "geometry_ok (rm_Geometry m)" by (rule mv(4))
  show "int64 (geo_MemorySlices (rm_Geometry m))" "0 \<le> geo_MemorySlices (rm_Geometry m)"
    using geometries_shape [OF GeometryFor_Inr [OF mv(1)]] by simp_all
qed

lemma node_indices:
  assumes n: "published_node uuid prof ct x m rc rp"
  shows "distinct (map rg_Index (rn_GPUs x))" "\<forall>i\<in>set (map rg_Index (rn_GPUs x)). int64 i"
  "sort (map rg_Index (rn_GPUs x)) = map rg_Index (rn_GPUs x)"
proof -
  note wf = published_nodeD(1) [OF n] and ints = published_nodeD(2) [OF n] and rc = published_nodeD(3) [OF n]
    and rp = published_nodeD(4) [OF n] and x = published_nodeD(5) [OF n] and m = published_nodeD(6) [OF n]
  obtain p where p: "p \<in> set (placed ct)" and view: "x = node_view uuid prof ct (fst p) (snd p)"
    using x by (auto simp: resolved_nodes)
  have eq: "map rg_Index (rn_GPUs x) = [0..node_count ct p - 1]" unfolding view by (rule resolved_gpu_indices)
  obtain name where "(name, pool_of ct (nd_Pool (snd p))) \<in> set (pools ct)"
    using wf_pool(2) [OF wf placed_wf(3) [OF wf p]] by blast
  then have "int64 (node_count ct p)" using ints by (auto simp: go_ints_def)
  then show "\<forall>i\<in>set (map rg_Index (rn_GPUs x)). int64 i" unfolding eq by auto
  show "distinct (map rg_Index (rn_GPUs x))" "sort (map rg_Index (rn_GPUs x)) = map rg_Index (rn_GPUs x)"
    unfolding eq by (simp_all add: sort_key_id_if_sorted)
qed

lemma node_partitions:
  assumes n: "published_node uuid prof ct x m rc rp" and "g \<in> set (rn_GPUs x)" "p \<in> set (rg_Partitions g)"
  shows "profile_ok (pt_Profile p)" "\<forall>i\<in>set (MemorySlices p). int64 i"
proof -
  note wf = published_nodeD(1) [OF n] and ints = published_nodeD(2) [OF n] and rc = published_nodeD(3) [OF n]
    and rp = published_nodeD(4) [OF n] and x = published_nodeD(5) [OF n] and m = published_nodeD(6) [OF n]
  note geometry = node_geometry [OF n]
  note part = resolved_partitions [OF wf x m assms(2,3)]
  show "profile_ok (pt_Profile p)" by (rule part(2))
  show "\<forall>i\<in>set (MemorySlices p). int64 i" using part(4) geometry(2) by fastforce
qed

text \<open>The devices read for one GPU are its partitions.\<close>

lemma node_read_gpu:
  assumes n: "published_node uuid prof ct x m rc rp" and "g \<in> set (rn_GPUs x)" "mset ds = mset (mig_devices x)"
  shows "mset (map (read_device rc) (filter (\<lambda>d. device_index d = Some (rg_Index g)) ds)) =
         mset (map published (rg_Partitions g))"
proof -
  note wf = published_nodeD(1) [OF n] and ints = published_nodeD(2) [OF n] and rc = published_nodeD(3) [OF n]
    and rp = published_nodeD(4) [OF n] and x = published_nodeD(5) [OF n] and m = published_nodeD(6) [OF n]
  note indices = node_indices [OF n]
  note partitions = node_partitions [OF n]
  have index: "device_index (migDevice x h p) = Some (rg_Index h)" if "h \<in> set (rn_GPUs x)" for h p
  proof -
    have "int64 (rg_Index h)" using indices(2) that by simp
    then show ?thesis
      using counter_set_name.parse_print by (simp add: device_index_def migDevice_def)
  qed
  have read: "read_device rc (migDevice x h p) = published p"
    if "h \<in> set (rn_GPUs x)" "p \<in> set (rg_Partitions h)" for h p
    using read_partition_migDevice [OF rc partitions(2) [OF that]] partitions(1) [OF that]
    by (simp add: read_device_def published_def profile_ok_def migDevice_def)
  have "filter (\<lambda>d. device_index d = Some (rg_Index g)) (mig_devices x) =
      concat (map (\<lambda>h. if rg_Index h = rg_Index g then map (migDevice x h) (rg_Partitions h) else []) (rn_GPUs x))"
    unfolding mig_devices_def filter_concat map_map
    by (intro arg_cong [of _ _ concat] map_cong refl) (auto simp: index filter_id_conv filter_empty_conv)
  also have "\<dots> = map (migDevice x g) (rg_Partitions g)"
    by (rule concat_select [OF indices(1) assms(2)])
  finally have "mset (filter (\<lambda>d. device_index d = Some (rg_Index g)) ds) = mset (map (migDevice x g) (rg_Partitions g))"
    by (metis assms(3) mset_filter)
  then have "mset (map (read_device rc) (filter (\<lambda>d. device_index d = Some (rg_Index g)) ds)) =
      mset (map (read_device rc) (map (migDevice x g) (rg_Partitions g)))"
    by (simp only: mset_map)
  also have "map (read_device rc) (map (migDevice x g) (rg_Partitions g)) = map published (rg_Partitions g)"
    using read [OF assms(2)] by simp
  finally show ?thesis .
qed

lemma node_profiles:
  assumes n: "published_node uuid prof ct x m rc rp" and "g \<in> set (rn_GPUs x)"
  shows "pt_Profile ` set (rg_Partitions g) = set (rm_Profiles m)"
proof -
  note wf = published_nodeD(1) [OF n] and ints = published_nodeD(2) [OF n] and rc = published_nodeD(3) [OF n]
    and rp = published_nodeD(4) [OF n] and x = published_nodeD(5) [OF n] and m = published_nodeD(6) [OF n]
  note geometry = node_geometry [OF n]
  obtain k n where kn: "x = node_view uuid prof ct k n" using x by (auto simp: resolved_nodes)
  obtain pool where pool: "mig_view pool = Some m" using geometry(4) by blast
  note mv = mig_view_Some [OF pool]
  have "q \<in> pt_Profile ` set (partitions_of (rm_Geometry m) (rg_Index g) q)" if "q \<in> set (rm_Profiles m)" for q
  proof -
    have "slots (rm_Geometry m) q \<noteq> 0"
      using table_slots [OF mv(1)] SelectProfiles_mem [OF mv(2) that] by simp
    then show ?thesis by (force simp: partitions_of_def)
  qed
  moreover have "set (rg_Partitions g) = (\<Union>q\<in>set (rm_Profiles m). set (partitions_of (rm_Geometry m) (rg_Index g) q))"
    using resolved_gpu_facts(9) [OF kn assms(2)] m by simp
  moreover have "pt_Profile ` set (partitions_of (rm_Geometry m) (rg_Index g) q) \<subseteq> {q}" for q
    by (auto simp: set_partitions_of)
  ultimately show ?thesis by (simp only: image_UN) blast
qed

lemma analyse_node:
  assumes n: "published_node uuid prof ct x m rc rp" and "mset pool = mset (node_slices t x)"
    and "\<And>d. map_get allocated d = Some True \<longleftrightarrow> is_allocated claims d"
  shows "\<exists>reports. analyse rp allocated (fold (absorb rc) pool newNodeState) = Some reports \<and>
      map Some reports = map (gpu_report m claims) (rn_GPUs x)"
    and "ns_counterSets (fold (absorb rc) pool newNodeState) \<noteq> [] \<longleftrightarrow> rn_GPUs x \<noteq> []"
proof -
  note wf = published_nodeD(1) [OF n] and ints = published_nodeD(2) [OF n] and rc = published_nodeD(3) [OF n]
    and rp = published_nodeD(4) [OF n] and x = published_nodeD(5) [OF n] and m = published_nodeD(6) [OF n]
  note geometry = node_geometry [OF n]
  note indices = node_indices [OF n]
  note read_gpu = node_read_gpu [OF n]
  note profiles_of_gpu = node_profiles [OF n]
  let ?st = "fold (absorb rc) pool newNodeState" and ?sets = "map (counterSetFor (rm_Geometry m)) (map rg_Index (rn_GPUs x))"
  let ?ds = "concat (map (ss_Devices \<circ> sl_Spec) pool)"
  obtain c cs where view: "node_slices t x = c # cs"
    and c: "ss_SharedCounters (sl_Spec c) = ?sets" and cs: "\<forall>s\<in>set cs. (ss_SharedCounters \<circ> sl_Spec) s = []"
  proof -
    have "node_slices t x = hd (mig_slices_view x m t) # tl (mig_slices_view x m t)"
      "ss_SharedCounters (sl_Spec (hd (mig_slices_view x m t))) = ?sets"
      using m by (simp_all add: node_slices_def mig_slices_view_def Let_def)
    moreover have "\<forall>s\<in>set (tl (mig_slices_view x m t)). (ss_SharedCounters \<circ> sl_Spec) s = []"
      by (auto simp: mig_slices_view_def Let_def)
    ultimately show thesis by (rule that)
  qed
  have sets: "concat (map (ss_SharedCounters \<circ> sl_Spec) pool) = ?sets"
    using concat_single [OF assms(2) [unfolded view] cs] c by (simp add: comp_def)
  have ds: "mset ?ds = mset (mig_devices x)"
    using mset_concat_perm [OF assms(2), of "ss_Devices \<circ> sl_Spec"] m
    by (simp add: node_slices_devices node_devices_def)
  have st: "ns_counterSets ?st = fold (absorb_set rc) ?sets []"
    "ns_devices ?st = fold (absorb_device rc) ?ds []"
    by (simp_all only: fold_absorb sets) (simp_all add: newNodeState_def)
  note set = absorb_sets [OF indices(2,1), where rc = rc and g = "rm_Geometry m" and m = "[]", folded st(1)]
  have keys: "sort (map_keys (ns_counterSets ?st)) = map rg_Index (rn_GPUs x)"
  proof -
    have "set (map_keys (ns_counterSets ?st)) = set (map rg_Index (rn_GPUs x))"
      "distinct (map_keys (ns_counterSets ?st))" using set(2,3) by simp_all
    then have "mset (map_keys (ns_counterSets ?st)) = mset (map rg_Index (rn_GPUs x))"
      using set_eq_iff_mset_eq_distinct indices(1) by blast
    then show ?thesis using indices(3) by (metis properties_for_sort mset_sort sorted_sort)
  qed
  show "ns_counterSets ?st \<noteq> [] \<longleftrightarrow> rn_GPUs x \<noteq> []"
    using set(2) by (metis map_is_Nil_conv set_empty sup_bot.right_neutral list.simps(8) set_empty2)
  let ?f = "\<lambda>index. do {
         g \<leftarrow> map_get (ns_counterSets ?st) index;
         let partitions = devices_at (ns_devices ?st) index;
         let profiles = distinctProfiles rp partitions;
         Analyse (g\<lparr>geo_Profiles := profiles\<rparr>) profiles index (allocated_state allocated partitions) }"
  obtain pl where pl: "mig_view pl = Some m" using geometry(4) by blast
  have one: "?f (rg_Index g) = gpu_report m claims g" if g: "g \<in> set (rn_GPUs x)" for g
  proof -
    have get: "map_get (ns_counterSets ?st) (rg_Index g) = Some ((rm_Geometry m)\<lparr>geo_Profiles := []\<rparr>)"
      using set(1) g read_geometry_counterSetFor [OF rc geometry(2,3)] by simp
    have dev: "mset (devices_at (ns_devices ?st) (rg_Index g)) = mset (map published (rg_Partitions g))"
      unfolding st(2) absorb_devices using read_gpu [OF g ds] by (simp add: devices_at_def)
    have "pp_profile ` set (devices_at (ns_devices ?st) (rg_Index g)) = set (rm_Profiles m)"
      using arg_cong [OF dev, of set_mset] profiles_of_gpu [OF g] by (simp add: image_image)
    note profs = distinctProfiles_table [OF pl rp this]
    show ?thesis
      by (simp add: get profs Let_def allocated_published [OF dev] gpu_report_def assms(3))
  qed
  have total: "\<exists>r. gpu_report m claims g = Some r" for g
  proof -
    have "list_all profile_ok (table_profiles m)"
      using geometry(1) by (auto simp: geometry_ok_def table_profiles_def list_all_iff)
    then show ?thesis by (simp add: gpu_report_def Analyse_eq)
  qed
  have "collect ?f (map rg_Index gs) = Some (map (\<lambda>g. the (gpu_report m claims g)) gs)"
    if "set gs \<subseteq> set (rn_GPUs x)" for gs
    using that
  proof (induction gs)
    case (Cons g gs)
    obtain rep where "gpu_report m claims g = Some rep" using total by blast
    moreover have "?f (rg_Index g) = gpu_report m claims g" using Cons.prems by (intro one) simp
    ultimately show ?case using Cons by simp
  qed simp
  from this [of "rn_GPUs x"] have "analyse rp allocated ?st = Some (map (\<lambda>g. the (gpu_report m claims g)) (rn_GPUs x))"
    unfolding analyse_def keys by simp
  moreover have "map Some (map (\<lambda>g. the (gpu_report m claims g)) (rn_GPUs x)) = map (gpu_report m claims) (rn_GPUs x)"
    using total by (auto simp: option.collapse)
  ultimately show "\<exists>reports. analyse rp allocated ?st = Some reports \<and>
      map Some reports = map (gpu_report m claims) (rn_GPUs x)" by blast
qed

lemma plain_node_sets:
  assumes "rn_MIG x = None" "mset pool = mset (node_slices t x)"
  shows "ns_counterSets (fold (absorb rc) pool newNodeState) = []"
proof -
  have "pool = [resourceSlice x t]" using assms by (simp add: node_slices_def)
  then show ?thesis by (simp add: absorb_def resourceSlice_def newNodeState_def)
qed

lemma Fragmentation_read_back_aux:
  assumes "Validate ct = []" "loads load prof ct" "go_ints ct" "reorders rc" "reorders rp"
    and "Resolve uuid load ct = Some (Inr r)" "ResourceSlices r = Some ss" "mset items = mset ss"
  shows "\<exists>out. Fragmentation rc rp (Inr items) (Inr claims) = Some (Inr out) \<and>
     map nf_Node out = sort (map rn_Name (filter (\<lambda>x. rn_MIG x \<noteq> None) (rs_Nodes r))) \<and>
     (\<forall>nf\<in>set out. \<forall>x\<in>set (rs_Nodes r). rn_Name x = nf_Node nf \<longrightarrow>
        (\<exists>m. rn_MIG x = Some m \<and> map Some (nf_GPUs nf) = map (gpu_report m claims) (rn_GPUs x)))"
proof -
  have wf: "topology_wf ct" using assms(1) by (simp add: Validate_wf)
  have r: "r = resolved_view uuid prof ct" using Resolve_eq [OF wf assms(2)] assms(6) by simp
  have ss: "ss = concat (map (node_slices (rs_Name r)) (rs_Nodes r))" using assms(7) by (simp add: ResourceSlices_eq)
  have names: "distinct (map rn_Name (rs_Nodes r))"
    using distinct_placed_names [OF wf] by (simp add: r resolved_nodes comp_def split_beta)
  have same: "x = y" if "x \<in> set (rs_Nodes r)" "y \<in> set (rs_Nodes r)" "rn_Name x = rn_Name y" for x y
    using inj_onD [OF conjunct2 [OF iffD1 [OF distinct_map names]] that(3,1,2)] .
  have items: "set items = set ss" using arg_cong [OF assms(8), of set_mset] by simp
  have bound: "\<forall>s\<in>set items. ss_NodeName (sl_Spec s) = Some (ss_PoolName (sl_Spec s))"
    unfolding items ss by (auto dest: node_slices_pool)
  let ?pool = "\<lambda>n. filter (\<lambda>s. ss_NodeName (sl_Spec s) = Some n) items"
  let ?st = "\<lambda>n. fold (absorb rc) (?pool n) newNodeState"
  have pool: "mset (?pool (rn_Name x)) = mset (node_slices (rs_Name r) x)" if "x \<in> set (rs_Nodes r)" for x
  proof -
    have "mset (?pool (rn_Name x)) = mset (filter (\<lambda>s. ss_PoolName (sl_Spec s) = rn_Name x) ss)"
      using bound by (simp only: mset_filter assms(8) [symmetric]) (intro filter_mset_cong; auto)
    also have "filter (\<lambda>s. ss_PoolName (sl_Spec s) = rn_Name x) ss = node_slices (rs_Name r) x"
      unfolding ss by (rule filter_pool [OF names that])
    finally show ?thesis .
  qed
  have here: "(\<exists>s\<in>set items. ss_NodeName (sl_Spec s) = Some n) \<longleftrightarrow> n \<in> rn_Name ` set (rs_Nodes r)" for n
  proof
    assume "\<exists>s\<in>set items. ss_NodeName (sl_Spec s) = Some n"
    then show "n \<in> rn_Name ` set (rs_Nodes r)" unfolding items ss using node_slices_pool by fastforce
  next
    assume "n \<in> rn_Name ` set (rs_Nodes r)"
    then obtain x where x: "x \<in> set (rs_Nodes r)" "n = rn_Name x" by auto
    then have "?pool n \<noteq> []" using pool [OF x(1)] node_slices_nonempty [of "rs_Name r" x] by (metis mset_zero_iff)
    then show "\<exists>s\<in>set items. ss_NodeName (sl_Spec s) = Some n" by (auto simp: filter_empty_conv)
  qed
  have "\<forall>s\<in>set items. ss_NodeName (sl_Spec s) \<noteq> None" using bound by simp
  note by_node = by_node_eq [OF this, of rc, unfolded here]
  have node: "published_node uuid prof ct x m rc rp" if "x \<in> set (rs_Nodes r)" "rn_MIG x = Some m" for x m
    using wf assms(3,4,5) that by (simp add: published_node_def r)
  have gpus: "rn_GPUs x \<noteq> []" if "x \<in> set (rs_Nodes r)" for x
  proof -
    obtain p where "p \<in> set (placed ct)" "x = node_view uuid prof ct (fst p) (snd p)"
      using \<open>x \<in> set (rs_Nodes r)\<close> unfolding r by (auto simp: resolved_nodes)
    then have "0 < length (rn_GPUs x)" using placed_wf(1) [OF wf] by simp
    then show ?thesis by simp
  qed
  have sets: "ns_counterSets (?st (rn_Name x)) \<noteq> [] \<longleftrightarrow> rn_MIG x \<noteq> None" if x: "x \<in> set (rs_Nodes r)" for x
  proof (cases "rn_MIG x")
    case None
    then show ?thesis using plain_node_sets [OF None pool [OF x]] by simp
  next
    case (Some m)
    then show ?thesis using analyse_node(2) [OF node [OF x Some] pool [OF x] allocatedDeviceNames_iff] gpus [OF x] by simp
  qed
  let ?byNode = "by_node rc items" and ?allocated = "allocatedDeviceNames claims"
  let ?mig = "filter (\<lambda>x. rn_MIG x \<noteq> None) (rs_Nodes r)"
  let ?keys = "filter (\<lambda>node. case map_get ?byNode node of Some st \<Rightarrow> ns_counterSets st \<noteq> [] | None \<Rightarrow> False) (map_keys ?byNode)"
  have "n \<in> set ?keys \<longleftrightarrow> n \<in> set (map rn_Name ?mig)" for n
  proof (cases "n \<in> rn_Name ` set (rs_Nodes r)")
    case True
    then obtain x where x: "x \<in> set (rs_Nodes r)" "n = rn_Name x" by auto
    have "n \<in> set ?keys \<longleftrightarrow> rn_MIG x \<noteq> None"
      using by_node(2) True sets [OF x(1)] by (simp only: set_filter mem_Collect_eq by_node(1) x(2)) simp
    also have "\<dots> \<longleftrightarrow> n \<in> set (map rn_Name ?mig)" using same x by auto
    finally show ?thesis .
  next
    case False
    then show ?thesis using by_node(2) by auto
  qed
  then have "set ?keys = set (map rn_Name ?mig)" by blast
  moreover have "distinct ?keys" "distinct (map rn_Name ?mig)"
    using by_node(3) names by (simp_all add: distinct_map_filter)
  ultimately have keys: "sort ?keys = sort (map rn_Name ?mig)" by (intro sort_same_set)
  let ?g = "\<lambda>node. do { st \<leftarrow> map_get ?byNode node; gpus \<leftarrow> analyse rp ?allocated st;
      Some \<lparr>nf_Node = node, nf_GPUs = gpus\<rparr> }"
  have entry: "\<exists>nf. ?g (rn_Name x) = Some nf \<and> nf_Node nf = rn_Name x \<and>
      map Some (nf_GPUs nf) = map (gpu_report m claims) (rn_GPUs x)"
    if x: "x \<in> set (rs_Nodes r)" and m: "rn_MIG x = Some m" for x m
    using analyse_node(1) [OF node [OF x m] pool [OF x] allocatedDeviceNames_iff [of claims]] by_node(1) x by auto
  have "\<exists>out. collect ?g ns = Some out \<and> map nf_Node out = ns \<and>
      (\<forall>nf\<in>set out. \<forall>x\<in>set (rs_Nodes r). rn_Name x = nf_Node nf \<longrightarrow>
        (\<exists>m. rn_MIG x = Some m \<and> map Some (nf_GPUs nf) = map (gpu_report m claims) (rn_GPUs x)))"
    if "set ns \<subseteq> rn_Name ` set ?mig" for ns
    using that
  proof (induction ns)
    case (Cons n ns)
    then obtain x m where x: "x \<in> set (rs_Nodes r)" "rn_MIG x = Some m" "n = rn_Name x" by auto
    obtain nf where nf: "?g n = Some nf" "nf_Node nf = n"
      "map Some (nf_GPUs nf) = map (gpu_report m claims) (rn_GPUs x)" using entry [OF x(1,2)] x(3) by auto
    obtain out where out: "collect ?g ns = Some out" "map nf_Node out = ns"
      "\<forall>nf\<in>set out. \<forall>x\<in>set (rs_Nodes r). rn_Name x = nf_Node nf \<longrightarrow>
        (\<exists>m. rn_MIG x = Some m \<and> map Some (nf_GPUs nf) = map (gpu_report m claims) (rn_GPUs x))"
      using Cons by auto
    have "collect ?g (n # ns) = Some (nf # out)" using nf(1) out(1) by simp
    moreover have "\<forall>y\<in>set (rs_Nodes r). rn_Name y = nf_Node nf \<longrightarrow>
        (\<exists>m. rn_MIG y = Some m \<and> map Some (nf_GPUs nf) = map (gpu_report m claims) (rn_GPUs y))"
      using same x nf by auto
    ultimately show ?case using nf(2) out(2,3) by (intro exI [of _ "nf # out"]) simp
  qed simp
  from this [of "sort (map rn_Name ?mig)"] show ?thesis
    by (auto simp: Fragmentation_def Let_def keys)
qed

text \<open>
  C4. The fragmentation report is the truth about what was published: when the managed slices
  listed are those of a resolved valid topology, in any order and with their maps visited in
  any order, \<open>Fragmentation\<close> returns one entry per MIG node, in name order, and in it, GPU by
  GPU, exactly the report \<open>Analyse\<close> gives for the GPU's own geometry, the pool's profiles in
  the order of the geometry's table, and the partitions of the GPU whose device name a claim
  holds.
\<close>

theorem Fragmentation_reads_back:
  assumes "Validate ct = []" "loads load prof ct" "go_ints ct" "reorders rc" "reorders rp"
    and "Resolve uuid load ct = Some (Inr r)" "ResourceSlices r = Some ss" "mset items = mset ss"
  shows "\<exists>out. Fragmentation rc rp (Inr items) (Inr claims) = Some (Inr out) \<and>
     map nf_Node out = sort (map rn_Name (filter (\<lambda>x. rn_MIG x \<noteq> None) (rs_Nodes r))) \<and>
     (\<forall>nf\<in>set out. \<forall>x\<in>set (rs_Nodes r). rn_Name x = nf_Node nf \<longrightarrow>
        (\<exists>m. rn_MIG x = Some m \<and> map Some (nf_GPUs nf) = map (gpu_report m claims) (rn_GPUs x)))"
  by (rule Fragmentation_read_back_aux [OF assms])

text \<open>Two MIG nodes of one pool.\<close>

definition demo_mig_pair :: cluster_topology where
  "demo_mig_pair = (let ct = demo_mig_topology [] in ct\<lparr>ct_Spec := (ct_Spec ct)\<lparr>sp_Racks :=
     [\<lparr>rk_Name = ''r1'', rk_FaultDomain = ''f1'', rk_NVLinkDomain = [],
       rk_Nodes = [\<lparr>nd_Name = ''n1'', nd_Pool = ''p''\<rparr>, \<lparr>nd_Name = ''n2'', nd_Pool = ''p''\<rparr>]\<rparr>]\<rparr>\<rparr>)"

lemma demo_mig_pair_wf: "topology_wf demo_mig_pair"
proof -
  have "topology_wf (demo_mig_topology [])" by (rule demo_mig_wf) simp
  then show ?thesis
    by (simp add: demo_mig_pair_def Let_def topology_wf_def demo_mig_topology_def all_nodes_def pool_of_def
        NVLinkNone_def)
qed

lemma demo_mig_pair_loads: "loads (\<lambda>_. Inr sample_profile) (\<lambda>_. sample_profile) demo_mig_pair"
  by (simp add: demo_mig_pair_def Let_def demo_mig_topology_def loads_def sample_profile_def)

lemma demo_mig_pair_nodes:
  "map (\<lambda>x. (rn_Name x, rn_Pool x)) (rs_Nodes (resolved_view (\<lambda>s. s) (\<lambda>_. sample_profile) demo_mig_pair)) =
     [(''n1'', ''p''), (''n2'', ''p'')]"
  "x \<in> set (rs_Nodes (resolved_view (\<lambda>s. s) (\<lambda>_. sample_profile) demo_mig_pair)) \<Longrightarrow> rn_MIG x \<noteq> None"
proof -
  show "map (\<lambda>x. (rn_Name x, rn_Pool x)) (rs_Nodes (resolved_view (\<lambda>s. s) (\<lambda>_. sample_profile) demo_mig_pair)) =
     [(''n1'', ''p''), (''n2'', ''p'')]"
    by (simp add: resolved_nodes placed_def demo_mig_pair_def Let_def demo_mig_topology_def)
  assume x: "x \<in> set (rs_Nodes (resolved_view (\<lambda>s. s) (\<lambda>_. sample_profile) demo_mig_pair))"
  have "pool_of demo_mig_pair ''p'' = pool_of (demo_mig_topology []) ''p''"
    by (simp add: pool_of_def demo_mig_pair_def Let_def demo_mig_topology_def)
  moreover have "to_lower ''h100'' = ''h100''" by code_simp
  then have "mig_view (pool_of (demo_mig_topology []) ''p'') \<noteq> None"
    by (simp add: mig_view_def resolve_mig_def pool_of_def demo_mig_topology_def MIGEnabled_def mig_names_def
        GeometryFor_def geometry_table SelectProfiles_def)
  moreover have "rn_MIG x = mig_view (pool_of demo_mig_pair ''p'')"
    using x by (auto simp: resolved_nodes placed_def demo_mig_pair_def Let_def demo_mig_topology_def)
  ultimately show "rn_MIG x \<noteq> None" by simp
qed

theorem Fragmentation_reads_back_witness:
  "\<exists>r ss out. Resolve (\<lambda>s. s) (\<lambda>_. Inr sample_profile) demo_mig_pair = Some (Inr r) \<and> ResourceSlices r = Some ss \<and>
     Fragmentation (\<lambda>m. m) (\<lambda>m. m) (Inr (rev ss)) (Inr []) = Some (Inr out) \<and> map nf_Node out = [''n1'', ''n2'']"
proof -
  let ?r = "resolved_view (\<lambda>s. s) (\<lambda>_. sample_profile) demo_mig_pair"
  have v: "Validate demo_mig_pair = []" using demo_mig_pair_wf by (simp add: Validate_wf)
  have ints: "go_ints demo_mig_pair"
    by (simp add: go_ints_def demo_mig_pair_def Let_def demo_mig_topology_def)
  have id: "reorders (\<lambda>m. m)" by (simp add: reorders_def)
  note res = Resolve_eq [OF demo_mig_pair_wf demo_mig_pair_loads, of "\<lambda>s. s"]
  obtain ss where ss: "ResourceSlices ?r = Some ss" using ResourceSlices_eq by blast
  have "filter (\<lambda>x. rn_MIG x \<noteq> None) (rs_Nodes ?r) = rs_Nodes ?r"
    using demo_mig_pair_nodes(2) by (simp add: filter_id_conv)
  then have "map rn_Name (filter (\<lambda>x. rn_MIG x \<noteq> None) (rs_Nodes ?r)) = map fst [(''n1'', ''p''), (''n2'', ''p'')]"
    by (simp flip: demo_mig_pair_nodes(1))
  then have "sort (map rn_Name (filter (\<lambda>x. rn_MIG x \<noteq> None) (rs_Nodes ?r))) = [''n1'', ''n2'']" by simp
  with Fragmentation_reads_back [OF v demo_mig_pair_loads ints id id res ss, of "rev ss" "[]"] res ss
  show ?thesis by auto
qed

text \<open>
  C40. The report does not tell nodes apart: two MIG nodes of one pool always get identical GPU
  reports, whatever the claims, because partitions are matched by device name alone, the name
  does not depend on the node, and the pool of an allocation result is ignored. A partition
  held on one node counts as held on every node of the pool.
\<close>

theorem Fragmentation_ignores_node:
  assumes "Validate ct = []" "loads load prof ct" "go_ints ct" "reorders rc" "reorders rp"
    and "Resolve uuid load ct = Some (Inr r)" "ResourceSlices r = Some ss" "mset items = mset ss"
    and "Fragmentation rc rp (Inr items) (Inr claims) = Some (Inr out)"
    and "x \<in> set (rs_Nodes r)" "y \<in> set (rs_Nodes r)" "rn_Pool x = rn_Pool y"
    and "nf \<in> set out" "nf' \<in> set out" "nf_Node nf = rn_Name x" "nf_Node nf' = rn_Name y"
  shows "nf_GPUs nf = nf_GPUs nf'"
proof -
  have wf: "topology_wf ct" using assms(1) by (simp add: Validate_wf)
  have r: "r = resolved_view uuid prof ct" using Resolve_eq [OF wf assms(2)] assms(6) by simp
  obtain k n l q where x: "x = node_view uuid prof ct k n" and y: "y = node_view uuid prof ct l q"
    using assms(10,11) by (auto simp: r resolved_nodes)
  have mig: "rn_MIG x = rn_MIG y" and pool: "pool_of ct (nd_Pool n) = pool_of ct (nd_Pool q)"
    using assms(12) by (simp_all add: x y)
  have reports: "map (gpu_report m claims) (rn_GPUs x) = map (gpu_report m claims) (rn_GPUs y)" for m
    using pool by (simp add: x y node_view_def Let_def gpu_view_def gpu_report_def)
  have readback: "\<forall>nf\<in>set out. \<forall>x\<in>set (rs_Nodes r). rn_Name x = nf_Node nf \<longrightarrow>
        (\<exists>m. rn_MIG x = Some m \<and> map Some (nf_GPUs nf) = map (gpu_report m claims) (rn_GPUs x))"
    using Fragmentation_read_back_aux [OF assms(1,2,3,4,5,6,7,8), of claims] assms(9) by auto
  obtain m where m: "rn_MIG x = Some m" "map Some (nf_GPUs nf) = map (gpu_report m claims) (rn_GPUs x)"
    using readback assms(10,13,15) by metis
  obtain m' where m': "rn_MIG y = Some m'" "map Some (nf_GPUs nf') = map (gpu_report m' claims) (rn_GPUs y)"
    using readback assms(11,14,16) by metis
  have "map Some (nf_GPUs nf) = map Some (nf_GPUs nf')" using m m' mig reports by simp
  then show ?thesis by (simp add: inj_map_eq_map)
qed

text \<open>A claim that holds a partition of node n1.\<close>

definition demo_claim :: resource_claim where
  "demo_claim = \<lparr>cl_Name = ''c'', cl_Owners = [], cl_Allocation = Some
     [\<lparr>dr_Request = ''gpu'', dr_Driver = DriverName, dr_Pool = ''n1'', dr_Device = ''gpu-0-mig-1g10gb-0''\<rparr>]\<rparr>"

theorem Fragmentation_ignores_node_witness:
  "\<exists>r ss nf nf'. Resolve (\<lambda>s. s) (\<lambda>_. Inr sample_profile) demo_mig_pair = Some (Inr r) \<and> ResourceSlices r = Some ss \<and>
     Fragmentation (\<lambda>m. m) (\<lambda>m. m) (Inr ss) (Inr [demo_claim]) = Some (Inr [nf, nf']) \<and>
     nf_Node nf = ''n1'' \<and> nf_Node nf' = ''n2'' \<and> nf_GPUs nf = nf_GPUs nf'"
proof -
  let ?r = "resolved_view (\<lambda>s. s) (\<lambda>_. sample_profile) demo_mig_pair"
  have v: "Validate demo_mig_pair = []" using demo_mig_pair_wf by (simp add: Validate_wf)
  have ints: "go_ints demo_mig_pair"
    by (simp add: go_ints_def demo_mig_pair_def Let_def demo_mig_topology_def)
  have id: "reorders (\<lambda>m. m)" by (simp add: reorders_def)
  note res = Resolve_eq [OF demo_mig_pair_wf demo_mig_pair_loads, of "\<lambda>s. s"]
  obtain ss where ss: "ResourceSlices ?r = Some ss" using ResourceSlices_eq by blast
  have "filter (\<lambda>x. rn_MIG x \<noteq> None) (rs_Nodes ?r) = rs_Nodes ?r"
    using demo_mig_pair_nodes(2) by (simp add: filter_id_conv)
  then have "map rn_Name (filter (\<lambda>x. rn_MIG x \<noteq> None) (rs_Nodes ?r)) = map fst [(''n1'', ''p''), (''n2'', ''p'')]"
    by (simp flip: demo_mig_pair_nodes(1))
  then have names: "sort (map rn_Name (filter (\<lambda>x. rn_MIG x \<noteq> None) (rs_Nodes ?r))) = [''n1'', ''n2'']" by simp
  obtain out where out: "Fragmentation (\<lambda>m. m) (\<lambda>m. m) (Inr ss) (Inr [demo_claim]) = Some (Inr out)"
    "map nf_Node out = [''n1'', ''n2'']"
    using Fragmentation_read_back_aux [OF v demo_mig_pair_loads ints id id res ss refl, of "[demo_claim]"] names by auto
  then obtain nf nf' where nf: "out = [nf, nf']" "nf_Node nf = ''n1''" "nf_Node nf' = ''n2''"
    by (auto simp: map_eq_Cons_conv)
  obtain x y where xy: "rs_Nodes ?r = [x, y]" "rn_Name x = ''n1''" "rn_Name y = ''n2''" "rn_Pool x = rn_Pool y"
    using demo_mig_pair_nodes(1) by (auto simp: map_eq_Cons_conv)
  have "nf_GPUs nf = nf_GPUs nf'"
    by (rule Fragmentation_ignores_node [OF v demo_mig_pair_loads ints id id res ss refl out(1), of x y])
      (simp_all add: xy nf)
  then show ?thesis using res ss out(1) nf by blast
qed

end
