(* ===== verification/ClusterDevices.thy ===== *)
theory ClusterDevices
  imports ClusterFragmentation Workload
begin

text \<open>
  internal/cluster/faults.go and the reading half of workloads.go: which devices a fault
  hits, the taints it writes, the devices and pods a workload holds, and what the scheduler
  said. Lists returned by the API server are parameters; maps are visited in the order of
  their association lists.
\<close>

subsection \<open>Attributes\<close>

text \<open>The part after the last slash.\<close>

definition stripDomain :: "string \<Rightarrow> string" where
  "stripDomain name = rev (takeWhile (\<lambda>c. c \<noteq> CHR ''/'') (rev name))"

definition attributeString :: "device_attribute \<Rightarrow> string" where
  "attributeString v =
     (case da_String v of Some s \<Rightarrow> s
      | None \<Rightarrow> (case da_Int v of Some i \<Rightarrow> itoa i
      | None \<Rightarrow> (case da_Bool v of Some b \<Rightarrow> if b then ''true'' else ''false''
      | None \<Rightarrow> (case da_Version v of Some s \<Rightarrow> s | None \<Rightarrow> []))))"

definition device_attributes_of :: "slice_device \<Rightarrow> (string \<times> string) list" where
  "device_attributes_of d = fold (\<lambda>(name, v). map_put (stripDomain name) (attributeString v)) (sd_Attributes d) []"

definition DeviceAttributes :: "resource_slice list \<Rightarrow> (string \<times> (string \<times> string) list) list" where
  "DeviceAttributes slices =
     fold (\<lambda>rs m. fold (\<lambda>d. map_put (sd_Name d) (device_attributes_of d)) (ss_Devices (sl_Spec rs)) m) slices []"

subsection \<open>Faults on devices\<close>

definition TaintKey :: string where "TaintKey = ''gpu-sim.io/faulty''"

record device_match =
  dm_Nodes :: "(string \<times> bool) list"
  dm_Attributes :: "(string \<times> string) list"

definition lookupQualified :: "slice_device \<Rightarrow> string \<Rightarrow> device_attribute option" where
  "lookupQualified d name = map_option snd (find (\<lambda>(q, v). stripDomain q = name) (sd_Attributes d))"

definition attribute_matches :: "slice_device \<Rightarrow> string \<Rightarrow> string \<Rightarrow> bool" where
  "attribute_matches d name want =
     (case map_get (sd_Attributes d) name of
        Some got \<Rightarrow> attributeString got = want
      | None \<Rightarrow> (case lookupQualified d name of None \<Rightarrow> False | Some got \<Rightarrow> attributeString got = want))"

definition matches :: "device_match \<Rightarrow> resource_slice \<Rightarrow> slice_device \<Rightarrow> bool" where
  "matches m rs d =
     (if dm_Nodes m \<noteq> [] then
        (case ss_NodeName (sl_Spec rs) of None \<Rightarrow> False | Some n \<Rightarrow> map_get (dm_Nodes m) n = Some True)
      else list_all (\<lambda>(name, want). attribute_matches d name want) (dm_Attributes m) \<and> dm_Attributes m \<noteq> [])"

definition taint_device :: "string \<Rightarrow> slice_device \<Rightarrow> slice_device" where
  "taint_device effect d = d\<lparr>sd_Taints := sd_Taints d @ [\<lparr>dt_Key = TaintKey, dt_Effect = effect\<rparr>]\<rparr>"

text \<open>
  The loop of \<open>TaintDevices\<close> over the listed slices. \<open>update\<close> is the API's read, change and
  update of one slice (retried on conflict); an error ends the loop, with what was tainted so
  far.
\<close>

fun taint_loop ::
    "(string \<Rightarrow> slice_device list \<Rightarrow> 'w \<Rightarrow> (string + unit) \<times> 'w) \<Rightarrow> device_match \<Rightarrow> string \<Rightarrow>
     resource_slice list \<Rightarrow> (string \<times> bool) list \<Rightarrow> 'w \<Rightarrow> ((string \<times> bool) list \<times> string option) \<times> 'w" where
  "taint_loop update m effect [] tainted w = ((tainted, None), w)"
| "taint_loop update m effect (rs # slices) tainted w =
     (let devices = ss_Devices (sl_Spec rs); hit = filter (matches m rs) devices
      in if devices = [] then taint_loop update m effect slices tainted w
         else
           (let tainted' = fold (\<lambda>d. map_put (sd_Name d) True) hit tainted
            in if hit = [] then taint_loop update m effect slices tainted' w
               else (case update (sl_Name rs)
                            (map (\<lambda>d. if matches m rs d then taint_device effect d else d) devices) w of
                       (Inl e, w') \<Rightarrow> ((tainted', Some e), w')
                     | (Inr _, w') \<Rightarrow> taint_loop update m effect slices tainted' w')))"

definition TaintDevices ::
    "(string \<Rightarrow> slice_device list \<Rightarrow> 'w \<Rightarrow> (string + unit) \<times> 'w) \<Rightarrow> string + resource_slice list \<Rightarrow>
     device_match \<Rightarrow> string \<Rightarrow> 'w \<Rightarrow> (string + (string \<times> bool) list) \<times> 'w" where
  "TaintDevices update listed m effect w =
     (case listed of Inl e \<Rightarrow> (Inl e, w)
      | Inr slices \<Rightarrow>
          (case taint_loop update m effect slices [] w of
             ((tainted, Some e), w') \<Rightarrow> (Inl e, w')
           | ((tainted, None), w') \<Rightarrow> (Inr tainted, w')))"

definition NodesWithLabel :: "(string \<times> (string \<times> string) list) list \<Rightarrow> string \<Rightarrow> string \<Rightarrow> (string \<times> bool) list" where
  "NodesWithLabel nodes label v =
     fold (\<lambda>(name, labels) m. if has_label labels label v then map_put name True m else m) nodes []"

subsection \<open>Pods and what they hold\<close>

record pod_condition =
  pn_Type :: string
  pn_Status :: string
  pn_Message :: string

record pod =
  pd_UID :: string
  pd_Name :: string
  pd_Labels :: "(string \<times> string) list"
  pd_NodeName :: string
  pd_Phase :: string
  pd_Conditions :: "pod_condition list"

record pod_state =
  px_UID :: string
  px_Name :: string
  px_Workload :: string
  px_Node :: string
  px_Running :: bool
  px_Devices :: "string list"

definition append_at :: "string \<Rightarrow> string list \<Rightarrow> (string \<times> string list) list \<Rightarrow> (string \<times> string list) list" where
  "append_at k xs m = (if xs = [] then m else map_put k ((case map_get m k of None \<Rightarrow> [] | Some l \<Rightarrow> l) @ xs) m)"

text \<open>The devices of one claim go to each owner the filter admits, under the owner's key.\<close>

definition collect_devices ::
    "(owner_ref \<Rightarrow> bool) \<Rightarrow> (owner_ref \<Rightarrow> string) \<Rightarrow> resource_claim list \<Rightarrow> (string \<times> string list) list" where
  "collect_devices admit key claims =
     fold (\<lambda>claim m. case cl_Allocation claim of None \<Rightarrow> m
             | Some results \<Rightarrow>
                 fold (\<lambda>ref m. if admit ref then append_at (key ref) (map dr_Device results) m else m)
                   (cl_Owners claim) m)
       claims []"

definition AllocatedDevices :: "pod list \<Rightarrow> resource_claim list \<Rightarrow> (string \<times> string list) list" where
  "AllocatedDevices pods claims =
     collect_devices (\<lambda>ref. ow_Kind ref = ''Pod'' \<and> ow_UID ref \<in> set (map pd_UID pods)) ow_Name claims"

definition SnapshotPods :: "pod list \<Rightarrow> resource_claim list \<Rightarrow> pod_state list" where
  "SnapshotPods pods claims =
     (let devicesByPod = collect_devices (\<lambda>ref. ow_Kind ref = ''Pod'') ow_UID claims
      in map (\<lambda>p. \<lparr>px_UID = pd_UID p, px_Name = pd_Name p,
           px_Workload = (case map_get (pd_Labels p) LabelWorkload of None \<Rightarrow> [] | Some v \<Rightarrow> v),
           px_Node = pd_NodeName p, px_Running = (pd_Phase p = ''Running''),
           px_Devices = (case map_get devicesByPod (pd_UID p) of None \<Rightarrow> [] | Some ds \<Rightarrow> ds)\<rparr>) pods)"

subsection \<open>What the scheduler said\<close>

text \<open>A KAI PodGroup, as far as its status is read: the messages of its scheduling conditions.\<close>

record pod_group =
  gr_Name :: string
  gr_Messages :: "string list option"

definition add_reason :: "string \<Rightarrow> string list \<Rightarrow> string list" where
  "add_reason msg reasons =
     (let m = trim_space msg in if m = [] \<or> m \<in> set reasons then reasons else reasons @ [m])"

text \<open>Either list may be missing because the API call failed; the code then goes on without it.\<close>

definition SchedulerReasons :: "pod_group list option \<Rightarrow> pod list option \<Rightarrow> string \<Rightarrow> string list" where
  "SchedulerReasons groups pods name =
     (let fromGroups = (case groups of None \<Rightarrow> []
            | Some gs \<Rightarrow> concat (map (\<lambda>g. case gr_Messages g of None \<Rightarrow> [] | Some ms \<Rightarrow> ms)
                (filter (\<lambda>g. contains (gr_Name g) name) gs)));
          fromPods = (case pods of None \<Rightarrow> []
            | Some ps \<Rightarrow> concat (map (\<lambda>p. map pn_Message
                (filter (\<lambda>c. pn_Type c = ''PodScheduled'' \<and> pn_Status c = ''False'') (pd_Conditions p)))
                (filter (\<lambda>p. pd_NodeName p = []) ps)))
      in sort (fold add_reason (fromGroups @ fromPods) []))"

subsection \<open>Properties\<close>

lemma get_device_attributes:
  assumes "\<forall>(q, v)\<in>set attrs. \<forall>(q', v')\<in>set attrs. stripDomain q = stripDomain q' \<longrightarrow> attributeString v = attributeString v'"
  shows "map_get (fold (\<lambda>(name, v). map_put (stripDomain name) (attributeString v)) attrs []) k = Some s \<longleftrightarrow>
         (\<exists>(q, v)\<in>set attrs. stripDomain q = k \<and> attributeString v = s)"
proof -
  let ?P = "\<lambda>xs s. \<exists>(q, v)\<in>set xs. stripDomain q = k \<and> attributeString v = s"
  have "map_get (fold (\<lambda>(name, v). map_put (stripDomain name) (attributeString v)) xs m) k = Some s \<longleftrightarrow>
      ?P xs s \<or> map_get m k = Some s"
    if "set xs \<subseteq> set attrs" "\<And>t. map_get m k = Some t \<Longrightarrow> \<forall>(q, v)\<in>set attrs. stripDomain q = k \<longrightarrow> attributeString v = t" for xs m
    using that
  proof (induction xs arbitrary: m)
    case (Cons x xs)
    obtain q v where x: "x = (q, v)" by (cases x)
    have here: "(q, v) \<in> set attrs" using Cons.prems(1) by (simp add: x)
    let ?m = "map_put (stripDomain q) (attributeString v) m"
    have all: "\<forall>(q', v')\<in>set attrs. stripDomain q' = stripDomain q \<longrightarrow> attributeString v' = attributeString v"
      using assms here by (fastforce simp: split_beta)
    have "\<forall>(q', v')\<in>set attrs. stripDomain q' = k \<longrightarrow> attributeString v' = t" if "map_get ?m k = Some t" for t
      using that all Cons.prems(2) by (auto simp: update_conv' split: if_splits)
    with Cons.IH [of ?m] Cons.prems(1)
    have IH: "map_get (fold (\<lambda>(name, v). map_put (stripDomain name) (attributeString v)) xs ?m) k = Some s \<longleftrightarrow>
        ?P xs s \<or> map_get ?m k = Some s" by simp
    have old: "stripDomain q = k \<Longrightarrow> map_get m k = Some s \<Longrightarrow> attributeString v = s"
      using Cons.prems(2) here by fastforce
    show ?case
      using IH old by (cases "stripDomain q = k") (auto simp: x update_conv')
  qed simp
  from this [of attrs "[]"] show ?thesis by simp
qed

text \<open>
  C39. An assertion reads off a GPU what the topology put there: whatever the order in which the
  published attributes are visited, the bare attribute names of a whole-GPU device give back
  its identity, its NUMA node when the profile has a root complex for it, its NVLink domain
  and peer count when it is on NVLink and its fault domain, printed as text, and nothing
  where the attribute was not published.
\<close>

theorem published_attributes_readable:
  assumes "set attrs = set (sd_Attributes (device rn g))"
  shows "(let A = map_get (device_attributes_of ((device rn g)\<lparr>sd_Attributes := attrs\<rparr>))
          in A ''type'' = Some ''gpu'' \<and> A ''uuid'' = Some (rg_UUID g) \<and> A ''productName'' = Some (rn_ProductName rn) \<and>
             A ''numaNode'' = (if rg_HasNUMA g then Some (itoa (rg_NUMANode g)) else None) \<and>
             A ''pcieRoot'' = (if rg_HasNUMA g then Some (rg_PCIeRoot g) else None) \<and>
             A ''nvlinkDomain'' = (if rg_NVLinkDomain g = [] then None else Some (rg_NVLinkDomain g)) \<and>
             A ''nvlinkPeerCount'' = (if rg_NVLinkDomain g = [] then None else Some (itoa (rg_NVLinkPeers g))) \<and>
             A ''faultDomain'' = (if rg_FaultDomain g = [] then None else Some (rg_FaultDomain g)))"
proof -
  have strip: "stripDomain AttrType = ''type''" "stripDomain AttrUUID = ''uuid''"
    "stripDomain AttrProductName = ''productName''" "stripDomain AttrArchitecture = ''architecture''"
    "stripDomain AttrPCIBusID = ''pciBusID''" "stripDomain AttrPCIeRoot = ''pcieRoot''"
    "stripDomain AttrNUMANode = ''numaNode''" "stripDomain AttrNVLinkDomain = ''nvlinkDomain''"
    "stripDomain AttrNVLinkPeerCount = ''nvlinkPeerCount''" "stripDomain AttrFaultDomain = ''faultDomain''"
    "stripDomain AttrLegacyType = ''type''" "stripDomain AttrLegacyUUID = ''uuid''"
    "stripDomain AttrLegacyProductName = ''productName''" "stripDomain AttrLegacyModel = ''model''"
    by (simp_all add: stripDomain_def attr_defs)
  have str: "attributeString (string_attr s) = s" "attributeString (int_attr i) = itoa i" for s i
    by (simp_all add: attributeString_def string_attr_def int_attr_def)
  define pairs where "pairs = map (\<lambda>(q, v). (stripDomain q, attributeString v)) (sd_Attributes (device rn g))"
  have pairs: "pairs =
      [(''type'', ''gpu''), (''uuid'', rg_UUID g), (''productName'', rn_ProductName rn),
       (''type'', ''gpu''), (''uuid'', rg_UUID g), (''productName'', rn_ProductName rn), (''model'', rn_ProductName rn)] @
      (if rn_Architecture rn \<noteq> [] then [(''architecture'', rn_Architecture rn)] else []) @
      (if rg_PCIBusID g \<noteq> [] then [(''pciBusID'', rg_PCIBusID g)] else []) @
      (if rg_HasNUMA g then [(''pcieRoot'', rg_PCIeRoot g), (''numaNode'', itoa (rg_NUMANode g))] else []) @
      (if rg_NVLinkDomain g \<noteq> []
       then [(''nvlinkDomain'', rg_NVLinkDomain g), (''nvlinkPeerCount'', itoa (rg_NVLinkPeers g))] else []) @
      (if rg_FaultDomain g \<noteq> [] then [(''faultDomain'', rg_FaultDomain g)] else [])"
    by (simp add: pairs_def device_def strip str DeviceTypeGPU_def)
  have same: "\<forall>(k, s)\<in>set pairs. \<forall>(k', s')\<in>set pairs. k = k' \<longrightarrow> s = s'"
    unfolding pairs by (auto split: if_splits)
  have in_pairs: "(k, s) \<in> set pairs \<longleftrightarrow> (\<exists>(q, v)\<in>set attrs. stripDomain q = k \<and> attributeString v = s)" for k s
    by (auto simp: pairs_def assms image_iff split_beta)
  have "\<forall>(q, v)\<in>set attrs. \<forall>(q', v')\<in>set attrs. stripDomain q = stripDomain q' \<longrightarrow> attributeString v = attributeString v'"
    using same by (fastforce simp: pairs_def assms)
  note get = get_device_attributes [OF this, folded in_pairs]
  have A: "map_get (device_attributes_of ((device rn g)\<lparr>sd_Attributes := attrs\<rparr>)) k = Some s \<longleftrightarrow> (k, s) \<in> set pairs" for k s
    using get by (simp add: device_attributes_of_def)
  have none: "map_get (device_attributes_of ((device rn g)\<lparr>sd_Attributes := attrs\<rparr>)) k = None \<longleftrightarrow> (\<forall>s. (k, s) \<notin> set pairs)" for k
    using A by (metis not_None_eq option.distinct(1))
  show ?thesis unfolding Let_def by (simp add: A none pairs)
qed

theorem published_attributes_readable_witness:
  "\<exists>rn g. map_get (device_attributes_of ((device rn g)\<lparr>sd_Attributes := rev (sd_Attributes (device rn g))\<rparr>)) ''type'' =
     Some ''gpu''"
  using published_attributes_readable [of "rev (sd_Attributes (device rn g))" rn g for rn g]
  by (auto simp: Let_def)

text \<open>
  C30. Tainting is exact: when every update succeeds, \<open>TaintDevices\<close> reports precisely the names
  of the devices that match, and writes precisely the slices that hold one, in order, each
  once, with one more taint on the devices that match and every other device as it was.
\<close>

theorem TaintDevices_exact:
  assumes "\<And>n ds w. fst (update n ds w) = Inr ()"
  shows "\<exists>tainted. TaintDevices update (Inr slices) m effect w =
      (Inr tainted,
       fold (\<lambda>s w. snd (update (sl_Name s)
               (map (\<lambda>d. if matches m s d then taint_device effect d else d) (ss_Devices (sl_Spec s))) w))
         (filter (\<lambda>s. \<exists>d\<in>set (ss_Devices (sl_Spec s)). matches m s d) slices) w) \<and>
     (\<forall>n. map_get tainted n = Some True \<longleftrightarrow>
        (\<exists>s\<in>set slices. \<exists>d\<in>set (ss_Devices (sl_Spec s)). matches m s d \<and> sd_Name d = n))"
proof -
  have puts: "map_get (fold (\<lambda>d. map_put (sd_Name d) True) ds t) n = Some True \<longleftrightarrow>
      n \<in> sd_Name ` set ds \<or> map_get t n = Some True" for ds t n
    by (induction ds arbitrary: t) (auto simp: update_conv')
  have "\<exists>tainted. taint_loop update m effect slices t w =
      ((tainted, None), fold (\<lambda>s w. snd (update (sl_Name s)
               (map (\<lambda>d. if matches m s d then taint_device effect d else d) (ss_Devices (sl_Spec s))) w))
         (filter (\<lambda>s. \<exists>d\<in>set (ss_Devices (sl_Spec s)). matches m s d) slices) w) \<and>
     (\<forall>n. map_get tainted n = Some True \<longleftrightarrow> map_get t n = Some True \<or>
        (\<exists>s\<in>set slices. \<exists>d\<in>set (ss_Devices (sl_Spec s)). matches m s d \<and> sd_Name d = n))" for t
  proof (induction slices arbitrary: t w)
    case (Cons s slices)
    let ?hit = "filter (matches m s) (ss_Devices (sl_Spec s))"
    let ?t = "fold (\<lambda>d. map_put (sd_Name d) True) ?hit t"
    let ?ds = "map (\<lambda>d. if matches m s d then taint_device effect d else d) (ss_Devices (sl_Spec s))"
    have t: "map_get ?t n = Some True \<longleftrightarrow> map_get t n = Some True \<or>
        (\<exists>d\<in>set (ss_Devices (sl_Spec s)). matches m s d \<and> sd_Name d = n)" for n
      unfolding puts by auto
    show ?case
    proof (cases "?hit = []")
      case True
      then have "\<not> (\<exists>d\<in>set (ss_Devices (sl_Spec s)). matches m s d)" by (auto simp: filter_empty_conv)
      then show ?thesis using Cons.IH [of t w] True by (auto simp: Let_def)
    next
      case False
      then have hit: "\<exists>d\<in>set (ss_Devices (sl_Spec s)). matches m s d" "ss_Devices (sl_Spec s) \<noteq> []"
        by (auto simp: filter_empty_conv)
      obtain w' where u: "update (sl_Name s) ?ds w = (Inr (), w')"
        using assms [of "sl_Name s" ?ds w] by (cases "update (sl_Name s) ?ds w") simp
      have "taint_loop update m effect (s # slices) t w = taint_loop update m effect slices ?t w'"
        using False hit(2) u by (simp add: Let_def)
      then show ?thesis using Cons.IH [of ?t w'] hit(1) u t by auto
    qed
  qed simp
  from this [of "[]"] show ?thesis by (auto simp: TaintDevices_def)
qed

text \<open>Two slices, of which the first holds one device with the profile the fault names.\<close>

definition demo_partition :: "string \<Rightarrow> string \<Rightarrow> slice_device" where
  "demo_partition name profile = \<lparr>sd_Name = name, sd_Attributes = [(''gpu.nvidia.com/profile'', string_attr profile)],
     sd_Capacity = [], sd_ConsumesCounters = [], sd_Taints = []\<rparr>"

definition demo_slice :: "string \<Rightarrow> slice_device list \<Rightarrow> resource_slice" where
  "demo_slice node devices = \<lparr>sl_Name = node @ ''-mig'', sl_Labels = [],
     sl_Spec = \<lparr>ss_Driver = DriverName, ss_NodeName = Some node, ss_PoolName = node, ss_PoolGeneration = 0,
       ss_PoolSliceCount = 1, ss_SharedCounters = [], ss_Devices = devices\<rparr>\<rparr>"

abbreviation demo_slices :: "resource_slice list" where
  "demo_slices \<equiv> [demo_slice ''n1'' [demo_partition ''a'' ''1g.10gb'', demo_partition ''b'' ''2g.20gb''],
     demo_slice ''n2'' [demo_partition ''c'' ''2g.20gb'']]"

lemma demo_matches:
  "matches \<lparr>dm_Nodes = [], dm_Attributes = [(''profile'', ''1g.10gb'')]\<rparr> s (demo_partition name profile) \<longleftrightarrow> profile = ''1g.10gb''"
  by (simp add: matches_def attribute_matches_def demo_partition_def lookupQualified_def stripDomain_def
      attributeString_def string_attr_def)

theorem TaintDevices_exact_witness:
  "\<exists>tainted. TaintDevices (\<lambda>n ds w. (Inr (), w @ [(n, ds)])) (Inr demo_slices)
       \<lparr>dm_Nodes = [], dm_Attributes = [(''profile'', ''1g.10gb'')]\<rparr> EffectNoExecute [] =
     (Inr tainted, [(''n1-mig'', [taint_device EffectNoExecute (demo_partition ''a'' ''1g.10gb''), demo_partition ''b'' ''2g.20gb''])]) \<and>
     map_get tainted ''a'' = Some True \<and> map_get tainted ''b'' \<noteq> Some True \<and> map_get tainted ''c'' \<noteq> Some True"
proof -
  have names: "sd_Name (demo_partition n p) = n" "sl_Name (demo_slice n ds) = n @ ''-mig''"
    "ss_Devices (sl_Spec (demo_slice n ds)) = ds" for n p ds
    by (simp_all add: demo_partition_def demo_slice_def)
  let ?m = "\<lparr>dm_Nodes = [], dm_Attributes = [(''profile'', ''1g.10gb'')]\<rparr>"
  have hit: "filter (\<lambda>s. \<exists>d\<in>set (ss_Devices (sl_Spec s)). matches ?m s d) demo_slices =
      [demo_slice ''n1'' [demo_partition ''a'' ''1g.10gb'', demo_partition ''b'' ''2g.20gb'']]"
    by (simp add: demo_matches names)
  obtain tainted where run: "TaintDevices (\<lambda>n ds w. (Inr (), w @ [(n, ds)])) (Inr demo_slices) ?m EffectNoExecute [] =
      (Inr tainted, fold (\<lambda>s w. snd ((Inr (), w @ [(sl_Name s,
         map (\<lambda>d. if matches ?m s d then taint_device EffectNoExecute d else d) (ss_Devices (sl_Spec s)))]) :: (string + unit) \<times> _))
         (filter (\<lambda>s. \<exists>d\<in>set (ss_Devices (sl_Spec s)). matches ?m s d) demo_slices) [])"
    "\<And>n. map_get tainted n = Some True \<longleftrightarrow>
        (\<exists>s\<in>set demo_slices. \<exists>d\<in>set (ss_Devices (sl_Spec s)). matches ?m s d \<and> sd_Name d = n)"
    using TaintDevices_exact [of "\<lambda>n ds w. (Inr (), w @ [(n, ds)])" demo_slices ?m EffectNoExecute "[]"] by (simp only: fst_conv simp_thms) blast
  have "map_get tainted n = Some True \<longleftrightarrow> n = ''a''" for n
    unfolding run(2) by (auto simp: demo_matches names)
  then show ?thesis unfolding run(1) hit by (simp add: demo_matches names)
qed

lemma fold_add_reason:
  "distinct acc \<Longrightarrow> distinct (fold add_reason msgs acc) \<and>
     set (fold add_reason msgs acc) = set acc \<union> (trim_space ` set msgs - {[]})"
proof (induction msgs arbitrary: acc)
  case (Cons msg msgs)
  have "distinct (add_reason msg acc)" "set (add_reason msg acc) = set acc \<union> ({trim_space msg} - {[]})"
    using Cons.prems by (auto simp: add_reason_def Let_def)
  with Cons.IH [of "add_reason msg acc"] show ?case by auto
qed simp

text \<open>
  The reported reasons are the scheduler's own and each appears once: the list is sorted
  and without repetition, and holds exactly the trimmed, non-empty messages of the scheduling
  conditions of the PodGroups whose name contains the workload's and of the failed
  \<open>PodScheduled\<close> conditions of its unplaced pods.
\<close>

theorem SchedulerReasons_exact:
  "sorted (SchedulerReasons groups pods name) \<and> distinct (SchedulerReasons groups pods name) \<and>
   set (SchedulerReasons groups pods name) =
     trim_space ` ({msg. \<exists>gs g ms. groups = Some gs \<and> g \<in> set gs \<and> contains (gr_Name g) name \<and>
                      gr_Messages g = Some ms \<and> msg \<in> set ms} \<union>
                   {msg. \<exists>ps p c. pods = Some ps \<and> p \<in> set ps \<and> pd_NodeName p = [] \<and> c \<in> set (pd_Conditions p) \<and>
                      pn_Type c = ''PodScheduled'' \<and> pn_Status c = ''False'' \<and> msg = pn_Message c}) - {[]}"
proof -
  let ?g = "case groups of None \<Rightarrow> [] | Some gs \<Rightarrow> concat (map (\<lambda>g. case gr_Messages g of None \<Rightarrow> [] | Some ms \<Rightarrow> ms)
                (filter (\<lambda>g. contains (gr_Name g) name) gs))"
  let ?p = "case pods of None \<Rightarrow> [] | Some ps \<Rightarrow> concat (map (\<lambda>p. map pn_Message
                (filter (\<lambda>c. pn_Type c = ''PodScheduled'' \<and> pn_Status c = ''False'') (pd_Conditions p)))
                (filter (\<lambda>p. pd_NodeName p = []) ps))"
  have g: "set ?g = {msg. \<exists>gs g ms. groups = Some gs \<and> g \<in> set gs \<and> contains (gr_Name g) name \<and>
      gr_Messages g = Some ms \<and> msg \<in> set ms}"
    by (auto split: option.splits) force+
  have p: "set ?p = {msg. \<exists>ps p c. pods = Some ps \<and> p \<in> set ps \<and> pd_NodeName p = [] \<and> c \<in> set (pd_Conditions p) \<and>
      pn_Type c = ''PodScheduled'' \<and> pn_Status c = ''False'' \<and> msg = pn_Message c}"
    by (auto split: option.splits)
  have eq: "SchedulerReasons groups pods name = sort (fold add_reason (?g @ ?p) [])"
    unfolding SchedulerReasons_def Let_def by (rule refl)
  show ?thesis
    using fold_add_reason [of "[]" "?g @ ?p"] unfolding eq g [symmetric] p [symmetric] by simp
qed

end
