(* ===== verification/GoTime.thy ===== *)
theory GoTime
  imports GoPrelude
begin

text \<open>
  What the program uses of Go's package \<open>time\<close>. A \<open>Duration\<close> is a number of nanoseconds and an
  instant is the number of nanoseconds since the zero \<open>Time\<close>, so that the zero value of
  \<open>time.Time\<close> is \<open>0\<close>.
\<close>

definition Millisecond :: int where "Millisecond = 1000000"
definition Second :: int where "Second = 1000000000"

text \<open>\<open>Duration.Round\<close>: to the nearest multiple, halfway values away from zero.\<close>

definition duration_round :: "int \<Rightarrow> int \<Rightarrow> int" where
  "duration_round d m =
     (if m \<le> 0 then d
      else let r = \<bar>d\<bar> mod m; away = (if r + r < m then \<bar>d\<bar> - r else \<bar>d\<bar> + m - r)
           in sgn d * away)"

text \<open>\<open>Duration.Milliseconds\<close> truncates.\<close>

definition duration_milliseconds :: "int \<Rightarrow> int" where
  "duration_milliseconds d = go_quot d Millisecond"

text \<open>
  \<open>Duration.String\<close>: below a second a single unit, otherwise hours, minutes and seconds
  without leading zero units; in each case a decimal fraction without trailing zeros.
\<close>

definition fraction_text :: "nat \<Rightarrow> nat \<Rightarrow> string" where
  "fraction_text v prec =
     (let digits = itoa_nat (v mod 10 ^ prec);
          padded = replicate (prec - length digits) CHR ''0'' @ digits;
          kept = rev (dropWhile (\<lambda>c. c = CHR ''0'') (rev padded))
      in if v mod 10 ^ prec = 0 then [] else CHR ''.'' # kept)"

definition decimal_text :: "nat \<Rightarrow> nat \<Rightarrow> string" where
  "decimal_text v prec = itoa_nat (v div 10 ^ prec) @ fraction_text v prec"

definition duration_text :: "int \<Rightarrow> string" where
  "duration_text d =
     (let u = nat \<bar>d\<bar>; secs = u div 10 ^ 9; mins = secs div 60; hours = mins div 60;
          s = itoa_nat (secs mod 60) @ fraction_text u 9 @ ''s'';
          body = (if u = 0 then ''0s''
                  else if u < 10 ^ 3 then decimal_text u 0 @ ''ns''
                  else if u < 10 ^ 6 then decimal_text u 3 @ [CHR 0xC2, CHR 0xB5, CHR ''s'']
                  else if u < 10 ^ 9 then decimal_text u 6 @ ''ms''
                  else (if hours > 0 then itoa_nat hours @ ''h'' else []) @
                       (if mins > 0 then itoa_nat (mins mod 60) @ ''m'' else []) @ s)
      in if d < 0 then CHR ''-'' # body else body)"

lemma duration_text_examples:
  "duration_text 0 = ''0s''" "duration_text (90 * Second) = ''1m30s''"
  "duration_text 1500000000 = ''1.5s''" "duration_text (3600 * Second) = ''1h0m0s''"
  "duration_text (- 2500000) = ''-2.5ms''"
  by (simp_all add: duration_text_def Second_def Let_def decimal_text_def fraction_text_def itoa_nat.simps digit_char_def)

lemma duration_round_near:
  assumes "0 < m"
  shows "2 * \<bar>duration_round d m - d\<bar> \<le> m \<and> m dvd duration_round d m"
proof -
  define r where "r = \<bar>d\<bar> mod m"
  have r: "0 \<le> r" "r < m" "m dvd \<bar>d\<bar> - r" using assms by (auto simp: r_def minus_mod_eq_mult_div)
  then have "m dvd \<bar>d\<bar> - r + m" by (rule_tac dvd_add) auto
  then have up: "m dvd \<bar>d\<bar> + m - r" by (simp add: algebra_simps)
  define away where "away = (if r + r < m then \<bar>d\<bar> - r else \<bar>d\<bar> + m - r)"
  have round: "duration_round d m = sgn d * away"
    using assms by (simp add: duration_round_def r_def away_def)
  have away: "2 * \<bar>away - \<bar>d\<bar>\<bar> \<le> m" "m dvd away"
    using r up by (auto simp: away_def)
  have "\<bar>sgn d * away - d\<bar> \<le> \<bar>away - \<bar>d\<bar>\<bar>"
    by (cases d "0 :: int" rule: linorder_cases) auto
  with away show ?thesis unfolding round by auto
qed

end
