(* ===== verification/RunnerClient.thy ===== *)
theory RunnerClient
  imports Scenario Workload ClusterDevices GoTime
begin

text \<open>
  The runner's view of a cluster: the methods of \<open>cluster.Client\<close> that internal/runner calls,
  and the clock. Everything outside the program is a world of arbitrary type \<open>'w\<close>, which
  every call receives and returns. A method that returns \<open>(T, error)\<close> is a \<open>call\<close>: \<open>Inl\<close> of
  the error's text (the runner uses nothing else of an error) or \<open>Inr\<close> of the value, and
  \<open>None\<close> where the method panics or never returns.
\<close>

type_synonym ('w, 'a) call = "'w \<Rightarrow> ((string + 'a) \<times> 'w) option"

record topology_result =
  tr_Name :: string
  tr_Nodes :: int
  tr_Slices :: int
  tr_Devices :: int
  tr_Removed :: "string list"

text \<open>
  \<open>kc_Now\<close> is \<open>time.Now\<close>, \<open>kc_After d\<close> the \<open>select\<close> on \<open>time.After(d)\<close> and \<open>ctx.Done()\<close>
  (\<open>Inl\<close> of the context's error when the run is interrupted), \<open>kc_Progress\<close> the callback
  that receives the log lines.
\<close>

record 'w client =
  kc_Now :: "'w \<Rightarrow> int \<times> 'w"
  kc_After :: "int \<Rightarrow> 'w \<Rightarrow> (string + unit) \<times> 'w"
  kc_Progress :: "string \<Rightarrow> 'w \<Rightarrow> 'w"
  kc_ApplyTopology :: "string \<Rightarrow> ('w, topology_result) call"
  kc_EnsureNamespace :: "string \<Rightarrow> ('w, unit) call"
  kc_ClearNamespace :: "string \<Rightarrow> ('w, unit) call"
  kc_AllPods :: "string \<Rightarrow> ('w, pod list) call"
  kc_WorkloadPods :: "string \<Rightarrow> string \<Rightarrow> ('w, pod list) call"
  kc_Submit :: "string \<Rightarrow> objects \<Rightarrow> ('w, unit) call"
  kc_Retire :: "string \<Rightarrow> string \<Rightarrow> ('w, unit) call"
  kc_SnapshotPods :: "string \<Rightarrow> ('w, pod_state list) call"
  kc_DeleteNode :: "string \<Rightarrow> ('w, unit) call"
  kc_NodesWithLabel :: "string \<Rightarrow> string \<Rightarrow> ('w, (string \<times> bool) list) call"
  kc_TaintDevices :: "device_match \<Rightarrow> string \<Rightarrow> ('w, (string \<times> bool) list) call"
  kc_NodeLabel :: "string \<Rightarrow> string \<Rightarrow> ('w, string) call"
  kc_AllocatedDevices :: "string \<Rightarrow> string \<Rightarrow> ('w, (string \<times> string list) list) call"
  kc_DeviceAttributes :: "('w, (string \<times> (string \<times> string) list) list) call"
  kc_SchedulerReasons :: "string \<Rightarrow> string \<Rightarrow> 'w \<Rightarrow> (string list \<times> 'w) option"
  kc_Fragmentation :: "('w, node_fragmentation list) call"

definition Namespace :: string where "Namespace = ''gpu-sim-scenarios''"

definition defaultWait :: int where "defaultWait = 60 * Second"

record fault_record =
  fr_name :: string
  fr_firedAt :: int
  fr_disrupted :: "(string \<times> (string \<times> bool) list) list"

definition add_casualty :: "fault_record \<Rightarrow> pod_state \<Rightarrow> fault_record" where
  "add_casualty f p =
     (let uids = (case map_get (fr_disrupted f) (px_Workload p) of None \<Rightarrow> [] | Some m \<Rightarrow> m)
      in f\<lparr>fr_disrupted := map_put (px_Workload p) (map_put (px_UID p) True uids) (fr_disrupted f)\<rparr>)"

definition record_total :: "fault_record \<Rightarrow> int" where
  "record_total f = sum_list (map (\<lambda>(_, uids). int (length uids)) (fr_disrupted f))"

text \<open>The UIDs the faults took from one workload, the instant of the last fault, and whether any fired.\<close>

definition disruptedFor :: "fault_record list \<Rightarrow> string \<Rightarrow> (string \<times> bool) list \<times> int \<times> bool" where
  "disruptedFor faults name =
     (let (uids, last) = fold (\<lambda>r (uids, last).
            (fold (\<lambda>(uid, _). map_put uid True)
               (case map_get (fr_disrupted r) name of None \<Rightarrow> [] | Some m \<Rightarrow> m) uids,
             if fr_firedAt r > last then fr_firedAt r else last))
          faults ([], 0)
      in (uids, last, faults \<noteq> []))"

text \<open>The UIDs of one workload that the records name.\<close>

definition casualties :: "fault_record list \<Rightarrow> string \<Rightarrow> string set" where
  "casualties faults name =
     (\<Union>r\<in>set faults. case map_get (fr_disrupted r) name of None \<Rightarrow> {} | Some m \<Rightarrow> fst ` set m)"

lemma put_all_true:
  assumes "distinct (map_keys m)" "\<forall>u\<in>set (map_keys m). map_get m u = Some True"
  shows "distinct (map_keys (fold (\<lambda>(uid, _). map_put uid True) xs m)) \<and>
     set (map_keys (fold (\<lambda>(uid, _). map_put uid True) xs m)) = set (map_keys m) \<union> fst ` set xs \<and>
     (\<forall>u\<in>set (map_keys m) \<union> fst ` set xs. map_get (fold (\<lambda>(uid, _). map_put uid True) xs m) u = Some True)"
  using assms
proof (induction xs arbitrary: m)
  case (Cons x xs)
  have "distinct (map_keys (map_put (fst x) True m))"
    "\<forall>u\<in>set (map_keys (map_put (fst x) True m)). map_get (map_put (fst x) True m) u = Some True"
    using Cons.prems by (auto simp: distinct_update update_conv' simp del: map_of_eq_Some_iff)
  from Cons.IH [OF this] show ?case by (simp add: split_beta del: map_of_eq_Some_iff)
qed simp

lemma disruptedFor_casualties:
  "\<exists>uids. disruptedFor faults name = (uids, fold max (map fr_firedAt faults) 0, faults \<noteq> []) \<and>
     distinct (map_keys uids) \<and> set (map_keys uids) = casualties faults name \<and>
     (\<forall>u. map_get uids u = Some True \<longleftrightarrow> u \<in> casualties faults name)"
proof -
  let ?step = "\<lambda>r (uids, last). (fold (\<lambda>(uid, _). map_put uid True)
               (case map_get (fr_disrupted r) name of None \<Rightarrow> [] | Some m \<Rightarrow> m) uids,
             if fr_firedAt r > last then fr_firedAt r else last)"
  have "\<exists>uids. fold ?step faults (m, l) = (uids, fold max (map fr_firedAt faults) l) \<and> distinct (map_keys uids) \<and>
      set (map_keys uids) = set (map_keys m) \<union> casualties faults name \<and>
      (\<forall>u\<in>set (map_keys uids). map_get uids u = Some True)"
    if "distinct (map_keys m)" "\<forall>u\<in>set (map_keys m). map_get m u = Some True" for m l
    using that
  proof (induction faults arbitrary: m l)
    case (Cons r faults)
    let ?new = "case map_get (fr_disrupted r) name of None \<Rightarrow> [] | Some m \<Rightarrow> m"
    let ?m = "fold (\<lambda>(uid, _). map_put uid True) ?new m"
    note put = put_all_true [OF Cons.prems, of ?new]
    have "\<forall>u\<in>set (map_keys ?m). map_get ?m u = Some True" "distinct (map_keys ?m)" using put by blast+
    note IH = Cons.IH [OF this(2,1), of "max (fr_firedAt r) l"]
    have "(if fr_firedAt r > l then fr_firedAt r else l) = max (fr_firedAt r) l" by simp
    then show ?case
      using IH put by (auto simp: casualties_def simp del: map_of_eq_Some_iff split: option.splits)
  qed (simp add: casualties_def)
  from this [of "[]" 0] have "\<exists>uids. fold ?step faults ([], 0) = (uids, fold max (map fr_firedAt faults) 0) \<and>
      distinct (map_keys uids) \<and> set (map_keys uids) = casualties faults name \<and>
      (\<forall>u\<in>set (map_keys uids). map_get uids u = Some True)" by simp
  then obtain uids where *: "fold ?step faults ([], 0) = (uids, fold max (map fr_firedAt faults) 0)"
    "distinct (map_keys uids)" "set (map_keys uids) = casualties faults name"
    "\<forall>u\<in>set (map_keys uids). map_get uids u = Some True" by blast
  have "map_get uids u = Some True \<longleftrightarrow> u \<in> casualties faults name" for u
    using *(3,4) by (metis image_eqI fst_conv list.set_map map_of_SomeD)
  with * show ?thesis by (intro exI [of _ uids]) (simp add: disruptedFor_def)
qed

subsection \<open>The clock\<close>

text \<open>A step of the program that always returns and never turns the clock back.\<close>

definition forward :: "('w \<Rightarrow> int) \<Rightarrow> ('w \<Rightarrow> ('a \<times> 'w) option) \<Rightarrow> bool" where
  "forward time m \<longleftrightarrow> (\<forall>w. \<exists>r w'. m w = Some (r, w') \<and> time w \<le> time w')"

lemma forwardD: "forward time m \<Longrightarrow> \<exists>r w'. m w = Some (r, w') \<and> time w \<le> time w'"
  by (auto simp: forward_def)

lemma forward_ends: "forward time m \<Longrightarrow> m w \<noteq> None"
  using forwardD [of time m w] by auto

lemma forward_le: "forward time m \<Longrightarrow> m w = Some (r, w') \<Longrightarrow> time w \<le> time w'"
  using forwardD [of time m w] by auto

named_theorems forward_rules \<open>how a run forward in time composes\<close>

lemma forward_return [forward_rules]: "forward time (\<lambda>w. Some (x, w))"
  by (simp add: forward_def)

lemma forward_bind [forward_rules]:
  assumes "forward time m" "\<And>r. forward time (f r)"
  shows "forward time (\<lambda>w. m w \<bind> (\<lambda>(r, w). f r w))"
  unfolding forward_def
proof
  fix w
  obtain r w' where 1: "m w = Some (r, w')" "time w \<le> time w'" using forwardD [OF assms(1)] by blast
  obtain r' w'' where 2: "f r w' = Some (r', w'')" "time w' \<le> time w''" using forwardD [OF assms(2)] by blast
  show "\<exists>r' w''. m w \<bind> (\<lambda>(r, w). f r w) = Some (r', w'') \<and> time w \<le> time w''"
    using 1 2 by auto
qed

lemma forward_if [forward_rules]:
  "(b \<Longrightarrow> forward time m) \<Longrightarrow> (\<not> b \<Longrightarrow> forward time n) \<Longrightarrow> forward time (\<lambda>w. if b then m w else n w)"
  by (cases b) simp_all

lemma forward_sum [forward_rules]:
  "(\<And>e. x = Inl e \<Longrightarrow> forward time (m e)) \<Longrightarrow> (\<And>a. x = Inr a \<Longrightarrow> forward time (n a)) \<Longrightarrow>
   forward time (\<lambda>w. case x of Inl e \<Rightarrow> m e w | Inr a \<Rightarrow> n a w)"
  by (cases x) simp_all

lemma forward_option [forward_rules]:
  "(x = None \<Longrightarrow> forward time m) \<Longrightarrow> (\<And>a. x = Some a \<Longrightarrow> forward time (n a)) \<Longrightarrow>
   forward time (\<lambda>w. case x of None \<Rightarrow> m w | Some a \<Rightarrow> n a w)"
  by (cases x) simp_all

lemma forward_list [forward_rules]:
  "(xs = [] \<Longrightarrow> forward time m) \<Longrightarrow> (\<And>y ys. xs = y # ys \<Longrightarrow> forward time (n y ys)) \<Longrightarrow>
   forward time (\<lambda>w. case xs of [] \<Rightarrow> m w | y # ys \<Rightarrow> n y ys w)"
  by (cases xs) simp_all

lemma forward_pair [forward_rules]:
  "(\<And>a b. x = (a, b) \<Longrightarrow> forward time (m a b)) \<Longrightarrow> forward time (\<lambda>w. case x of (a, b) \<Rightarrow> m a b w)"
  by (cases x) simp

lemma forward_case_prod [forward_rules]:
  "(\<And>a b. x = (a, b) \<Longrightarrow> forward time (m a b)) \<Longrightarrow> forward time (case x of (a, b) \<Rightarrow> m a b)"
  by (cases x) simp

lemma forward_eq: "(\<And>w. m w = n w) \<Longrightarrow> forward time n \<Longrightarrow> forward time m"
  by (simp add: forward_def)

text \<open>A step that cannot fail, such as reading the clock or waiting, before a call.\<close>

lemma forward_first:
  assumes "\<And>w r w'. now w = (r, w') \<Longrightarrow> time w \<le> time w'" "\<And>r. forward time (f r)"
  shows "forward time (\<lambda>w. case now w of (r, w) \<Rightarrow> f r w)"
  unfolding forward_def
proof
  fix w
  obtain r w' where 1: "now w = (r, w')" "time w \<le> time w'" using assms(1) by (cases "now w") auto
  obtain r' w'' where 2: "f r w' = Some (r', w'')" "time w' \<le> time w''" using forwardD [OF assms(2)] by blast
  show "\<exists>r' w''. (case now w of (r, w) \<Rightarrow> f r w) = Some (r', w'') \<and> time w \<le> time w''"
    using 1 2 by auto
qed

lemma forward_pre:
  assumes "\<And>w. time w \<le> time (g w)" "forward time m"
  shows "forward time (\<lambda>w. m (g w))"
  using assms by (meson forward_def order_trans)

text \<open>
  What the runner's waiting relies on: no call turns the clock back, \<open>time.Now\<close> reads an instant
  between its call and its return, and a wait that was not interrupted lasted at least as long
  as asked. \<open>time\<close> is the clock of the world, in nanoseconds.
\<close>

locale clock =
  fixes time :: "'w \<Rightarrow> int"
    and now :: "'w \<Rightarrow> int \<times> 'w"
    and after :: "int \<Rightarrow> 'w \<Rightarrow> (string + unit) \<times> 'w"
  assumes now_reads: "now w = (t, w') \<Longrightarrow> time w \<le> t \<and> t \<le> time w'"
    and after_waits: "after d w = (Inr u, w') \<Longrightarrow> time w + d \<le> time w'"
    and after_mono: "after d w = (r, w') \<Longrightarrow> time w \<le> time w'"
begin

lemma now_mono: "now w = (t, w') \<Longrightarrow> time w \<le> time w'"
  using now_reads order_trans by blast

text \<open>
  The shape of every polling loop of the program: try, stop on success or once the deadline has
  passed, otherwise wait and try again. It always ends, whatever the attempts do, as long as
  each attempt returns and does not turn the clock back; and it ends for one of three reasons:
  an attempt made at or after the start succeeded, the last attempt failed and the deadline has
  passed, or the wait was interrupted.
\<close>

lemma polling_result:
  assumes step: "\<And>w. loop w = (case attempt w of None \<Rightarrow> None
       | Some (Inr r, w1) \<Rightarrow> Some (r, w1)
       | Some (Inl e, w1) \<Rightarrow> (case now w1 of (t, w2) \<Rightarrow>
            if t > deadline then Some (give_up e, w2) else
            (case after d w2 of (Inl c, w3) \<Rightarrow> Some (cancelled c, w3) | (Inr _, w3) \<Rightarrow> loop w3)))"
    and attempt: "forward time attempt" and pos: "0 < d"
  shows "\<exists>r w'. loop w = Some (r, w') \<and> time w \<le> time w' \<and>
     ((\<exists>w1. attempt w1 = Some (Inr r, w') \<and> time w \<le> time w1) \<or>
      (\<exists>w1 w2 e. attempt w1 = Some (Inl e, w2) \<and> r = give_up e \<and> time w \<le> time w1 \<and> deadline < time w') \<or>
      (\<exists>c v v'. r = cancelled c \<and> after d v = (Inl c, v')))"
proof (induction "nat (deadline - time w + d)" arbitrary: w rule: less_induct)
  case less
  obtain r w1 where at: "attempt w = Some (r, w1)" "time w \<le> time w1" using forwardD [OF attempt] by blast
  show ?case
  proof (cases r)
    case (Inr x)
    then have "loop w = Some (x, w1)" by (subst step) (simp add: at)
    then show ?thesis using at Inr by blast
  next
    case (Inl e)
    obtain t w2 where now: "now w1 = (t, w2)" by (cases "now w1")
    obtain c w3 where aft: "after d w2 = (c, w3)" by (cases "after d w2")
    have t: "time w1 \<le> t" "t \<le> time w2" "time w2 \<le> time w3"
      using now_reads [OF now] after_mono [OF aft] by auto
    have loop: "loop w = (if t > deadline then Some (give_up e, w2)
        else case c of Inl c \<Rightarrow> Some (cancelled c, w3) | Inr _ \<Rightarrow> loop w3)"
      by (subst step) (simp add: at(1) Inl now aft)
    consider "t > deadline" | c' where "\<not> t > deadline" "c = Inl c'" | u where "\<not> t > deadline" "c = Inr u"
      by (cases c) auto
    then show ?thesis
    proof cases
      case 1
      then have "loop w = Some (give_up e, w2)" "time w \<le> time w2" "deadline < time w2"
        using at(2) t by (auto simp: loop)
      then show ?thesis using at(1) Inl by blast
    next
      case 2
      then have "loop w = Some (cancelled c', w3)" "time w \<le> time w3" using at(2) t by (auto simp: loop)
      then show ?thesis using aft 2(2) by blast
    next
      case 3
      then have "loop w = loop w3" by (simp add: loop)
      moreover have "time w2 + d \<le> time w3" using after_waits aft 3(2) by auto
      then have "time w \<le> time w3" "nat (deadline - time w3 + d) < nat (deadline - time w + d)"
        using at(2) t 3(1) pos by linarith+
      ultimately show ?thesis using less [of w3] order_trans [of "time w" "time w3"] by metis
    qed
  qed
qed

lemma polling_ends:
  assumes "\<And>w. loop w = (case attempt w of None \<Rightarrow> None
       | Some (Inr r, w1) \<Rightarrow> Some (r, w1)
       | Some (Inl e, w1) \<Rightarrow> (case now w1 of (t, w2) \<Rightarrow>
            if t > deadline then Some (give_up e, w2) else
            (case after d w2 of (Inl c, w3) \<Rightarrow> Some (cancelled c, w3) | (Inr _, w3) \<Rightarrow> loop w3)))"
    and "forward time attempt" "0 < d"
  shows "forward time loop"
  using polling_result [where loop = loop and attempt = attempt and deadline = deadline
      and give_up = give_up and d = d and cancelled = cancelled, OF assms] unfolding forward_def by blast

end

text \<open>
  The runner's world obeys the laws of time when, besides the clock, every method of the client
  returns and none turns the clock back.
\<close>

locale timed_client = clock time "kc_Now C" "kc_After C"
  for time :: "'w \<Rightarrow> int" and C :: "'w client" +
  assumes progress: "time w \<le> time (kc_Progress C line w)"
    and calls: "forward time (kc_ApplyTopology C path)" "forward time (kc_EnsureNamespace C ns)"
      "forward time (kc_ClearNamespace C ns)" "forward time (kc_AllPods C ns)"
      "forward time (kc_WorkloadPods C ns name)" "forward time (kc_Submit C ns objs)"
      "forward time (kc_Retire C ns name)" "forward time (kc_SnapshotPods C ns)"
      "forward time (kc_DeleteNode C name)" "forward time (kc_NodesWithLabel C label v)"
      "forward time (kc_TaintDevices C m effect)" "forward time (kc_NodeLabel C name label)"
      "forward time (kc_AllocatedDevices C ns name)" "forward time (kc_DeviceAttributes C)"
      "forward time (kc_SchedulerReasons C ns name)" "forward time (kc_Fragmentation C)"
begin

lemma forward_now [forward_rules]:
  "(\<And>t. forward time (m t)) \<Longrightarrow> forward time (\<lambda>w. case kc_Now C w of (t, w) \<Rightarrow> m t w)"
  using now_mono by (intro forward_first) auto

lemma forward_after [forward_rules]:
  "(\<And>r. forward time (m r)) \<Longrightarrow> forward time (\<lambda>w. case kc_After C d w of (r, w) \<Rightarrow> m r w)"
  using after_mono by (intro forward_first) auto

lemma forward_log_after [forward_rules]:
  "(\<And>r. forward time (m r)) \<Longrightarrow>
   forward time (\<lambda>w. case kc_After C d (kc_Progress C line w) of (r, w) \<Rightarrow> m r w)"
  by (rule forward_first, rule order_trans [OF progress after_mono])

lemma forward_progress: "forward time m \<Longrightarrow> forward time (\<lambda>w. m (kc_Progress C line w))"
  using progress by (rule forward_pre)

lemma forward_log: "forward time (\<lambda>w. Some (x, kc_Progress C line w))"
  using progress by (simp add: forward_def)

lemmas runs_forward = forward_rules calls forward_log

end

end
