(* ===== verification/RunnerAssert.thy ===== *)
theory RunnerAssert
  imports RunnerClient
begin

text \<open>
  internal/runner/assert.go: how one assertion is judged. Every check returns its verdict and
  the detail line of the report; a failed call of the client is a failed check.
\<close>

subsection \<open>Checks\<close>

text \<open>The text of \<open>strconv.Atoi\<close>'s error.\<close>

definition atoi_error :: "string \<Rightarrow> string" where
  "atoi_error s =
     (let body = (if s \<noteq> [] \<and> (hd s = CHR ''-'' \<or> hd s = CHR ''+'') then tl s else s)
      in ''strconv.Atoi: parsing '' @ go_quote s @
         (if body \<noteq> [] \<and> list_all is_digit body then '': value out of range'' else '': invalid syntax''))"

definition checkScheduled :: "'w client \<Rightarrow> assertion \<Rightarrow> int \<Rightarrow> 'w \<Rightarrow> ((bool \<times> string) \<times> 'w) option" where
  "checkScheduled C a replicas w =
     (case ExpectedScheduled a replicas of
        None \<Rightarrow> Some ((False, atoi_error (as_Scheduled a)), w)
      | Some want \<Rightarrow> do {
          (r, w) \<leftarrow> kc_WorkloadPods C Namespace (as_Workload a) w;
          case r of
            Inl err \<Rightarrow> Some ((False, err), w)
          | Inr pods \<Rightarrow>
              (let got = int (length (filter (\<lambda>p. pd_NodeName p \<noteq> []) pods))
               in Some ((got = want, ''expected '' @ itoa want @ '' of '' @ itoa replicas @
                    '' replicas scheduled, got '' @ itoa got), w)) })"

definition checkRunning :: "'w client \<Rightarrow> assertion \<Rightarrow> int \<Rightarrow> 'w \<Rightarrow> ((bool \<times> string) \<times> 'w) option" where
  "checkRunning C a want w = do {
     (r, w) \<leftarrow> kc_WorkloadPods C Namespace (as_Workload a) w;
     case r of
       Inl err \<Rightarrow> Some ((False, err), w)
     | Inr pods \<Rightarrow>
         (let got = int (length (filter (\<lambda>p. pd_Phase p = ''Running'') pods))
          in Some ((got = want, ''expected '' @ itoa want @ '' replicas running, got '' @ itoa got), w)) }"

text \<open>\<open>values[value]++\<close> on a counting map.\<close>

definition bump :: "string \<Rightarrow> (string \<times> int) list \<Rightarrow> (string \<times> int) list" where
  "bump k m = map_put k ((case map_get m k of None \<Rightarrow> 0 | Some n \<Rightarrow> n) + 1) m"

definition describeCounts :: "(string \<times> int) list \<Rightarrow> string" where
  "describeCounts values =
     join '', '' (map (\<lambda>k. k @ ''='' @ itoa (case map_get values k of None \<Rightarrow> 0 | Some n \<Rightarrow> n))
                  (sort (map_keys values)))"

definition describeAttrs :: "(string \<times> string) list \<Rightarrow> string" where
  "describeAttrs attrs =
     join '', '' (map (\<lambda>k. k @ ''='' @ (case map_get attrs k of None \<Rightarrow> [] | Some v \<Rightarrow> v))
                  (sort (map_keys attrs)))"

text \<open>The loop of \<open>checkConfinedTo\<close>: the level's value of every placed replica's node.\<close>

fun domains_loop ::
    "'w client \<Rightarrow> string \<Rightarrow> pod list \<Rightarrow> (string \<times> int) list \<Rightarrow> int \<Rightarrow> ('w, (string \<times> int) list \<times> int) call" where
  "domains_loop C label [] values hosted w = Some (Inr (values, hosted), w)"
| "domains_loop C label (p # pods) values hosted w =
     (if pd_NodeName p = [] then domains_loop C label pods values hosted w
      else do {
        (r, w) \<leftarrow> kc_NodeLabel C (pd_NodeName p) label w;
        case r of
          Inl err \<Rightarrow> Some (Inl err, w)
        | Inr v \<Rightarrow> domains_loop C label pods (bump v values) (hosted + 1) w })"

definition unknown_level :: "string \<Rightarrow> string" where
  "unknown_level level =
     ''unknown topology level '' @ go_quote level @ '', want one of '' @ join '', '' KnownLevels"

definition checkConfinedTo :: "'w client \<Rightarrow> assertion \<Rightarrow> 'w \<Rightarrow> ((bool \<times> string) \<times> 'w) option" where
  "checkConfinedTo C a w =
     (case LabelForLevel (as_ConfinedTo a) of
        None \<Rightarrow> Some ((False, unknown_level (as_ConfinedTo a)), w)
      | Some label \<Rightarrow> do {
          (r, w) \<leftarrow> kc_WorkloadPods C Namespace (as_Workload a) w;
          case r of
            Inl err \<Rightarrow> Some ((False, err), w)
          | Inr pods \<Rightarrow> do {
              (r, w) \<leftarrow> domains_loop C label pods [] 0 w;
              case r of
                Inl err \<Rightarrow> Some ((False, err), w)
              | Inr (values, hosted) \<Rightarrow>
                  (if hosted = 0 then
                     Some ((False, ''no replica was placed, so '' @ go_quote (as_Workload a) @
                       '' cannot be confined to one '' @ as_ConfinedTo a), w)
                   else (case values of
                      [(v, n)] \<Rightarrow> Some ((True, ''all '' @ itoa n @ '' placed replicas are in '' @
                        as_ConfinedTo a @ '' '' @ go_quote v), w)
                    | _ \<Rightarrow> Some ((False, ''placed replicas span '' @ itoa (int (length values)) @ '' '' @
                        as_ConfinedTo a @ ''s: '' @ describeCounts values), w))) } })"

text \<open>
  The two inner loops of \<open>checkAllocatedDevices\<close>: the first published attribute that is not
  what was asked for, then the first device of any pod that fails.
\<close>

fun attribute_mismatch :: "(string \<times> string) list \<Rightarrow> (string \<times> string) list \<Rightarrow> (string \<times> string \<times> string) option" where
  "attribute_mismatch got [] = None"
| "attribute_mismatch got ((name, want) # wanted) =
     (let g = (case map_get got name of None \<Rightarrow> [] | Some v \<Rightarrow> v)
      in if g \<noteq> want then Some (name, g, want) else attribute_mismatch got wanted)"

fun devices_loop ::
    "(string \<times> (string \<times> string) list) list \<Rightarrow> (string \<times> string) list \<Rightarrow> (string \<times> string) list \<Rightarrow> int \<Rightarrow> string + int" where
  "devices_loop attrs wanted [] checked = Inr checked"
| "devices_loop attrs wanted ((p, d) # devices) checked =
     (case map_get attrs d of
        None \<Rightarrow> Inl (''device '' @ d @ '' is allocated but not published'')
      | Some got \<Rightarrow>
          (case attribute_mismatch got wanted of
             Some (name, g, want) \<Rightarrow> Inl (''pod '' @ p @ '' holds device '' @ d @ '' with '' @ name @ ''='' @
               go_quote g @ '', want '' @ go_quote want)
           | None \<Rightarrow> devices_loop attrs wanted devices (checked + 1)))"

definition checkAllocatedDevices :: "'w client \<Rightarrow> assertion \<Rightarrow> 'w \<Rightarrow> ((bool \<times> string) \<times> 'w) option" where
  "checkAllocatedDevices C a w = do {
     (r, w) \<leftarrow> kc_AllocatedDevices C Namespace (as_Workload a) w;
     case r of
       Inl err \<Rightarrow> Some ((False, err), w)
     | Inr byPod \<Rightarrow> do {
         (r, w) \<leftarrow> kc_DeviceAttributes C w;
         case r of
           Inl err \<Rightarrow> Some ((False, err), w)
         | Inr attrs \<Rightarrow>
             (if byPod = [] then Some ((False, ''no device was allocated to the workload''), w)
              else (case devices_loop attrs (as_AllocatedDevices a)
                          (concat (map (\<lambda>(p, ds). map (Pair p) ds) byPod)) 0 of
                 Inl detail \<Rightarrow> Some ((False, detail), w)
               | Inr checked \<Rightarrow> Some ((True, ''all '' @ itoa checked @ '' allocated devices match '' @
                   describeAttrs (as_AllocatedDevices a)), w))) } }"

definition checkUnschedulableReason :: "'w client \<Rightarrow> assertion \<Rightarrow> 'w \<Rightarrow> ((bool \<times> string) \<times> 'w) option" where
  "checkUnschedulableReason C a w = do {
     (reasons, w) \<leftarrow> kc_SchedulerReasons C Namespace (as_Workload a) w;
     case find (\<lambda>reason. contains reason (as_UnschedulableReason a)) reasons of
       Some reason \<Rightarrow> Some ((True, ''the scheduler said: '' @ reason), w)
     | None \<Rightarrow>
         (if reasons = [] then
            Some ((False, ''the scheduler gave no reason; expected one containing '' @
              go_quote (as_UnschedulableReason a)), w)
          else Some ((False, ''no reason contained '' @ go_quote (as_UnschedulableReason a) @
              ''; the scheduler said: '' @ join '' | '' reasons), w)) }"

definition checkDisrupted :: "fault_record list \<Rightarrow> assertion \<Rightarrow> int \<Rightarrow> bool \<times> string" where
  "checkDisrupted faults a want =
     (let (uids, _, fired) = disruptedFor faults (as_Workload a); got = int (length uids)
      in if \<not> fired then (False, ''no fault fired, so nothing was disrupted'')
         else (got = want, ''the fault took out '' @ itoa got @ '' of '' @ go_quote (as_Workload a) @
           CHR 0x27 # ''s running replicas, expected '' @ itoa want))"

definition checkRescheduled ::
    "'w client \<Rightarrow> fault_record list \<Rightarrow> assertion \<Rightarrow> int \<Rightarrow> 'w \<Rightarrow> ((bool \<times> string) \<times> 'w) option" where
  "checkRescheduled C faults a replicas w =
     (let (disrupted, firedAt, fired) = disruptedFor faults (as_Workload a); lost = itoa (int (length disrupted))
      in if \<not> fired then Some ((False, ''no fault fired, so there was nothing to recover from''), w)
         else if disrupted = [] then
           Some ((False, ''the fault disrupted no replica of '' @ go_quote (as_Workload a) @
             '', so there was nothing to recover from''), w)
         else do {
           (r, w) \<leftarrow> kc_WorkloadPods C Namespace (as_Workload a) w;
           case r of
             Inl err \<Rightarrow> Some ((False, err), w)
           | Inr pods \<Rightarrow>
               (let healthy = int (length (filter (\<lambda>p. pd_Phase p = ''Running'' \<and>
                      map_get disrupted (pd_UID p) \<noteq> Some True) pods));
                    (t, w) = kc_Now C w;
                    elapsed = duration_text (duration_round (t - firedAt) Second)
                in if healthy \<ge> replicas
                   then Some ((True, lost @ '' replicas lost, back to '' @ itoa healthy @ '' running '' @
                          elapsed @ '' after the fault''), w)
                   else Some ((False, lost @ '' replicas lost, only '' @ itoa healthy @ '' of '' @ itoa replicas @
                          '' running again '' @ elapsed @ '' after the fault''), w)) })"

text \<open>The GPUs that lost something, as the detail line lists them.\<close>

definition worst_lines :: "node_fragmentation \<Rightarrow> string list" where
  "worst_lines node =
     map (\<lambda>gpu. nf_Node node @ '' GPU '' @ itoa (rp_GPUIndex gpu) @ '' lost '' @ itoa (TotalLost gpu) @
            '' ('' @ itoa (rp_FreeMemorySlices gpu) @ '' memory slices free, largest allocatable '' @
            (if rp_LargestAllocatable gpu = [] then ''nothing'' else rp_LargestAllocatable gpu) @ '')'')
       (filter (\<lambda>gpu. TotalLost gpu > 0) (nf_GPUs node))"

definition checkFragmentation ::
    "'w client \<Rightarrow> fragmentation_assertion \<Rightarrow> 'w \<Rightarrow> ((bool \<times> string) \<times> 'w) option" where
  "checkFragmentation C fa w = do {
     (r, w) \<leftarrow> kc_Fragmentation C w;
     case r of
       Inl err \<Rightarrow> Some ((False, err), w)
     | Inr nodes \<Rightarrow>
         (if nodes = [] then
            Some ((False, ''no MIG-enabled nodes were found, so there is no fragmentation to measure''), w)
          else
            (let lost = sum_list (map nodeTotalLost nodes);
                 worst = concat (map worst_lines nodes);
                 detail = itoa lost @ '' partitions lost to fragmentation'' @
                   (if worst = [] then [] else '': '' @ join ''; '' worst);
                 low = (case fa_AtLeast fa of Some n \<Rightarrow> if lost < n then Some n else None | None \<Rightarrow> None);
                 high = (case fa_AtMost fa of Some n \<Rightarrow> if lost > n then Some n else None | None \<Rightarrow> None)
             in case low of
                  Some n \<Rightarrow> Some ((False, detail @ '', want at least '' @ itoa n), w)
                | None \<Rightarrow> (case high of
                      Some n \<Rightarrow> Some ((False, detail @ '', want at most '' @ itoa n), w)
                    | None \<Rightarrow> Some ((True, detail), w)))) }"

text \<open>The conditions in the order of the source's \<open>switch\<close>; the first that is set decides.\<close>

definition check ::
    "'w client \<Rightarrow> fault_record list \<Rightarrow> assertion \<Rightarrow> int \<Rightarrow> 'w \<Rightarrow> ((bool \<times> string) \<times> 'w) option" where
  "check C faults a replicas w =
     (if as_Scheduled a \<noteq> [] then checkScheduled C a replicas w
      else if as_ConfinedTo a \<noteq> [] then checkConfinedTo C a w
      else case as_Running a of Some want \<Rightarrow> checkRunning C a want w
      | None \<Rightarrow>
      if as_AllocatedDevices a \<noteq> [] then checkAllocatedDevices C a w
      else if as_UnschedulableReason a \<noteq> [] then checkUnschedulableReason C a w
      else case as_Disrupted a of Some want \<Rightarrow> Some (checkDisrupted faults a want, w)
      | None \<Rightarrow>
      if as_RescheduledWithin a > 0 then checkRescheduled C faults a replicas w
      else case as_Fragmentation a of Some fa \<Rightarrow> checkFragmentation C fa w
      | None \<Rightarrow> Some ((False, ''assertion sets no condition''), w))"

subsection \<open>Waiting\<close>

record assertion_result =
  ar_Name :: string
  ar_Passed :: bool
  ar_Detail :: string
  ar_SchedulerSaid :: "string list"
  ar_Placement :: "(string \<times> int) list"

definition placement_of :: "'w client \<Rightarrow> string \<Rightarrow> 'w \<Rightarrow> ((string \<times> int) list \<times> 'w) option" where
  "placement_of C name w = do {
     (r, w) \<leftarrow> kc_WorkloadPods C Namespace name w;
     Some ((case r of
              Inl _ \<Rightarrow> []
            | Inr pods \<Rightarrow>
                fold (\<lambda>p. bump (if pd_NodeName p = [] then ''(unscheduled)'' else pd_NodeName p)) pods []), w) }"

text \<open>
  The polling loop of \<open>evaluate\<close>: \<open>Inr\<close> of the last verdict, or \<open>Inl\<close> of the context's error when
  the run was interrupted while waiting.
\<close>

partial_function (option) evaluate_loop ::
    "'w client \<Rightarrow> fault_record list \<Rightarrow> assertion \<Rightarrow> int \<Rightarrow> int \<Rightarrow> 'w \<Rightarrow> ((string + bool \<times> string) \<times> 'w) option" where
  "evaluate_loop C faults a replicas deadline w = do {
     ((ok, detail), w) \<leftarrow> check C faults a replicas w;
     if ok then Some (Inr (ok, detail), w)
     else (case kc_Now C w of (t, w) \<Rightarrow>
        if t > deadline then Some (Inr (ok, detail), w)
        else (case kc_After C (2 * Second) w of
            (Inl err, w) \<Rightarrow> Some (Inl err, w)
          | (Inr _, w) \<Rightarrow> evaluate_loop C faults a replicas deadline w)) }"

text \<open>\<open>settle\<close> waits out the period and checks once.\<close>

definition evaluate_settle ::
    "'w client \<Rightarrow> fault_record list \<Rightarrow> assertion \<Rightarrow> int \<Rightarrow> 'w \<Rightarrow> ((string + bool \<times> string) \<times> 'w) option" where
  "evaluate_settle C faults a replicas w =
     (let w = kc_Progress C (''settling '' @ duration_text (as_Settle a) @ '' before checking '' @
                go_quote (as_Name a)) w
      in case kc_After C (as_Settle a) w of
           (Inl err, w) \<Rightarrow> Some (Inl err, w)
         | (Inr _, w) \<Rightarrow> do { (v, w) \<leftarrow> check C faults a replicas w; Some (Inr v, w) })"

definition deadline_of :: "fault_record list \<Rightarrow> assertion \<Rightarrow> int \<Rightarrow> int" where
  "deadline_of faults a now =
     (let budget = (if as_Within a \<le> 0 then defaultWait else as_Within a);
          (_, firedAt, fired) = disruptedFor faults (as_Workload a)
      in if as_RescheduledWithin a > 0 \<and> fired then firedAt + as_RescheduledWithin a else now + budget)"

definition await ::
    "'w client \<Rightarrow> fault_record list \<Rightarrow> assertion \<Rightarrow> int \<Rightarrow> 'w \<Rightarrow> ((string + bool \<times> string) \<times> 'w) option" where
  "await C faults a replicas w =
     (if as_Settle a > 0 then evaluate_settle C faults a replicas w
      else (case kc_Now C w of (t, w) \<Rightarrow> evaluate_loop C faults a replicas (deadline_of faults a t) w))"

definition evaluate ::
    "'w client \<Rightarrow> fault_record list \<Rightarrow> assertion \<Rightarrow> int \<Rightarrow> 'w \<Rightarrow> (assertion_result \<times> 'w) option" where
  "evaluate C faults a replicas w =
     (let empty = \<lparr>ar_Name = as_Name a, ar_Passed = False, ar_Detail = [], ar_SchedulerSaid = [], ar_Placement = []\<rparr>
      in do {
        (v, w) \<leftarrow> await C faults a replicas w;
        case v of
          Inl err \<Rightarrow> Some (empty\<lparr>ar_Detail := err\<rparr>, w)
        | Inr (ok, detail) \<Rightarrow>
            (let result = empty\<lparr>ar_Passed := ok, ar_Detail := detail\<rparr>
             in if as_Workload a = [] then Some (result, w)
                else do {
                  (pl, w) \<leftarrow> placement_of C (as_Workload a) w;
                  if ok then Some (result\<lparr>ar_Placement := pl\<rparr>, w)
                  else do {
                    (said, w) \<leftarrow> kc_SchedulerReasons C Namespace (as_Workload a) w;
                    Some (result\<lparr>ar_Placement := pl, ar_SchedulerSaid := said\<rparr>, w) } }) })"

subsection \<open>Every check returns\<close>

context timed_client
begin

lemma forward_domains_loop: "forward time (domains_loop C label pods vs hosted)"
proof (induction pods arbitrary: vs hosted)
  case Nil
  show ?case by (rule forward_eq [OF domains_loop.simps(1)]) (rule forward_return)
next
  case (Cons p pods)
  show ?case by (rule forward_eq [OF domains_loop.simps(2)]) (intro runs_forward Cons)
qed

lemma forward_check: "forward time (check C faults a replicas)"
  unfolding check_def checkScheduled_def checkConfinedTo_def checkRunning_def checkAllocatedDevices_def
    checkUnschedulableReason_def checkRescheduled_def checkFragmentation_def Let_def
  by (intro runs_forward forward_domains_loop)

lemma forward_placement_of: "forward time (placement_of C name)"
  unfolding placement_of_def by (intro runs_forward)

text \<open>The polling loop ends: an attempt is one check, and it gives up once past the deadline.\<close>

definition check_attempt ::
    "fault_record list \<Rightarrow> assertion \<Rightarrow> int \<Rightarrow> 'w \<Rightarrow>
     (((bool \<times> string) + (string + bool \<times> string)) \<times> 'w) option" where
  "check_attempt faults a replicas w = check C faults a replicas w \<bind>
     (\<lambda>((ok, detail), w). Some (if ok then Inr (Inr (ok, detail)) else Inl (ok, detail), w))"

lemma forward_check_attempt: "forward time (check_attempt faults a replicas)"
  unfolding check_attempt_def by (intro runs_forward forward_check)

lemma check_attempt_result:
  "check_attempt faults a replicas w = Some (Inr r, w') \<longleftrightarrow>
     (\<exists>detail. r = Inr (True, detail) \<and> check C faults a replicas w = Some ((True, detail), w'))"
  "check_attempt faults a replicas w = Some (Inl v, w') \<longleftrightarrow>
     (\<exists>detail. v = (False, detail) \<and> check C faults a replicas w = Some ((False, detail), w'))"
  by (auto simp: check_attempt_def split: bind_splits if_splits)

lemma evaluate_loop_step:
  "evaluate_loop C faults a replicas deadline w = (case check_attempt faults a replicas w of None \<Rightarrow> None
     | Some (Inr r, w1) \<Rightarrow> Some (r, w1)
     | Some (Inl e, w1) \<Rightarrow> (case kc_Now C w1 of (t, w2) \<Rightarrow>
          if t > deadline then Some (Inr e, w2) else
          (case kc_After C (2 * Second) w2 of (Inl c, w3) \<Rightarrow> Some (Inl c, w3)
           | (Inr _, w3) \<Rightarrow> evaluate_loop C faults a replicas deadline w3)))"
  by (subst evaluate_loop.simps)
    (auto simp: check_attempt_def split: bind_splits option.splits sum.splits prod.splits)

lemmas evaluate_loop_polls =
  polling_result [where loop = "evaluate_loop C faults a replicas deadline" and d = "2 * Second"
    and deadline = deadline and cancelled = Inl and give_up = Inr
    and attempt = "check_attempt faults a replicas" for faults a replicas deadline,
    OF evaluate_loop_step forward_check_attempt]

lemma forward_evaluate_loop: "forward time (evaluate_loop C faults a replicas deadline)"
  using evaluate_loop_polls [of faults a replicas deadline] unfolding forward_def by (simp add: Second_def) blast

lemma evaluate_loop_verdict:
  assumes "evaluate_loop C faults a replicas deadline w = Some (Inr (ok, detail), w')"
  shows "\<exists>w1 w2. check C faults a replicas w1 = Some ((ok, detail), w2) \<and> time w \<le> time w1 \<and>
     (\<not> ok \<longrightarrow> deadline < time w')"
  using evaluate_loop_polls [of faults a replicas deadline w] assms
  by (cases ok; simp add: Second_def check_attempt_result; blast)

lemma evaluate_loop_interrupted:
  assumes "evaluate_loop C faults a replicas deadline w = Some (Inl err, w')"
  shows "\<exists>d v v'. kc_After C d v = (Inl err, v')"
  using evaluate_loop_polls [of faults a replicas deadline w] assms
  by (simp add: Second_def check_attempt_result) blast

text \<open>
  What \<open>await\<close> promises: a verdict comes from a check made when the scenario allows it, no
  verdict means that a wait was interrupted.
\<close>

definition fair_verdict :: "fault_record list \<Rightarrow> assertion \<Rightarrow> int \<Rightarrow> 'w \<Rightarrow> bool \<Rightarrow> string \<Rightarrow> 'w \<Rightarrow> bool" where
  "fair_verdict faults a replicas w ok detail w' \<longleftrightarrow>
     (\<exists>w1 w2. check C faults a replicas w1 = Some ((ok, detail), w2) \<and>
        time w + max 0 (as_Settle a) \<le> time w1 \<and>
        (\<not> ok \<and> as_Settle a \<le> 0 \<longrightarrow> (\<exists>t. time w \<le> t \<and> deadline_of faults a t < time w')))"

lemma await_verdict:
  assumes "await C faults a replicas w = Some (v, w')"
  shows "case v of Inl err \<Rightarrow> \<exists>d v v'. kc_After C d v = (Inl err, v')
     | Inr (ok, detail) \<Rightarrow> fair_verdict faults a replicas w ok detail w'"
proof (cases "as_Settle a > 0")
  case True
  let ?w = "kc_Progress C (''settling '' @ duration_text (as_Settle a) @ '' before checking '' @ go_quote (as_Name a)) w"
  obtain r w1 where r: "kc_After C (as_Settle a) ?w = (r, w1)" by (cases "kc_After C (as_Settle a) ?w")
  show ?thesis
  proof (cases r)
    case (Inl err)
    then have "v = Inl err" using assms True r by (simp add: await_def evaluate_settle_def Let_def)
    moreover have "\<exists>d v v'. kc_After C d v = (Inl err, v')" using r Inl by blast
    ultimately show ?thesis by simp
  next
    case (Inr u)
    then have "time ?w + as_Settle a \<le> time w1" using after_waits r by blast
    moreover have "time w \<le> time ?w" by (rule progress)
    ultimately have "time w + as_Settle a \<le> time w1" by linarith
    then show ?thesis using assms True r Inr
      by (auto simp: await_def evaluate_settle_def Let_def fair_verdict_def max_def split: bind_splits) blast
  qed
next
  case False
  obtain t w1 where t: "kc_Now C w = (t, w1)" by (cases "kc_Now C w")
  then have loop: "evaluate_loop C faults a replicas (deadline_of faults a t) w1 = Some (v, w')"
    using assms False by (simp add: await_def)
  have le: "time w \<le> t" "time w \<le> time w1" using now_reads [OF t] by auto
  show ?thesis
  proof (cases v)
    case (Inl err)
    then show ?thesis using evaluate_loop_interrupted loop by simp
  next
    case (Inr od)
    obtain ok detail where od: "od = (ok, detail)" by (cases od)
    from evaluate_loop_verdict [OF loop [unfolded Inr od]] le False show ?thesis
      by (auto simp: Inr od fair_verdict_def max_def)
  qed
qed

lemma evaluate_from_await:
  assumes "evaluate C faults a replicas w = Some (ar, w')"
  shows "\<exists>v w1. await C faults a replicas w = Some (v, w1) \<and> time w1 \<le> time w' \<and>
     (case v of Inl err \<Rightarrow> \<not> ar_Passed ar \<and> ar_Detail ar = err
      | Inr (ok, detail) \<Rightarrow> ar_Passed ar = ok \<and> ar_Detail ar = detail)"
proof -
  obtain v w1 where v: "await C faults a replicas w = Some (v, w1)"
    using assms by (cases "await C faults a replicas w") (auto simp: evaluate_def Let_def)
  show ?thesis
  proof (cases v)
    case (Inl err)
    then show ?thesis using assms v by (auto simp: evaluate_def Let_def)
  next
    case (Inr od)
    obtain ok detail where od: "od = (ok, detail)" by (cases od)
    obtain pl w2 where pl: "placement_of C (as_Workload a) w1 = Some (pl, w2)" "time w1 \<le> time w2"
      using forwardD [OF forward_placement_of] by blast
    obtain said w3 where said: "kc_SchedulerReasons C Namespace (as_Workload a) w2 = Some (said, w3)"
      "time w2 \<le> time w3" using forwardD [OF calls(15)] by blast
    have "time w1 \<le> time w3" using pl(2) said(2) by (rule order_trans)
    with assms pl said show ?thesis
      by (auto simp: evaluate_def Let_def v Inr od split: if_splits)
  qed
qed

lemma evaluate_fair:
  assumes "evaluate C faults a replicas w = Some (ar, w')"
  shows "fair_verdict faults a replicas w (ar_Passed ar) (ar_Detail ar) w' \<or>
     \<not> ar_Passed ar \<and> (\<exists>d v v'. kc_After C d v = (Inl (ar_Detail ar), v'))"
proof -
  obtain v w1 where v: "await C faults a replicas w = Some (v, w1)" "time w1 \<le> time w'"
     "case v of Inl err \<Rightarrow> \<not> ar_Passed ar \<and> ar_Detail ar = err
      | Inr (ok, detail) \<Rightarrow> ar_Passed ar = ok \<and> ar_Detail ar = detail"
    using evaluate_from_await [OF assms] by blast
  have later: "fair_verdict faults a replicas w ok detail w1 \<Longrightarrow> fair_verdict faults a replicas w ok detail w'"
    for ok detail using v(2) unfolding fair_verdict_def by (meson order_less_le_trans)
  show ?thesis using await_verdict [OF v(1)] v(3) later by (auto split: sum.splits prod.splits)
qed

lemma forward_evaluate: "forward time (evaluate C faults a replicas)"
  unfolding evaluate_def await_def evaluate_settle_def Let_def
  by (intro runs_forward forward_evaluate_loop forward_check forward_placement_of)

end

subsection \<open>What a verdict means\<close>

text \<open>A call that returns the value \<open>r\<close> whenever it is made: the cluster stands still.\<close>

definition answers :: "('w \<Rightarrow> ('a \<times> 'w) option) \<Rightarrow> 'a \<Rightarrow> bool" where
  "answers m r \<longleftrightarrow> (\<forall>w. \<exists>w'. m w = Some (r, w'))"

lemma answersD: "answers m r \<Longrightarrow> \<exists>w'. m w = Some (r, w')"
  by (simp add: answers_def)

definition hosted_pods :: "pod list \<Rightarrow> pod list" where
  "hosted_pods pods = filter (\<lambda>p. pd_NodeName p \<noteq> []) pods"

lemma get_bump [simp]: "map_get (bump k m) = (map_get m)(k \<mapsto> (case map_get m k of None \<Rightarrow> 0 | Some n \<Rightarrow> n) + 1)"
  by (simp add: bump_def update_conv' fun_upd_def)

lemma keys_bump [simp]: "distinct (map_keys m) \<Longrightarrow> distinct (map_keys (bump k m))"
  "fst ` set (bump k m) = insert k (fst ` set m)"
  by (simp_all add: bump_def distinct_update)

lemma domains_loop_answers:
  assumes "\<And>n. answers (kc_NodeLabel C n label) (Inr (lab n))"
  shows "distinct (map_keys m) \<Longrightarrow>
     \<exists>m' w'. domains_loop C label pods m h w = Some (Inr (m', h + int (length (hosted_pods pods))), w') \<and>
       distinct (map_keys m') \<and> set (map_keys m') = set (map_keys m) \<union> (lab \<circ> pd_NodeName) ` set (hosted_pods pods)"
proof (induction pods arbitrary: m h w)
  case (Cons p pods)
  show ?case
  proof (cases "pd_NodeName p = []")
    case True
    then show ?thesis using Cons by (simp add: hosted_pods_def)
  next
    case False
    obtain w1 where w1: "kc_NodeLabel C (pd_NodeName p) label w = Some (Inr (lab (pd_NodeName p)), w1)"
      using answersD [OF assms] by blast
    have "distinct (map_keys (bump (lab (pd_NodeName p)) m))" using Cons.prems by simp
    from Cons.IH [OF this, of "h + 1" w1] show ?thesis
      by (auto simp: False w1 hosted_pods_def)
  qed
qed (simp add: hosted_pods_def)

lemma one_key: "distinct (map_keys m) \<Longrightarrow> length m = 1 \<longleftrightarrow> (\<exists>k. set (map_keys m) = {k})"
  by (metis length_map distinct_card card_1_singleton_iff One_nat_def)

lemma checkConfinedTo_verdict:
  assumes "LabelForLevel (as_ConfinedTo a) = Some label"
    and "answers (kc_WorkloadPods C Namespace (as_Workload a)) (Inr pods)"
    and "\<And>n. answers (kc_NodeLabel C n label) (Inr (lab n))"
  shows "\<exists>detail w'. checkConfinedTo C a w =
     Some ((\<exists>v. (lab \<circ> pd_NodeName) ` set (hosted_pods pods) = {v}, detail), w')"
proof -
  obtain w1 where w1: "kc_WorkloadPods C Namespace (as_Workload a) w = Some (Inr pods, w1)"
    using answersD [OF assms(2)] by blast
  obtain m w2 where m: "domains_loop C label pods [] 0 w1 = Some (Inr (m, int (length (hosted_pods pods))), w2)"
    and keys: "distinct (map_keys m)" "set (map_keys m) = (lab \<circ> pd_NodeName) ` set (hosted_pods pods)"
    using domains_loop_answers [OF assms(3), of "[]" pods 0 w1] by auto
  have check: "checkConfinedTo C a w = (if hosted_pods pods = [] then
       Some ((False, ''no replica was placed, so '' @ go_quote (as_Workload a) @
         '' cannot be confined to one '' @ as_ConfinedTo a), w2)
     else (case m of
        [(v, n)] \<Rightarrow> Some ((True, ''all '' @ itoa n @ '' placed replicas are in '' @
          as_ConfinedTo a @ '' '' @ go_quote v), w2)
      | _ \<Rightarrow> Some ((False, ''placed replicas span '' @ itoa (int (length m)) @ '' '' @
          as_ConfinedTo a @ ''s: '' @ describeCounts m), w2)))"
    by (simp add: checkConfinedTo_def assms(1) w1 m)
  show ?thesis
  proof (cases "hosted_pods pods = []")
    case True
    then show ?thesis by (simp add: check)
  next
    case False
    then show ?thesis
      using one_key [OF keys(1)] unfolding check keys(2) by (auto split: list.splits)
  qed
qed

text \<open>
  C24. \<open>confinedTo\<close> means what it says on a cluster that stands still: the check passes exactly
  when at least one replica is placed and all placed replicas sit on nodes with one and the
  same value of the level's label, where a node without the label counts as having the empty
  value; an unplaced replica is never held against it.
\<close>

theorem checkConfinedTo_exact:
  assumes "LabelForLevel (as_ConfinedTo a) = Some label"
    and "answers (kc_WorkloadPods C Namespace (as_Workload a)) (Inr pods)"
    and "\<And>n. answers (kc_NodeLabel C n label) (Inr (lab n))"
  shows "\<exists>detail w'. checkConfinedTo C a w =
     Some ((\<exists>v. (lab \<circ> pd_NodeName) ` set (hosted_pods pods) = {v}, detail), w')"
  using assms by (rule checkConfinedTo_verdict)

text \<open>A world that never changes, with a clock that jumps to the end of every wait.\<close>

definition still_client :: "pod list \<Rightarrow> (string \<Rightarrow> string \<Rightarrow> string) \<Rightarrow> int client" where
  "still_client pods labels =
     \<lparr>kc_Now = (\<lambda>t. (t, t)), kc_After = (\<lambda>d t. (Inr (), t + max 0 d)), kc_Progress = (\<lambda>_ t. t),
      kc_ApplyTopology = (\<lambda>_ t. Some (Inr \<lparr>tr_Name = ''demo'', tr_Nodes = 1, tr_Slices = 1, tr_Devices = 1, tr_Removed = []\<rparr>, t)),
      kc_EnsureNamespace = (\<lambda>_ t. Some (Inr (), t)), kc_ClearNamespace = (\<lambda>_ t. Some (Inr (), t)),
      kc_AllPods = (\<lambda>_ t. Some (Inr [], t)), kc_WorkloadPods = (\<lambda>_ _ t. Some (Inr pods, t)),
      kc_Submit = (\<lambda>_ _ t. Some (Inr (), t)), kc_Retire = (\<lambda>_ _ t. Some (Inr (), t)),
      kc_SnapshotPods = (\<lambda>_ t. Some (Inr (SnapshotPods pods []), t)), kc_DeleteNode = (\<lambda>_ t. Some (Inr (), t)),
      kc_NodesWithLabel = (\<lambda>_ _ t. Some (Inr [], t)), kc_TaintDevices = (\<lambda>_ _ t. Some (Inr [], t)),
      kc_NodeLabel = (\<lambda>n l t. Some (Inr (labels n l), t)),
      kc_AllocatedDevices = (\<lambda>_ _ t. Some (Inr [], t)), kc_DeviceAttributes = (\<lambda>t. Some (Inr [], t)),
      kc_SchedulerReasons = (\<lambda>_ _ t. Some ([], t)), kc_Fragmentation = (\<lambda>t. Some (Inr [], t))\<rparr>"

lemma still_client_timed: "timed_client (\<lambda>t. t) (still_client pods labels)"
  by unfold_locales (auto simp: still_client_def forward_def)

definition demo_pod :: "string \<Rightarrow> string \<Rightarrow> pod" where
  "demo_pod uid node = \<lparr>pd_UID = uid, pd_Name = uid, pd_Labels = [(LabelWorkload, ''train'')],
     pd_NodeName = node, pd_Phase = ''Running'', pd_Conditions = []\<rparr>"

definition demo_assertion :: assertion where
  "demo_assertion = \<lparr>as_Name = ''a'', as_Workload = ''train'', as_Scheduled = [], as_ConfinedTo = [],
     as_Running = None, as_AllocatedDevices = [], as_Disrupted = None, as_RescheduledWithin = 0,
     as_Fragmentation = None, as_UnschedulableReason = [], as_Within = 0, as_Settle = 0\<rparr>"

theorem checkConfinedTo_exact_witness:
  "\<exists>detail w'. checkConfinedTo (still_client [demo_pod ''p'' ''n1'', demo_pod ''q'' ''n2''] (\<lambda>n _. n))
     (demo_assertion\<lparr>as_ConfinedTo := ''rack''\<rparr>) 5 = Some ((False, detail), w')"
  using checkConfinedTo_exact [of "demo_assertion\<lparr>as_ConfinedTo := ''rack''\<rparr>" LabelRack
      "still_client [demo_pod ''p'' ''n1'', demo_pod ''q'' ''n2''] (\<lambda>n _. n)"
      "[demo_pod ''p'' ''n1'', demo_pod ''q'' ''n2'']" "\<lambda>n. n" 5]
  by (auto simp: LabelForLevel_def levelLabels_def answers_def still_client_def demo_pod_def
      demo_assertion_def hosted_pods_def)

text \<open>
  Confinement to a level that no node has passes: replicas spread over any number of nodes
  none of which carries the level's label (an NVLink domain on a cluster without NVLink) are
  all in the domain with the empty name, and \<open>confinedTo\<close> reports success.
\<close>

theorem confinedTo_unlabelled_passes:
  assumes "LabelForLevel (as_ConfinedTo a) = Some label"
    and "answers (kc_WorkloadPods C Namespace (as_Workload a)) (Inr pods)"
    and "\<And>n. answers (kc_NodeLabel C n label) (Inr [])" "hosted_pods pods \<noteq> []"
  shows "\<exists>detail w'. checkConfinedTo C a w = Some ((True, detail), w')"
  using checkConfinedTo_verdict [OF assms(1,2), of "\<lambda>_. []" w] assms(3,4) by (auto simp: image_constant_conv)

theorem confinedTo_unlabelled_passes_witness:
  "\<exists>detail w'. checkConfinedTo (still_client [demo_pod ''p'' ''n1'', demo_pod ''q'' ''n2''] (\<lambda>_ _. []))
     (demo_assertion\<lparr>as_ConfinedTo := ''nvlink-domain''\<rparr>) 5 = Some ((True, detail), w')"
  using confinedTo_unlabelled_passes [of "demo_assertion\<lparr>as_ConfinedTo := ''nvlink-domain''\<rparr>" LabelNVLinkDomain
      "still_client [demo_pod ''p'' ''n1'', demo_pod ''q'' ''n2''] (\<lambda>_ _. [])"
      "[demo_pod ''p'' ''n1'', demo_pod ''q'' ''n2'']" 5]
  by (auto simp: LabelForLevel_def levelLabels_def answers_def still_client_def demo_pod_def
      demo_assertion_def hosted_pods_def)

lemma attribute_mismatch_None:
  "attribute_mismatch got wanted = None \<longleftrightarrow>
     (\<forall>(name, want)\<in>set wanted. (case map_get got name of None \<Rightarrow> [] | Some v \<Rightarrow> v) = want)"
  by (induction wanted) (auto simp: Let_def split: if_splits)

lemma devices_loop_Inr:
  "(\<exists>n. devices_loop attrs wanted devices k = Inr n) \<longleftrightarrow>
     (\<forall>(p, d)\<in>set devices. \<exists>got. map_get attrs d = Some got \<and> attribute_mismatch got wanted = None)"
proof (induction devices arbitrary: k)
  case (Cons x devices)
  obtain p d where x: "x = (p, d)" by (cases x)
  show ?case
  proof (cases "\<exists>got. map_get attrs d = Some got \<and> attribute_mismatch got wanted = None")
    case True
    then show ?thesis using Cons.IH [of "k + 1"] by (auto simp: x)
  next
    case False
    then show ?thesis by (auto simp: x split: option.splits)
  qed
qed simp

text \<open>
  C25. \<open>allocatedDevices\<close> means what it says, whatever the order in which the pods, their devices
  and the wanted attributes are visited: the check passes exactly when some device is
  allocated to the workload's pods, every one of them is published, and each wanted attribute
  has the wanted value on each (an attribute that is not published counting as empty).
\<close>

theorem checkAllocatedDevices_exact:
  assumes "answers (kc_AllocatedDevices C Namespace (as_Workload a)) (Inr byPod)"
    and "answers (kc_DeviceAttributes C) (Inr attrs)"
  shows "\<exists>detail w'. checkAllocatedDevices C a w = Some ((byPod \<noteq> [] \<and>
     (\<forall>(p, ds)\<in>set byPod. \<forall>d\<in>set ds. \<exists>got. map_get attrs d = Some got \<and>
        (\<forall>(name, want)\<in>set (as_AllocatedDevices a).
           (case map_get got name of None \<Rightarrow> [] | Some v \<Rightarrow> v) = want)), detail), w')"
proof -
  obtain w1 where w1: "kc_AllocatedDevices C Namespace (as_Workload a) w = Some (Inr byPod, w1)"
    using answersD [OF assms(1)] by blast
  obtain w2 where w2: "kc_DeviceAttributes C w1 = Some (Inr attrs, w2)"
    using answersD [OF assms(2)] by blast
  let ?devices = "concat (map (\<lambda>(p, ds). map (Pair p) ds) byPod)"
  have "(\<exists>n. devices_loop attrs (as_AllocatedDevices a) ?devices 0 = Inr n) \<longleftrightarrow>
     (\<forall>(p, ds)\<in>set byPod. \<forall>d\<in>set ds. \<exists>got. map_get attrs d = Some got \<and>
        (\<forall>(name, want)\<in>set (as_AllocatedDevices a). (case map_get got name of None \<Rightarrow> [] | Some v \<Rightarrow> v) = want))"
    unfolding devices_loop_Inr attribute_mismatch_None by fastforce
  then show ?thesis
    by (cases "devices_loop attrs (as_AllocatedDevices a) ?devices 0")
      (auto simp: checkAllocatedDevices_def w1 w2)
qed

theorem checkAllocatedDevices_exact_witness:
  "\<exists>detail w'. checkAllocatedDevices ((still_client [] (\<lambda>_ _. []))
       \<lparr>kc_AllocatedDevices := (\<lambda>_ _ t. Some (Inr [(''p'', [''d''])], t)),
        kc_DeviceAttributes := (\<lambda>t. Some (Inr [(''d'', [(''type'', ''gpu'')])], t))\<rparr>)
     (demo_assertion\<lparr>as_AllocatedDevices := [(''type'', ''gpu'')]\<rparr>) 5 = Some ((True, detail), w')"
  using checkAllocatedDevices_exact [of "(still_client [] (\<lambda>_ _. []))
       \<lparr>kc_AllocatedDevices := (\<lambda>_ _ t. Some (Inr [(''p'', [''d''])], t)),
        kc_DeviceAttributes := (\<lambda>t. Some (Inr [(''d'', [(''type'', ''gpu'')])], t))\<rparr>"
      "demo_assertion\<lparr>as_AllocatedDevices := [(''type'', ''gpu'')]\<rparr>" "[(''p'', [''d''])]"
      "[(''d'', [(''type'', ''gpu'')])]" 5]
  by (auto simp: answers_def demo_assertion_def)

text \<open>
  C15. Recovery is counted by identity: when faults have taken replicas of the workload, the
  check passes exactly when as many pods as the workload has replicas are running whose UID no
  fault took, so that a pod that was hit and still reports \<open>Running\<close> is never its own
  replacement; and the blast radius \<open>disrupted\<close> counts is the number of different UIDs taken.
\<close>

theorem recovery_counts_identities:
  assumes "answers (kc_WorkloadPods C Namespace (as_Workload a)) (Inr pods)"
    and "faults \<noteq> []" "casualties faults (as_Workload a) \<noteq> {}"
  shows "(\<exists>detail w'. checkRescheduled C faults a replicas w =
       Some ((replicas \<le> int (length (filter (\<lambda>p. pd_Phase p = ''Running'' \<and>
          pd_UID p \<notin> casualties faults (as_Workload a)) pods)), detail), w')) \<and>
     (\<exists>detail. checkDisrupted faults a want = (int (card (casualties faults (as_Workload a))) = want, detail))"
proof -
  obtain uids t where d: "disruptedFor faults (as_Workload a) = (uids, t, faults \<noteq> [])" "distinct (map_keys uids)"
    "set (map_keys uids) = casualties faults (as_Workload a)"
    "\<forall>u. map_get uids u = Some True \<longleftrightarrow> u \<in> casualties faults (as_Workload a)"
    using disruptedFor_casualties [of faults "as_Workload a"] by blast
  obtain w1 where w1: "kc_WorkloadPods C Namespace (as_Workload a) w = Some (Inr pods, w1)"
    using answersD [OF assms(1)] by blast
  have "uids \<noteq> []" using d(3) assms(3) by auto
  moreover have "length uids = card (casualties faults (as_Workload a))"
    using distinct_card [OF d(2)] by (metis d(3) length_map)
  ultimately show ?thesis
    using assms(2) by (auto simp: checkRescheduled_def checkDisrupted_def d(1,4) w1 Let_def simp del: map_of_eq_Some_iff split: prod.split)
qed

definition demo_fault_record :: fault_record where
  "demo_fault_record = \<lparr>fr_name = ''f'', fr_firedAt = 1, fr_disrupted = [(''train'', [(''p'', True)])]\<rparr>"

theorem recovery_counts_identities_witness:
  "\<exists>detail w'. checkRescheduled (still_client [demo_pod ''p'' ''n1'', demo_pod ''q'' ''n2''] (\<lambda>_ _. []))
     [demo_fault_record] demo_assertion 2 5 = Some ((False, detail), w')"
  using recovery_counts_identities [of "still_client [demo_pod ''p'' ''n1'', demo_pod ''q'' ''n2''] (\<lambda>_ _. [])"
      demo_assertion "[demo_pod ''p'' ''n1'', demo_pod ''q'' ''n2'']" "[demo_fault_record]" 2 5 1]
  by (auto simp: answers_def still_client_def demo_assertion_def demo_fault_record_def casualties_def demo_pod_def)

subsection \<open>When a verdict was reached\<close>

text \<open>
  C6. A verdict is reached when the scenario says it may be. Whatever the cluster does, if the
  clock is sound: a passing result reports a check that passed, made after the whole \<open>settle\<close>
  period where there is one; a failing one reports a check that failed, made after the
  \<open>settle\<close> period, or the last of a series once the deadline has passed; and the only other
  way to fail is that the run was interrupted while waiting.
\<close>

theorem evaluate_verdict:
  assumes "timed_client time C" "evaluate C faults a replicas w = Some (ar, w')"
  shows "if ar_Passed ar
     then \<exists>w1 w2. check C faults a replicas w1 = Some ((True, ar_Detail ar), w2) \<and>
        time w + max 0 (as_Settle a) \<le> time w1
     else (\<exists>w1 w2. check C faults a replicas w1 = Some ((False, ar_Detail ar), w2) \<and>
        time w + max 0 (as_Settle a) \<le> time w1 \<and>
        (as_Settle a \<le> 0 \<longrightarrow> (\<exists>t. time w \<le> t \<and> deadline_of faults a t < time w'))) \<or>
       (\<exists>d w1 w2. kc_After C d w1 = (Inl (ar_Detail ar), w2))"
  using timed_client.evaluate_fair [OF assms] unfolding timed_client.fair_verdict_def [OF assms(1)]
  by (cases "ar_Passed ar"; simp; blast)

theorem evaluate_verdict_witness:
  "\<exists>w1 w2 d. check (still_client [demo_pod ''p'' ''n1''] (\<lambda>_ _. [])) []
      (demo_assertion\<lparr>as_Running := Some 1, as_Settle := 10\<rparr>) 1 w1 = Some ((True, d), w2) \<and> 15 \<le> w1"
proof -
  let ?C = "still_client [demo_pod ''p'' ''n1''] (\<lambda>_ _. [])"
  let ?a = "demo_assertion\<lparr>as_Running := Some 1, as_Settle := 10\<rparr>"
  have "\<exists>ar w'. evaluate ?C [] ?a 1 5 = Some (ar, w') \<and> ar_Passed ar"
    by (simp add: evaluate_def await_def evaluate_settle_def demo_assertion_def check_def checkRunning_def
        placement_of_def still_client_def demo_pod_def)
  then obtain ar w' where "evaluate ?C [] ?a 1 5 = Some (ar, w')" "ar_Passed ar" by blast
  with evaluate_verdict [OF still_client_timed this(1)] show ?thesis
    by (auto simp: demo_assertion_def)
qed

text \<open>
  A recovery budget is not enforced on a slow recovery: the condition is checked before the
  clock is, so an assertion whose \<open>rescheduledWithin\<close> has already run out when it is first
  evaluated passes if the workload is back by then, however late.
\<close>

theorem late_recovery_passes:
  assumes "as_Settle a \<le> 0" "kc_Now C w = (t, w1)" "deadline_of faults a t < t"
    and "check C faults a replicas w1 = Some ((True, detail), w2)"
    and "kc_WorkloadPods C Namespace (as_Workload a) w2 \<noteq> None"
  shows "\<exists>ar w'. evaluate C faults a replicas w = Some (ar, w') \<and> ar_Passed ar \<and> ar_Detail ar = detail"
proof -
  have "evaluate_loop C faults a replicas (deadline_of faults a t) w1 = Some (Inr (True, detail), w2)"
    by (subst evaluate_loop.simps) (simp add: assms(4))
  then have "await C faults a replicas w = Some (Inr (True, detail), w2)"
    using assms(1,2) by (simp add: await_def)
  then show ?thesis using assms(5) by (auto simp: evaluate_def placement_of_def Let_def)
qed

theorem late_recovery_passes_witness:
  "\<exists>ar w'. evaluate (still_client [demo_pod ''q'' ''n2''] (\<lambda>_ _. [])) [demo_fault_record]
     (demo_assertion\<lparr>as_RescheduledWithin := Second\<rparr>) 1 (3600 * Second) = Some (ar, w') \<and> ar_Passed ar"
proof -
  let ?C = "still_client [demo_pod ''q'' ''n2''] (\<lambda>_ _. [])" and ?a = "demo_assertion\<lparr>as_RescheduledWithin := Second\<rparr>"
  have "deadline_of [demo_fault_record] ?a (3600 * Second) < 3600 * Second"
    by (simp add: deadline_of_def disruptedFor_def demo_fault_record_def demo_assertion_def Second_def)
  moreover have "\<exists>detail w2. check ?C [demo_fault_record] ?a 1 (3600 * Second) = Some ((True, detail), w2)"
    by (simp add: check_def checkRescheduled_def disruptedFor_def demo_fault_record_def demo_assertion_def
        Second_def still_client_def demo_pod_def Let_def)
  then obtain detail w2 where "check ?C [demo_fault_record] ?a 1 (3600 * Second) = Some ((True, detail), w2)" by blast
  ultimately show ?thesis
    using late_recovery_passes [of ?a ?C "3600 * Second" "3600 * Second" "3600 * Second" "[demo_fault_record]" 1 detail w2]
    by (auto simp: demo_assertion_def still_client_def)
qed

end
