(* ===== verification/RunnerTimeline.thy ===== *)
theory RunnerTimeline
  imports RunnerAssert
begin

text \<open>
  internal/runner/run.go: a scenario's timeline, its faults, and the whole run. The runner's own
  state is the list of fault records, which \<open>Run\<close> resets; it is threaded through the events.
\<close>

subsection \<open>Faults\<close>

definition deviceMatch :: "'w client \<Rightarrow> degrade \<Rightarrow> ('w, device_match) call" where
  "deviceMatch C d w =
     (if dg_Devices d \<noteq> [] then Some (Inr \<lparr>dm_Nodes = [], dm_Attributes = dg_Devices d\<rparr>, w)
      else case LabelForLevel (dg_Level d) of
        None \<Rightarrow> Some (Inl (unknown_level (dg_Level d)), w)
      | Some label \<Rightarrow> do {
          (r, w) \<leftarrow> kc_NodesWithLabel C label (dg_Value d) w;
          case r of
            Inl err \<Rightarrow> Some (Inl err, w)
          | Inr nodes \<Rightarrow>
              (if nodes = [] then
                 Some (Inl (''no node has '' @ dg_Level d @ '' '' @ go_quote (dg_Value d) @
                   '', so the fault would break nothing''), w)
               else Some (Inr \<lparr>dm_Nodes = nodes, dm_Attributes = []\<rparr>, w)) })"

text \<open>The replicas a fault hit: running ones on the killed node, or holding a tainted device.\<close>

definition record_node :: "string \<Rightarrow> pod_state list \<Rightarrow> fault_record \<Rightarrow> fault_record" where
  "record_node node before f =
     fold (\<lambda>p f. if px_Running p \<and> px_Node p = node then add_casualty f p else f) before f"

definition record_tainted :: "(string \<times> bool) list \<Rightarrow> pod_state list \<Rightarrow> fault_record \<Rightarrow> fault_record" where
  "record_tainted tainted before f =
     fold (\<lambda>p f. if px_Running p \<and> (\<exists>d\<in>set (px_Devices p). map_get tainted d = Some True)
                 then add_casualty f p else f) before f"

definition fire :: "'w client \<Rightarrow> fault \<Rightarrow> fault_record list \<Rightarrow> ('w, fault_record list) call" where
  "fire C f faults w = do {
     (r, w) \<leftarrow> kc_SnapshotPods C Namespace w;
     case r of
       Inl err \<Rightarrow> Some (Inl err, w)
     | Inr before \<Rightarrow>
         (let (t, w) = kc_Now C w;
              record0 = \<lparr>fr_name = ft_Name f, fr_firedAt = t, fr_disrupted = []\<rparr>
          in if ft_KillNode f \<noteq> [] then do {
               (r, w) \<leftarrow> kc_DeleteNode C (ft_KillNode f) w;
               case r of
                 Inl err \<Rightarrow> Some (Inl err, w)
               | Inr _ \<Rightarrow>
                   (let rec = record_node (ft_KillNode f) before record0;
                        w = kc_Progress C (''node '' @ ft_KillNode f @ '' deleted, '' @ itoa (record_total rec) @
                              '' replicas lost'') w
                    in Some (Inr (faults @ [rec]), w)) }
             else case ft_Degrade f of
               None \<Rightarrow> None
             | Some d \<Rightarrow> do {
                 (r, w) \<leftarrow> deviceMatch C d w;
                 case r of
                   Inl err \<Rightarrow> Some (Inl err, w)
                 | Inr m \<Rightarrow> do {
                     (r, w) \<leftarrow> kc_TaintDevices C m (TaintEffect d) w;
                     case r of
                       Inl err \<Rightarrow> Some (Inl err, w)
                     | Inr tainted \<Rightarrow>
                         (let rec = record_tainted tainted before record0;
                              w = kc_Progress C (itoa (int (length tainted)) @ '' devices degraded, '' @
                                    itoa (record_total rec) @ '' replicas lost'') w
                          in Some (Inr (faults @ [rec]), w)) } }) }"

subsection \<open>The timeline\<close>

record event =
  ev_at :: int
  ev_retire :: bool
  ev_workload :: workload
  ev_fault :: "fault option"

text \<open>The zero \<open>Workload\<close>, which a fault's event carries.\<close>

definition zero_workload :: workload where
  "zero_workload = \<lparr>wl_Name = [], wl_Replicas = 0, wl_GPUs = 0, wl_Gang = False, wl_Placement = None,
     wl_MIGProfile = [], wl_DeviceSelector = [], wl_SubmitAt = 0, wl_RetireAt = 0\<rparr>"

definition workload_events :: "workload \<Rightarrow> event list" where
  "workload_events w =
     \<lparr>ev_at = wl_SubmitAt w, ev_retire = False, ev_workload = w, ev_fault = None\<rparr> #
     (if wl_RetireAt w > 0
      then [\<lparr>ev_at = wl_RetireAt w, ev_retire = True, ev_workload = w, ev_fault = None\<rparr>] else [])"

definition fault_event :: "fault \<Rightarrow> event" where
  "fault_event f = \<lparr>ev_at = ft_At f, ev_retire = False, ev_workload = zero_workload, ev_fault = Some f\<rparr>"

definition declared_events :: "scenario \<Rightarrow> event list" where
  "declared_events s =
     concat (map workload_events (ps_Workloads (sc_Spec s))) @ map fault_event (ps_Faults (sc_Spec s))"

text \<open>\<open>sort.SliceStable\<close> by offset.\<close>

definition timeline :: "scenario \<Rightarrow> event list" where
  "timeline s = sort_key ev_at (declared_events s)"

text \<open>What one event does once its time has come.\<close>

definition run_event ::
    "'w client \<Rightarrow> (string \<times> objects) list \<Rightarrow> event \<Rightarrow> fault_record list \<Rightarrow> ('w, fault_record list) call" where
  "run_event C objs e faults w =
     (case ev_fault e of
        Some f \<Rightarrow> fire C f faults (kc_Progress C (''injecting fault: '' @ ft_Name f) w)
      | None \<Rightarrow>
          (let wl = ev_workload e
           in if ev_retire e then do {
                (r, w) \<leftarrow> kc_Retire C Namespace (wl_Name wl) (kc_Progress C (''retiring '' @ wl_Name wl) w);
                Some (case r of Inl err \<Rightarrow> Inl err | Inr _ \<Rightarrow> Inr faults, w) }
              else do {
                ob \<leftarrow> map_get objs (wl_Name wl);
                (r, w) \<leftarrow> kc_Submit C Namespace ob
                  (kc_Progress C (''submitting '' @ wl_Name wl @ '' ('' @ itoa (wl_Replicas wl) @ '' replicas, '' @
                     itoa (wl_GPUs wl) @ '' GPU each)'') w);
                Some (case r of Inl err \<Rightarrow> Inl err | Inr _ \<Rightarrow> Inr faults, w) }))"

text \<open>Waiting for an event's offset: nothing to do when it has passed already.\<close>

definition wait_until :: "'w client \<Rightarrow> int \<Rightarrow> int \<Rightarrow> 'w \<Rightarrow> (string + unit) \<times> 'w" where
  "wait_until C start at w =
     (let (t, w) = kc_Now C w; wait = at - (t - start)
      in if wait > 0
         then kc_After C wait (kc_Progress C (''waiting '' @ duration_text (duration_round wait Second)) w)
         else (Inr (), w))"

fun run_events ::
    "'w client \<Rightarrow> (string \<times> objects) list \<Rightarrow> int \<Rightarrow> event list \<Rightarrow> fault_record list \<Rightarrow> ('w, fault_record list) call" where
  "run_events C objs start [] faults w = Some (Inr faults, w)"
| "run_events C objs start (e # es) faults w =
     (case wait_until C start (ev_at e) w of
        (Inl err, w) \<Rightarrow> Some (Inl err, w)
      | (Inr _, w) \<Rightarrow> do {
          (r, w) \<leftarrow> run_event C objs e faults w;
          case r of
            Inl err \<Rightarrow> Some (Inl err, w)
          | Inr faults' \<Rightarrow> run_events C objs start es faults' w })"

definition runTimeline :: "'w client \<Rightarrow> scenario \<Rightarrow> (string \<times> objects) list \<Rightarrow> ('w, fault_record list) call" where
  "runTimeline C s objs w =
     (case kc_Now C w of (start, w) \<Rightarrow> run_events C objs start (timeline s) [] w)"

partial_function (option) empty_loop ::
    "'w client \<Rightarrow> int \<Rightarrow> 'w \<Rightarrow> ((string + unit) \<times> 'w) option" where
  "empty_loop C deadline w = do {
     (r, w) \<leftarrow> kc_AllPods C Namespace w;
     case r of
       Inl err \<Rightarrow> Some (Inl err, w)
     | Inr pods \<Rightarrow>
         (if pods = [] then Some (Inr (), w)
          else (case kc_Now C w of (t, w) \<Rightarrow>
            if t > deadline
            then Some (Inl (''namespace '' @ Namespace @ '' still had '' @ itoa (int (length pods)) @
                   '' pods after clearing''), w)
            else (case kc_After C Second w of
                (Inl err, w) \<Rightarrow> Some (Inl err, w)
              | (Inr _, w) \<Rightarrow> empty_loop C deadline w))) }"

definition waitNamespaceEmpty :: "'w client \<Rightarrow> ('w, unit) call" where
  "waitNamespaceEmpty C w = (case kc_Now C w of (t, w) \<Rightarrow> empty_loop C (t + 90 * Second) w)"

subsection \<open>The run\<close>

record cluster_summary =
  cs_Topology :: string
  cs_NodeCount :: int
  cs_DeviceCount :: int
  cs_Scheduler :: string

record run_result =
  rr_Name :: string
  rr_Description :: string
  rr_Passed :: bool
  rr_Duration :: int
  rr_Cluster :: cluster_summary
  rr_Assertions :: "assertion_result list"
  rr_Error :: string

definition unsupported_text :: "unsupported_error \<Rightarrow> string" where
  "unsupported_text e =
     ''scheduler '' @ go_quote (ue_Scheduler e) @ '' cannot express '' @ ue_Intent e @ '' (workload '' @
     go_quote (ue_Workload e) @ ''): '' @ ue_Why e"

fun translate_all ::
    "string \<Rightarrow> string \<Rightarrow> workload list \<Rightarrow> (string \<times> objects) list \<Rightarrow> string + (string \<times> objects) list" where
  "translate_all sched topo [] objs = Inr objs"
| "translate_all sched topo (wl # wls) objs =
     (case Translate wl sched Namespace topo of
        Inl e \<Rightarrow> Inl (unsupported_text e)
      | Inr ob \<Rightarrow> translate_all sched topo wls (map_put (wl_Name wl) ob objs))"

text \<open>The assertions in order, each against its workload's replica count (0 when it names none).\<close>

fun evaluate_all ::
    "'w client \<Rightarrow> fault_record list \<Rightarrow> (string \<times> int) list \<Rightarrow> assertion list \<Rightarrow> 'w \<Rightarrow>
     (assertion_result list \<times> 'w) option" where
  "evaluate_all C faults replicas [] w = Some ([], w)"
| "evaluate_all C faults replicas (a # as) w = do {
     (ar, w) \<leftarrow> evaluate C faults a
       (case map_get replicas (as_Workload a) of None \<Rightarrow> 0 | Some n \<Rightarrow> n) w;
     (ars, w) \<leftarrow> evaluate_all C faults replicas as w;
     Some (ar # ars, w) }"

text \<open>
  The steps of \<open>Run\<close> up to the assertions: \<open>Inl\<close> of the error that ends the run, with the
  cluster summary as far as it was filled in.
\<close>

definition prepare ::
    "'w client \<Rightarrow> scenario \<Rightarrow> 'w \<Rightarrow> (((string + fault_record list) \<times> cluster_summary) \<times> 'w) option" where
  "prepare C s w =
     (let sched = cr_Scheduler (ps_Cluster (sc_Spec s));
          path = cr_Topology (ps_Cluster (sc_Spec s));
          wls = ps_Workloads (sc_Spec s);
          none = \<lparr>cs_Topology = [], cs_NodeCount = 0, cs_DeviceCount = 0, cs_Scheduler = sched\<rparr>
      in case translate_all sched [] wls [] of
           Inl err \<Rightarrow> Some ((Inl err, none), w)
         | Inr objs0 \<Rightarrow> do {
             (r, w) \<leftarrow> kc_ApplyTopology C path (kc_Progress C (''applying topology '' @ path) w);
             case r of
               Inl err \<Rightarrow> Some ((Inl err, none), w)
             | Inr topo \<Rightarrow>
                 (let sum = \<lparr>cs_Topology = tr_Name topo, cs_NodeCount = tr_Nodes topo,
                        cs_DeviceCount = tr_Devices topo, cs_Scheduler = sched\<rparr>
                  in case translate_all sched (tr_Name topo) wls objs0 of
                       Inl err \<Rightarrow> Some ((Inl err, sum), w)
                     | Inr objs \<Rightarrow> do {
                         (r, w) \<leftarrow> kc_EnsureNamespace C Namespace w;
                         case r of Inl err \<Rightarrow> Some ((Inl err, sum), w) | Inr _ \<Rightarrow> do {
                         (r, w) \<leftarrow> kc_ClearNamespace C Namespace w;
                         case r of Inl err \<Rightarrow> Some ((Inl err, sum), w) | Inr _ \<Rightarrow> do {
                         (r, w) \<leftarrow> waitNamespaceEmpty C w;
                         case r of Inl err \<Rightarrow> Some ((Inl err, sum), w) | Inr _ \<Rightarrow> do {
                         (r, w) \<leftarrow> runTimeline C s objs w;
                         Some ((r, sum), w) } } } }) })"

definition replica_counts :: "workload list \<Rightarrow> (string \<times> int) list" where
  "replica_counts wls = fold (\<lambda>wl. map_put (wl_Name wl) (wl_Replicas wl)) wls []"

definition Run :: "'w client \<Rightarrow> scenario \<Rightarrow> 'w \<Rightarrow> (run_result \<times> 'w) option" where
  "Run C s w =
     (case kc_Now C w of (start, w) \<Rightarrow> do {
        ((r, sum), w) \<leftarrow> prepare C s w;
        (ars, w) \<leftarrow> (case r of Inl _ \<Rightarrow> Some ([], w)
           | Inr faults \<Rightarrow> evaluate_all C faults (replica_counts (ps_Workloads (sc_Spec s)))
                            (ps_Assertions (sc_Spec s)) w);
        case kc_Now C w of (t, w) \<Rightarrow>
          Some (\<lparr>rr_Name = sc_Name s, rr_Description = sc_Description s,
                 rr_Passed = (case r of Inl _ \<Rightarrow> False | Inr _ \<Rightarrow> list_all ar_Passed ars),
                 rr_Duration = t - start, rr_Cluster = sum, rr_Assertions = ars,
                 rr_Error = (case r of Inl err \<Rightarrow> err | Inr _ \<Rightarrow> [])\<rparr>, w) })"

subsection \<open>Every step returns\<close>

text \<open>An event that cannot panic: a fault with a target, a retirement, or a translated workload.\<close>

definition runnable :: "(string \<times> objects) list \<Rightarrow> event \<Rightarrow> bool" where
  "runnable objs e =
     (case ev_fault e of
        Some f \<Rightarrow> ft_KillNode f \<noteq> [] \<or> ft_Degrade f \<noteq> None
      | None \<Rightarrow> ev_retire e \<or> map_get objs (wl_Name (ev_workload e)) \<noteq> None)"

lemma translate_all_dom:
  "translate_all sched topo wls objs = Inr objs' \<Longrightarrow>
   dom (map_of objs') = dom (map_of objs) \<union> wl_Name ` set wls"
  by (induction wls arbitrary: objs) (auto simp: update_conv' split: sum.splits)

lemma timeline_set: "set (timeline s) = set (declared_events s)"
  by (simp add: timeline_def)

lemma declared_runnable:
  assumes "scenario_wf s" "translate_all sched topo (ps_Workloads (sc_Spec s)) objs0 = Inr objs"
  shows "\<forall>e\<in>set (timeline s). runnable objs e"
proof
  fix e assume "e \<in> set (timeline s)"
  then consider w where "w \<in> set (ps_Workloads (sc_Spec s))" "e \<in> set (workload_events w)"
    | f where "f \<in> set (ps_Faults (sc_Spec s))" "e = fault_event f"
    by (auto simp: timeline_set declared_events_def)
  then show "runnable objs e"
  proof cases
    case 1
    then have "wl_Name w \<in> dom (map_of objs)" using translate_all_dom [OF assms(2)] by blast
    then show ?thesis using 1(2) by (auto simp: workload_events_def runnable_def split: if_splits)
  next
    case 2
    then have "fault_wf f" using assms(1) by (auto simp: scenario_wf_def list_all_iff Let_def)
    then show ?thesis by (auto simp: 2(2) fault_event_def runnable_def fault_wf_def split: option.splits)
  qed
qed

context timed_client
begin

lemma forward_deviceMatch: "forward time (deviceMatch C d)"
  unfolding deviceMatch_def by (intro runs_forward)

lemma forward_fire: "ft_KillNode f \<noteq> [] \<or> ft_Degrade f \<noteq> None \<Longrightarrow> forward time (fire C f faults)"
  unfolding fire_def Let_def
  by (intro runs_forward forward_deviceMatch) auto

lemma forward_run_event:
  assumes "runnable objs e"
  shows "forward time (run_event C objs e faults)"
proof (cases "ev_fault e")
  case (Some f)
  then have "forward time (fire C f faults)" using assms by (intro forward_fire) (auto simp: runnable_def)
  from forward_eq [OF _ forward_progress [OF this]] show ?thesis by (simp add: run_event_def Some)
next
  case None
  show ?thesis
  proof (cases "ev_retire e")
    case True
    have "forward time (\<lambda>w. kc_Retire C Namespace (wl_Name (ev_workload e)) w \<bind>
        (\<lambda>(r, w). Some (case r of Inl err \<Rightarrow> Inl err | Inr _ \<Rightarrow> Inr faults, w)))"
      by (intro runs_forward)
    from forward_progress [OF this] show ?thesis
      unfolding run_event_def Let_def by (simp add: None True)
  next
    case False
    then obtain ob where ob: "map_get objs (wl_Name (ev_workload e)) = Some ob"
      using assms None by (auto simp: runnable_def)
    have "forward time (\<lambda>w. kc_Submit C Namespace ob w \<bind>
        (\<lambda>(r, w). Some (case r of Inl err \<Rightarrow> Inl err | Inr _ \<Rightarrow> Inr faults, w)))"
      by (intro runs_forward)
    from forward_progress [OF this] show ?thesis
      unfolding run_event_def Let_def by (simp add: None False ob)
  qed
qed

lemma wait_until_mono: "wait_until C start at w = (r, w') \<Longrightarrow> time w \<le> time w'"
  using now_mono progress after_mono unfolding wait_until_def Let_def
  by (auto split: prod.splits if_splits) (meson order_trans)+

lemma forward_run_events:
  "\<forall>e\<in>set es. runnable objs e \<Longrightarrow> forward time (run_events C objs start es faults)"
proof (induction es arbitrary: faults)
  case Nil
  show ?case by (rule forward_eq [OF run_events.simps(1)]) (rule forward_return)
next
  case (Cons e es)
  have "forward time (\<lambda>w. case wait_until C start (ev_at e) w of (r, w) \<Rightarrow>
      (case r of Inl err \<Rightarrow> Some (Inl err, w) | Inr _ \<Rightarrow> run_event C objs e faults w \<bind>
        (\<lambda>(r, w). case r of Inl err \<Rightarrow> Some (Inl err, w) | Inr faults' \<Rightarrow> run_events C objs start es faults' w)))"
    by (rule forward_first [OF wait_until_mono], assumption)
      (intro runs_forward forward_run_event Cons.IH, use Cons.prems in auto)
  then show ?case
    by (rule forward_eq [rotated]) (simp split: prod.split sum.split)
qed

lemma forward_empty_loop: "forward time (empty_loop C deadline)"
proof (rule polling_ends [where loop = "empty_loop C deadline" and d = Second
      and deadline = deadline and cancelled = Inl
      and give_up = "\<lambda>pods. Inl (''namespace '' @ Namespace @ '' still had '' @ itoa (int (length pods)) @
                   '' pods after clearing'')"
      and attempt = "\<lambda>w. kc_AllPods C Namespace w \<bind>
        (\<lambda>(r, w). Some (case r of Inl err \<Rightarrow> Inr (Inl err) | Inr pods \<Rightarrow> if pods = [] then Inr (Inr ()) else Inl pods, w))"])
  show "forward time (\<lambda>w. kc_AllPods C Namespace w \<bind>
        (\<lambda>(r, w). Some (case r of Inl err \<Rightarrow> Inr (Inl err) | Inr pods \<Rightarrow> if pods = [] then Inr (Inr ()) else Inl pods, w)))"
    by (intro runs_forward)
qed (subst empty_loop.simps, auto simp: Second_def split: bind_splits option.splits sum.splits prod.splits)

lemma forward_runTimeline:
  assumes "scenario_wf s" "translate_all sched topo (ps_Workloads (sc_Spec s)) objs0 = Inr objs"
  shows "forward time (runTimeline C s objs)"
  unfolding runTimeline_def by (intro runs_forward forward_run_events declared_runnable [OF assms])

lemma forward_prepare:
  assumes "scenario_wf s"
  shows "forward time (prepare C s)"
proof (cases "translate_all (cr_Scheduler (ps_Cluster (sc_Spec s))) [] (ps_Workloads (sc_Spec s)) []")
  case (Inl err)
  then show ?thesis unfolding prepare_def Let_def by (simp add: forward_return)
next
  case (Inr objs0)
  have empty: "forward time (waitNamespaceEmpty C)"
    unfolding waitNamespaceEmpty_def by (intro runs_forward forward_empty_loop)
  have applied: "forward time (\<lambda>w. kc_ApplyTopology C path (kc_Progress C line w))" for path line
    by (rule forward_progress, rule calls)
  show ?thesis
    unfolding prepare_def Let_def Inr sum.case
    by (intro forward_bind applied; intro runs_forward empty forward_runTimeline [OF assms])
qed

lemma forward_evaluate_all: "forward time (evaluate_all C faults replicas as)"
proof (induction as)
  case Nil
  show ?case by (rule forward_eq [OF evaluate_all.simps(1)]) (rule forward_return)
next
  case (Cons a as)
  show ?case by (rule forward_eq [OF evaluate_all.simps(2)]) (intro runs_forward forward_evaluate Cons)
qed

lemma forward_Run:
  assumes "scenario_wf s"
  shows "forward time (Run C s)"
  unfolding Run_def by (intro runs_forward forward_prepare [OF assms] forward_evaluate_all)

end

subsection \<open>Properties of the timeline\<close>

lemma declared_split:
  assumes "w \<in> set (ps_Workloads (sc_Spec s))" "wl_RetireAt w > 0"
  obtains xs ys where "declared_events s = xs @ workload_events w @ ys"
proof -
  obtain us vs where "ps_Workloads (sc_Spec s) = us @ w # vs" using assms(1) by (meson split_list)
  then show ?thesis by (intro that) (simp add: declared_events_def)
qed

lemma sort_key_before:
  assumes "xs = as @ x # bs @ y # cs" "f x < f y"
  shows "\<exists>us vs ws. sort_key f xs = us @ x # vs @ y # ws"
proof -
  have set: "x \<in> set (sort_key f xs)" "y \<in> set (sort_key f xs)" using assms(1) by auto
  then obtain us rest where 1: "sort_key f xs = us @ x # rest" by (meson split_list)
  have "sorted (map f (us @ x # rest))" using sorted_sort_key [of f xs] by (simp only: 1)
  then have "\<forall>u\<in>set us. f u \<le> f x" by (simp add: sorted_append)
  then have "y \<notin> set us" "y \<noteq> x" using assms(2) by auto
  then have "y \<in> set rest" using set(2) by (simp add: 1)
  then show ?thesis using 1 by (metis append_Cons split_list)
qed

text \<open>What an event does, said of the scenario's own workloads and faults.\<close>

datatype action = Submits workload | Retires workload | Injects fault

definition action_of :: "event \<Rightarrow> action" where
  "action_of e =
     (case ev_fault e of
        Some f \<Rightarrow> Injects f
      | None \<Rightarrow> if ev_retire e then Retires (ev_workload e) else Submits (ev_workload e))"

lemma action_of_fault [simp]: "action_of (fault_event f) = Injects f" "ev_at (fault_event f) = ft_At f"
  by (simp_all add: action_of_def fault_event_def)

lemma actions_of_workload:
  "map action_of (workload_events w) = Submits w # (if wl_RetireAt w > 0 then [Retires w] else [])"
  by (simp add: action_of_def workload_events_def)

lemma actions_of_workload_at:
  "map action_of (filter (\<lambda>e. ev_at e = t) (workload_events w)) =
     (if wl_SubmitAt w = t then [Submits w] else []) @ (if wl_RetireAt w = t \<and> 0 < t then [Retires w] else [])"
  by (auto simp: action_of_def workload_events_def)

lemma actions_declared:
  "mset (map action_of (declared_events s)) = mset (map Submits (ps_Workloads (sc_Spec s))) +
     mset (map Retires (filter (\<lambda>w. wl_RetireAt w > 0) (ps_Workloads (sc_Spec s)))) + mset (map Injects (ps_Faults (sc_Spec s)))"
proof -
  have "mset (map action_of (concat (map workload_events ws))) =
      mset (map Submits ws) + mset (map Retires (filter (\<lambda>w. wl_RetireAt w > 0) ws))" for ws
    by (induction ws) (simp_all add: actions_of_workload)
  then show ?thesis by (simp add: declared_events_def comp_def)
qed

text \<open>
  C26. The timeline holds what the scenario declares and nothing else: one submission of every
  workload, one retirement of every workload whose \<open>retireAt\<close> is positive, and one injection of every
  fault. Its events are in the order of their offsets, and the events of one offset \<open>t\<close> are
  exactly the submissions and retirements that fall at \<open>t\<close>, in the order of the workloads, a workload's
  submission first, followed by the faults at \<open>t\<close> in the order of the faults; a fault never
  comes before a workload's event of the same offset. In a valid scenario a workload that is
  retired is submitted at its \<open>submitAt\<close>, before it is retired at its \<open>retireAt\<close>.
\<close>

theorem timeline_faithful:
  "mset (map action_of (timeline s)) = mset (map Submits (ps_Workloads (sc_Spec s))) +
     mset (map Retires (filter (\<lambda>w. wl_RetireAt w > 0) (ps_Workloads (sc_Spec s)))) + mset (map Injects (ps_Faults (sc_Spec s))) \<and>
   sorted (map ev_at (timeline s)) \<and>
   (\<forall>t. map action_of (filter (\<lambda>e. ev_at e = t) (timeline s)) =
      concat (map (\<lambda>w. (if wl_SubmitAt w = t then [Submits w] else []) @
                       (if wl_RetireAt w = t \<and> 0 < t then [Retires w] else [])) (ps_Workloads (sc_Spec s))) @
      map Injects (filter (\<lambda>f. ft_At f = t) (ps_Faults (sc_Spec s)))) \<and>
   (Validate_scenario s = [] \<longrightarrow> (\<forall>w\<in>set (ps_Workloads (sc_Spec s)). wl_RetireAt w > 0 \<longrightarrow>
      (\<exists>us vs ws submit retire. timeline s = us @ submit # vs @ retire # ws \<and>
         action_of submit = Submits w \<and> ev_at submit = wl_SubmitAt w \<and>
         action_of retire = Retires w \<and> ev_at retire = wl_RetireAt w)))"
proof (intro conjI impI ballI allI)
  have "mset (map action_of (timeline s)) = mset (map action_of (declared_events s))" by (simp add: timeline_def)
  then show "mset (map action_of (timeline s)) = mset (map Submits (ps_Workloads (sc_Spec s))) +
     mset (map Retires (filter (\<lambda>w. wl_RetireAt w > 0) (ps_Workloads (sc_Spec s)))) + mset (map Injects (ps_Faults (sc_Spec s)))"
    by (simp only: actions_declared)
  show "sorted (map ev_at (timeline s))" by (simp add: timeline_def)
  fix t
  have "filter (\<lambda>e. ev_at e = t) (timeline s) = filter (\<lambda>e. ev_at e = t) (declared_events s)"
    using sort_key_stable [of ev_at t "declared_events s"] by (simp add: timeline_def)
  then show "map action_of (filter (\<lambda>e. ev_at e = t) (timeline s)) =
      concat (map (\<lambda>w. (if wl_SubmitAt w = t then [Submits w] else []) @
                       (if wl_RetireAt w = t \<and> 0 < t then [Retires w] else [])) (ps_Workloads (sc_Spec s))) @
      map Injects (filter (\<lambda>f. ft_At f = t) (ps_Faults (sc_Spec s)))"
    by (simp add: declared_events_def filter_concat map_concat comp_def actions_of_workload_at filter_map)
next
  fix w
  assume v: "Validate_scenario s = []" and w: "w \<in> set (ps_Workloads (sc_Spec s))" and r: "wl_RetireAt w > 0"
  then have "workload_wf w" by (auto simp: Validate_scenario_wf scenario_wf_def list_all_iff Let_def)
  then have lt: "wl_SubmitAt w < wl_RetireAt w" using r by (simp add: workload_wf_def)
  obtain xs ys where split: "declared_events s = xs @ workload_events w @ ys" using declared_split [OF w r] .
  let ?submit = "\<lparr>ev_at = wl_SubmitAt w, ev_retire = False, ev_workload = w, ev_fault = None\<rparr>"
  let ?retire = "\<lparr>ev_at = wl_RetireAt w, ev_retire = True, ev_workload = w, ev_fault = None\<rparr>"
  obtain us vs ws where "timeline s = us @ ?submit # vs @ ?retire # ws"
    using sort_key_before [of "declared_events s" xs ?submit "[]" ?retire ys ev_at] lt r split
    by (auto simp: timeline_def workload_events_def)
  then show "\<exists>us vs ws submit retire. timeline s = us @ submit # vs @ retire # ws \<and>
      action_of submit = Submits w \<and> ev_at submit = wl_SubmitAt w \<and> action_of retire = Retires w \<and> ev_at retire = wl_RetireAt w"
    by (intro exI [of _ us] exI [of _ vs] exI [of _ ws] exI [of _ ?submit] exI [of _ ?retire]) (simp add: action_of_def)
qed

subsection \<open>Execution of the timeline\<close>

text \<open>
  The runner as a state machine: a state holds the events to come, the faults recorded and the
  world. \<open>executes\<close> runs some events to success and logs each with the world it started in.
\<close>

inductive executes ::
    "'w client \<Rightarrow> (string \<times> objects) list \<Rightarrow> int \<Rightarrow> event list \<times> fault_record list \<times> 'w \<Rightarrow>
     (event \<times> 'w) list \<Rightarrow> event list \<times> fault_record list \<times> 'w \<Rightarrow> bool"
  for C objs start where
  halt: "executes C objs start st [] st"
| event: "wait_until C start (ev_at e) w = (Inr u, w1) \<Longrightarrow>
     run_event C objs e faults w1 = Some (Inr faults1, w2) \<Longrightarrow>
     executes C objs start (es, faults1, w2) log st \<Longrightarrow>
     executes C objs start (e # es, faults, w) ((e, w1) # log) st"

inductive_cases executes_nothing: "executes C objs start st [] st'"
inductive_cases executes_some: "executes C objs start st (x # log) st'"

lemma run_events_executes:
  assumes "run_events C objs start es faults w = Some (r, w')"
  shows "\<exists>log rest faults1 w1. executes C objs start (es, faults, w) log (rest, faults1, w1) \<and>
     (case r of
        Inr faults' \<Rightarrow> rest = [] \<and> faults1 = faults' \<and> w1 = w'
      | Inl err \<Rightarrow> \<exists>e es'. rest = e # es' \<and>
          (wait_until C start (ev_at e) w1 = (Inl err, w') \<or>
           (\<exists>u w2. wait_until C start (ev_at e) w1 = (Inr u, w2) \<and> run_event C objs e faults1 w2 = Some (Inl err, w'))))"
  using assms
proof (induction es arbitrary: faults w)
  case Nil
  then show ?case by (force intro: executes.halt)
next
  case (Cons e es)
  obtain c w1 where wait: "wait_until C start (ev_at e) w = (c, w1)" by (cases "wait_until C start (ev_at e) w")
  show ?case
  proof (cases c)
    case (Inl err)
    then have "r = Inl err" "w' = w1" using Cons.prems wait by auto
    then show ?thesis using wait Inl
      by (intro exI [of _ "[]"] exI [of _ "e # es"] exI [of _ faults] exI [of _ w]) (simp add: executes.halt)
  next
    case (Inr u)
    obtain x w2 where run: "run_event C objs e faults w1 = Some (x, w2)"
      using Cons.prems wait Inr by (cases "run_event C objs e faults w1") auto
    show ?thesis
    proof (cases x)
      case (Inl err)
      then have "r = Inl err" "w' = w2" using Cons.prems wait Inr run by auto
      then show ?thesis using wait Inr run Inl
        by (intro exI [of _ "[]"] exI [of _ "e # es"] exI [of _ faults] exI [of _ w]) (simp add: executes.halt)
    next
      case (Inr faults1)
      then have "run_events C objs start es faults1 w2 = Some (r, w')"
        using Cons.prems wait \<open>c = Inr u\<close> run by simp
      from Cons.IH [OF this] obtain log rest faults2 w3 where
        "executes C objs start (es, faults1, w2) log (rest, faults2, w3)" and r: "case r of
        Inr faults' \<Rightarrow> rest = [] \<and> faults2 = faults' \<and> w3 = w'
      | Inl err \<Rightarrow> \<exists>e es'. rest = e # es' \<and>
          (wait_until C start (ev_at e) w3 = (Inl err, w') \<or>
           (\<exists>u w2. wait_until C start (ev_at e) w3 = (Inr u, w2) \<and> run_event C objs e faults2 w2 = Some (Inl err, w')))"
        by blast
      then have "executes C objs start (e # es, faults, w) ((e, w1) # log) (rest, faults2, w3)"
        using wait \<open>c = Inr u\<close> run Inr by (auto intro: executes.event)
      then show ?thesis using r by blast
    qed
  qed
qed

lemma executes_log:
  "executes C objs start st log st' \<Longrightarrow> map fst log @ fst st' = fst st \<and>
     (\<forall>(e, v)\<in>set log. \<exists>faults faults1 v1. run_event C objs e faults v = Some (Inr faults1, v1))"
  by (induction rule: executes.induct) auto

context timed_client
begin

lemma wait_until_reached:
  assumes "wait_until C start at w = (Inr u, w')"
  shows "start + at \<le> time w'"
proof -
  obtain t w1 where t: "kc_Now C w = (t, w1)" by (cases "kc_Now C w")
  show ?thesis
  proof (cases "at - (t - start) > 0")
    case True
    let ?line = "''waiting '' @ duration_text (duration_round (at - (t - start)) Second)"
    have "kc_After C (at - (t - start)) (kc_Progress C ?line w1) = (Inr u, w')"
      using assms True by (simp add: wait_until_def t Let_def)
    then have "time (kc_Progress C ?line w1) + (at - (t - start)) \<le> time w'" by (rule after_waits)
    then show ?thesis using now_reads [OF t] progress [of w1 ?line] by linarith
  next
    case False
    then show ?thesis using assms now_reads [OF t] by (auto simp: wait_until_def t Let_def)
  qed
qed

lemma executes_on_time:
  "executes C objs start st log st' \<Longrightarrow> \<forall>(e, v)\<in>set log. start + ev_at e \<le> time v"
  by (induction rule: executes.induct) (auto dest: wait_until_reached)

end

text \<open>
  C7. The timeline is executed as declared: its events succeed one after the other in timeline
  order, each in the world that the wait for it left and after the faults recorded before it,
  none is skipped, none starts before its offset has passed since the start, and the
  timeline is left early only at an event that failed or whose wait was interrupted, with that
  error.
\<close>

theorem timeline_executed:
  assumes "timed_client time C" "runTimeline C s objs w = Some (r, w')"
  shows "\<exists>start w1 log rest faults1 w2. kc_Now C w = (start, w1) \<and> time w \<le> start \<and>
     executes C objs start (timeline s, [], w1) log (rest, faults1, w2) \<and> map fst log @ rest = timeline s \<and>
     (\<forall>(e, v)\<in>set log. start + ev_at e \<le> time v \<and>
        (\<exists>faults faults1 v1. run_event C objs e faults v = Some (Inr faults1, v1))) \<and>
     (case r of Inr faults \<Rightarrow> rest = [] \<and> faults = faults1 \<and> w2 = w'
      | Inl err \<Rightarrow> \<exists>e es. rest = e # es \<and>
          (wait_until C start (ev_at e) w2 = (Inl err, w') \<or>
           (\<exists>u v. wait_until C start (ev_at e) w2 = (Inr u, v) \<and> run_event C objs e faults1 v = Some (Inl err, w'))))"
proof -
  obtain start w1 where start: "kc_Now C w = (start, w1)" by (cases "kc_Now C w")
  have run: "run_events C objs start (timeline s) [] w1 = Some (r, w')"
    using assms(2) by (simp add: runTimeline_def start)
  from run_events_executes [OF this] obtain log rest faults1 w2 where
    ex: "executes C objs start (timeline s, [], w1) log (rest, faults1, w2)" and
    r: "case r of Inr faults' \<Rightarrow> rest = [] \<and> faults1 = faults' \<and> w2 = w'
      | Inl err \<Rightarrow> \<exists>e es'. rest = e # es' \<and>
          (wait_until C start (ev_at e) w2 = (Inl err, w') \<or>
           (\<exists>u w3. wait_until C start (ev_at e) w2 = (Inr u, w3) \<and> run_event C objs e faults1 w3 = Some (Inl err, w')))"
    by blast
  have "time w \<le> start" using clock.now_reads [OF timed_client.axioms(1) [OF assms(1)] start] by blast
  moreover note executes_log [OF ex] timed_client.executes_on_time [OF assms(1) ex]
  moreover have "case r of Inr faults \<Rightarrow> rest = [] \<and> faults = faults1 \<and> w2 = w'
      | Inl err \<Rightarrow> \<exists>e es. rest = e # es \<and>
          (wait_until C start (ev_at e) w2 = (Inl err, w') \<or>
           (\<exists>u v. wait_until C start (ev_at e) w2 = (Inr u, v) \<and> run_event C objs e faults1 v = Some (Inl err, w')))"
    using r by (cases r) auto
  ultimately show ?thesis using start ex
    by (intro exI [of _ start] exI [of _ w1] exI [of _ log] exI [of _ rest] exI [of _ faults1] exI [of _ w2]) auto
qed

definition demo_scenario :: scenario where
  "demo_scenario = \<lparr>sc_APIVersion = APIVersion_scenario, sc_Kind = Kind_scenario, sc_Name = ''demo'',
     sc_Description = [],
     sc_Spec = \<lparr>ps_Cluster = \<lparr>cr_Topology = ''t.yaml'', cr_Scheduler = SchedulerKAI\<rparr>,
       ps_Workloads = [demo_workload\<lparr>wl_RetireAt := 60\<rparr>],
       ps_Faults = [\<lparr>ft_Name = ''outage'', ft_At = 30, ft_Degrade = None, ft_KillNode = ''n1''\<rparr>],
       ps_Assertions = [demo_assertion\<lparr>as_Running := Some 2\<rparr>]\<rparr>\<rparr>"

abbreviation demo_client :: "int client" where
  "demo_client \<equiv> still_client [demo_pod ''p'' ''n1'', demo_pod ''q'' ''n2''] (\<lambda>_ _. [])"

lemma translate_supported: "checkSupported w sched = None \<Longrightarrow> \<exists>ob. Translate w sched ns topo = Inr ob"
  unfolding Translate_def Let_def by (simp only: option.case sum.inject) blast

lemma translate_all_supported:
  "\<forall>w\<in>set wls. checkSupported w sched = None \<Longrightarrow> \<exists>objs. translate_all sched topo wls objs0 = Inr objs"
proof (induction wls arbitrary: objs0)
  case (Cons w wls)
  obtain ob where "Translate w sched Namespace topo = Inr ob" using translate_supported Cons.prems by force
  then show ?case using Cons by simp
qed simp

lemma demo_scenario_valid: "scenario_wf demo_scenario" "Validate_scenario demo_scenario = []"
proof -
  let ?a = "demo_assertion\<lparr>as_Running := Some 2\<rparr>"
  have "conditions ?a = [False, False, True, False, False, False, False, False]"
    by (simp add: conditions_def demo_assertion_def)
  then have "\<exists>!k. k < length (conditions ?a) \<and> conditions ?a ! k"
    by (intro ex1I [of _ 2]) (auto simp: less_Suc_eq)
  then have "assertion_wf {''train''} True ?a"
    by (simp add: assertion_wf_def demo_assertion_def scenario_constants)
  then show "scenario_wf demo_scenario"
    by (simp add: scenario_wf_def demo_scenario_def workload_wf_def demo_workload_def
      Schedulers_def fault_wf_def)
  then show "Validate_scenario demo_scenario = []" by (simp add: Validate_scenario_wf)
qed

lemma demo_runs: "timed_client (\<lambda>t. t) demo_client"
  by (rule still_client_timed)

lemma demo_translated:
  "\<exists>objs. translate_all SchedulerKAI topo (ps_Workloads (sc_Spec demo_scenario)) objs0 = Inr objs"
  by (rule translate_all_supported) (simp add: demo_scenario_def checkSupported_def scenario_constants)

theorem timeline_executed_witness:
  "\<exists>objs r w' start log rest. runTimeline demo_client demo_scenario objs 5 = Some (r, w') \<and> 5 \<le> start \<and>
     map fst log @ rest = timeline demo_scenario \<and> (\<forall>(e, v)\<in>set log. start + ev_at e \<le> v)"
proof -
  obtain objs where objs: "translate_all SchedulerKAI ''demo'' (ps_Workloads (sc_Spec demo_scenario)) [] = Inr objs"
    using demo_translated by blast
  obtain r w' where run: "runTimeline demo_client demo_scenario objs 5 = Some (r, w')"
    using forwardD [OF timed_client.forward_runTimeline [OF demo_runs demo_scenario_valid(1) objs]] by blast
  obtain start log rest where "5 \<le> start" "map fst log @ rest = timeline demo_scenario"
    "\<forall>(e, v)\<in>set log. start + ev_at e \<le> v"
    using timeline_executed [OF demo_runs run] by fast
  with run show ?thesis by blast
qed

subsection \<open>Casualties\<close>

lemma fold_if: "fold (\<lambda>x s. if P x then g s x else s) xs s = fold (\<lambda>x s. g s x) (filter P xs) s"
  by (induction xs arbitrary: s) auto

lemma fold_add_casualty:
  "fold (\<lambda>p f. add_casualty f p) ps f = f\<lparr>fr_disrupted :=
     fold (\<lambda>p m. map_put (px_Workload p)
         (map_put (px_UID p) True (case map_get m (px_Workload p) of None \<Rightarrow> [] | Some u \<Rightarrow> u)) m)
       ps (fr_disrupted f)\<rparr>"
  by (induction ps arbitrary: f) (simp_all add: add_casualty_def Let_def)

lemma fold_uids:
  "fold (\<lambda>p e. Some (map_put (px_UID p) True (case e of None \<Rightarrow> [] | Some u \<Rightarrow> u))) ps e = Some m \<Longrightarrow>
     fst ` set m = (case e of None \<Rightarrow> {} | Some u \<Rightarrow> fst ` set u) \<union> px_UID ` set ps"
  by (induction ps arbitrary: e) (auto split: option.splits)

lemma casualties_add:
  assumes "fr_disrupted f = []"
  shows "casualties [fold (\<lambda>p f. add_casualty f p) ps f] name = px_UID ` {p \<in> set ps. px_Workload p = name}"
proof -
  let ?hit = "filter (\<lambda>p. px_Workload p = name) ps"
  have get: "map_get (fr_disrupted (fold (\<lambda>p f. add_casualty f p) ps f)) name =
      fold (\<lambda>p e. Some (map_put (px_UID p) True (case e of None \<Rightarrow> [] | Some u \<Rightarrow> u))) ?hit None"
    using gm.get_group [where m = "[]" and key = px_Workload and xs = ps and k = name and
        f = "\<lambda>p e. map_put (px_UID p) True (case e of None \<Rightarrow> [] | Some u \<Rightarrow> u)"]
    by (simp add: fold_add_casualty assms)
  show ?thesis
  proof (cases ?hit rule: rev_cases)
    case Nil
    then have "{p \<in> set ps. px_Workload p = name} = {}" by (auto simp: filter_empty_conv)
    then show ?thesis by (simp add: casualties_def get Nil)
  next
    case (snoc qs q)
    then obtain m where m: "fold (\<lambda>p e. Some (map_put (px_UID p) True (case e of None \<Rightarrow> [] | Some u \<Rightarrow> u))) ?hit None = Some m"
      by simp
    from fold_uids [OF m] have "fst ` set m = px_UID ` set ?hit" by simp
    then show ?thesis by (simp add: casualties_def get m)
  qed
qed

text \<open>
  A pod that holds a device the fault really hit: \<open>hits\<close> lists devices as the cluster knows
  them, by the node that publishes them and the name.
\<close>

definition holds_hit :: "(string \<times> string) set \<Rightarrow> pod_state \<Rightarrow> bool" where
  "holds_hit hits p \<longleftrightarrow> (\<exists>dev\<in>set (px_Devices p). (px_Node p, dev) \<in> hits)"

text \<open>
  C16. What the runner records as a fault's casualties, as the pods stood just before it. Firing
  a fault adds one record, of the fault's name and time. Killing a node deletes that node, and
  the casualties are exactly the replicas that were running on it. A degradation taints the
  devices its target resolves to, and the casualties are exactly the replicas that were running
  and held a device whose bare name is among the tainted names, whatever node they run on. So no
  running replica that held a tainted device of its own node is ever missed, and when no
  replica holds a namesake of a device tainted elsewhere, the casualties are exactly those. Where
  names repeat, as the names of MIG partitions do on every node, replicas of nodes that the
  fault did not touch are counted as well, which is a defect of the code; the witness shows one.
\<close>

theorem fire_casualties:
  assumes "fire C f faults w = Some (Inr faults', w')"
  shows "\<exists>before w1 rec. kc_SnapshotPods C Namespace w = Some (Inr before, w1) \<and> faults' = faults @ [rec] \<and>
     fr_name rec = ft_Name f \<and> fr_firedAt rec = fst (kc_Now C w1) \<and>
     (if ft_KillNode f \<noteq> [] then
        (\<exists>u w2. kc_DeleteNode C (ft_KillNode f) (snd (kc_Now C w1)) = Some (Inr u, w2)) \<and>
        (\<forall>name. casualties [rec] name =
          {px_UID p |p. p \<in> set before \<and> px_Running p \<and> px_Node p = ft_KillNode f \<and> px_Workload p = name})
      else \<exists>d m tainted w2 w3. ft_Degrade f = Some d \<and> deviceMatch C d (snd (kc_Now C w1)) = Some (Inr m, w2) \<and>
        kc_TaintDevices C m (TaintEffect d) w2 = Some (Inr tainted, w3) \<and>
        (\<forall>name. casualties [rec] name =
          {px_UID p |p. p \<in> set before \<and> px_Running p \<and> px_Workload p = name \<and>
             (\<exists>dev\<in>set (px_Devices p). map_get tainted dev = Some True)}) \<and>
        (\<forall>hits name. (\<forall>dev. map_get tainted dev = Some True \<longleftrightarrow> (\<exists>node. (node, dev) \<in> hits)) \<longrightarrow>
           {px_UID p |p. p \<in> set before \<and> px_Running p \<and> px_Workload p = name \<and> holds_hit hits p} \<subseteq> casualties [rec] name \<and>
           ((\<forall>p\<in>set before. \<forall>dev\<in>set (px_Devices p). \<forall>node. (node, dev) \<in> hits \<longrightarrow> (px_Node p, dev) \<in> hits) \<longrightarrow>
              casualties [rec] name =
                {px_UID p |p. p \<in> set before \<and> px_Running p \<and> px_Workload p = name \<and> holds_hit hits p})))"
proof -
  obtain before w1 where before: "kc_SnapshotPods C Namespace w = Some (Inr before, w1)"
    using assms by (auto simp: fire_def split: bind_splits sum.splits)
  obtain t w2 where t: "kc_Now C w1 = (t, w2)" by (cases "kc_Now C w1")
  let ?rec = "\<lparr>fr_name = ft_Name f, fr_firedAt = t, fr_disrupted = []\<rparr>"
  have frame: "fr_name (fold (\<lambda>p f. add_casualty f p) ps r) = fr_name r" "fr_firedAt (fold (\<lambda>p f. add_casualty f p) ps r) = fr_firedAt r" for ps r
    by (simp_all add: fold_add_casualty)
  show ?thesis
  proof (cases "ft_KillNode f \<noteq> []")
    case True
    then obtain u w3 where "kc_DeleteNode C (ft_KillNode f) w2 = Some (Inr u, w3)"
      "faults' = faults @ [record_node (ft_KillNode f) before ?rec]"
      using assms before t by (auto simp: fire_def Let_def split: bind_splits sum.splits)
    with True show ?thesis
      by (intro exI [of _ before] exI [of _ w1] exI [of _ "record_node (ft_KillNode f) before ?rec"] conjI)
        (auto simp: before t record_node_def fold_if frame casualties_add)
  next
    case False
    then obtain d m tainted w3 w4 where d: "ft_Degrade f = Some d" "deviceMatch C d (snd (kc_Now C w1)) = Some (Inr m, w3)"
      "kc_TaintDevices C m (TaintEffect d) w3 = Some (Inr tainted, w4)"
      and faults: "faults' = faults @ [record_tainted tainted before ?rec]"
      using assms before t by (auto simp: fire_def Let_def split: bind_splits sum.splits option.splits)
    let ?r = "record_tainted tainted before ?rec"
    have named: "\<forall>name. casualties [?r] name = {px_UID p |p. p \<in> set before \<and> px_Running p \<and> px_Workload p = name \<and>
        (\<exists>dev\<in>set (px_Devices p). map_get tainted dev = Some True)}"
      by (auto simp: record_tainted_def fold_if casualties_add)
    have hit: "\<forall>hits name. (\<forall>dev. map_get tainted dev = Some True \<longleftrightarrow> (\<exists>node. (node, dev) \<in> hits)) \<longrightarrow>
       {px_UID p |p. p \<in> set before \<and> px_Running p \<and> px_Workload p = name \<and> holds_hit hits p} \<subseteq> casualties [?r] name \<and>
       ((\<forall>p\<in>set before. \<forall>dev\<in>set (px_Devices p). \<forall>node. (node, dev) \<in> hits \<longrightarrow> (px_Node p, dev) \<in> hits) \<longrightarrow>
          casualties [?r] name =
            {px_UID p |p. p \<in> set before \<and> px_Running p \<and> px_Workload p = name \<and> holds_hit hits p})"
      unfolding spec [OF named] by (auto simp: holds_hit_def; blast)
    have made: "fr_name ?r = ft_Name f" "fr_firedAt ?r = fst (kc_Now C w1)" by (simp_all add: record_tainted_def fold_if frame t)
    have kill: "(ft_KillNode f \<noteq> []) = False" using False by simp
    show ?thesis
      unfolding kill if_False
      by (intro exI conjI) (rule before faults made d named hit)+
  qed
qed

theorem timeline_faithful_witness:
  "\<exists>us vs ws submit retire. timeline demo_scenario = us @ submit # vs @ retire # ws \<and>
     action_of submit = Submits (demo_workload\<lparr>wl_RetireAt := 60\<rparr>) \<and> action_of retire = Retires (demo_workload\<lparr>wl_RetireAt := 60\<rparr>) \<and>
     ev_at retire = 60"
proof -
  let ?w = "demo_workload\<lparr>wl_RetireAt := 60\<rparr>"
  have "?w \<in> set (ps_Workloads (sc_Spec demo_scenario))" "wl_RetireAt ?w > 0" "wl_RetireAt ?w = 60"
    by (simp_all add: demo_scenario_def)
  moreover have "\<forall>w\<in>set (ps_Workloads (sc_Spec demo_scenario)). wl_RetireAt w > 0 \<longrightarrow>
      (\<exists>us vs ws submit retire. timeline demo_scenario = us @ submit # vs @ retire # ws \<and>
         action_of submit = Submits w \<and> ev_at submit = wl_SubmitAt w \<and>
         action_of retire = Retires w \<and> ev_at retire = wl_RetireAt w)"
    using timeline_faithful [of demo_scenario] demo_scenario_valid(2) by blast
  ultimately show ?thesis by fastforce
qed

text \<open>
  Two nodes publish a partition of one name, and each runs a replica that holds its own. Only
  the first node is in the rack that degrades.
\<close>

definition namesake_client :: "int client" where
  "namesake_client = demo_client\<lparr>
     kc_SnapshotPods := (\<lambda>_ t. Some (Inr
       [\<lparr>px_UID = ''p'', px_Name = ''p'', px_Workload = ''train'', px_Node = ''n1'', px_Running = True, px_Devices = [''a'']\<rparr>,
        \<lparr>px_UID = ''q'', px_Name = ''q'', px_Workload = ''train'', px_Node = ''n2'', px_Running = True, px_Devices = [''a'']\<rparr>], t)),
     kc_NodesWithLabel := (\<lambda>_ _ t. Some (Inr [(''n1'', True)], t)),
     kc_TaintDevices := (\<lambda>m effect t. Some (TaintDevices (\<lambda>_ _ t. (Inr (), t))
       (Inr [demo_slice ''n1'' [demo_partition ''a'' ''1g.10gb''], demo_slice ''n2'' [demo_partition ''a'' ''1g.10gb'']]) m effect t))\<rparr>"

abbreviation namesake_fault :: fault where
  "namesake_fault \<equiv> \<lparr>ft_Name = ''rack'', ft_At = 30,
     ft_Degrade = Some \<lparr>dg_Level = ''rack'', dg_Value = ''r1'', dg_Devices = [], dg_Effect = []\<rparr>, ft_KillNode = []\<rparr>"

lemma namesake_tainted:
  "kc_TaintDevices namesake_client \<lparr>dm_Nodes = [(''n1'', True)], dm_Attributes = []\<rparr> effect t = Some (Inr [(''a'', True)], t)"
  by (simp add: namesake_client_def TaintDevices_def matches_def demo_slice_def demo_partition_def Let_def)

lemma namesake_match:
  "deviceMatch namesake_client \<lparr>dg_Level = ''rack'', dg_Value = ''r1'', dg_Devices = [], dg_Effect = []\<rparr> t =
     Some (Inr \<lparr>dm_Nodes = [(''n1'', True)], dm_Attributes = []\<rparr>, t)"
  by (simp add: deviceMatch_def LabelForLevel_def levelLabels_def namesake_client_def)

theorem fire_casualties_witness:
  "\<exists>rec. fire namesake_client namesake_fault [] 5 = Some (Inr [rec], 5) \<and> casualties [rec] ''train'' = {''p'', ''q''}"
proof -
  have clock: "kc_Now namesake_client 5 = (5, 5)" and log: "kc_Progress namesake_client line t = t" for line t
    by (simp_all add: namesake_client_def still_client_def)
  obtain before where snap: "kc_SnapshotPods namesake_client Namespace 5 = Some (Inr before, 5)"
    and pods: "{px_UID p |p. p \<in> set before \<and> px_Running p \<and> px_Workload p = ''train'' \<and> ''a'' \<in> set (px_Devices p)} = {''p'', ''q''}"
    by (simp add: namesake_client_def conj_disj_distribL conj_disj_distribR ex_disj_distrib) blast
  have "\<exists>faults. fire namesake_client namesake_fault [] 5 = Some (Inr faults, 5)"
    by (simp add: fire_def snap clock log namesake_match namesake_tainted Let_def)
  then obtain faults where fire: "fire namesake_client namesake_fault [] 5 = Some (Inr faults, 5)" by blast
  from fire_casualties [OF fire] obtain rec where rec: "faults = [rec]"
    "casualties [rec] ''train'' = {px_UID p |p. p \<in> set before \<and> px_Running p \<and> px_Workload p = ''train'' \<and>
       (\<exists>dev\<in>set (px_Devices p). map_get [(''a'', True)] dev = Some True)}"
    by (auto simp: snap clock namesake_match namesake_tainted)
  have "(\<exists>dev\<in>set ds. map_get [(''a'', True)] dev = Some True) \<longleftrightarrow> ''a'' \<in> set ds" for ds by auto
  then have "casualties [rec] ''train'' = {''p'', ''q''}" using rec(2) pods by simp
  then show ?thesis using fire rec(1) by blast
qed

subsection \<open>The whole run\<close>

text \<open>
  A run always ends and always reports: on a scenario the parser accepts, and a cluster whose
  calls return, none of the run's loops (the drained namespace, the timeline, each assertion)
  goes on forever and none of its steps panics, and the duration reported is not negative and
  no longer than the run took.
\<close>

theorem Run_always_reports:
  assumes "timed_client time C" "Validate_scenario s = []"
  shows "\<exists>res w'. Run C s w = Some (res, w') \<and> 0 \<le> rr_Duration res \<and> rr_Duration res \<le> time w' - time w"
proof -
  have wf: "scenario_wf s" using assms(2) by (simp add: Validate_scenario_wf)
  obtain res w' where run: "Run C s w = Some (res, w')"
    using forwardD [OF timed_client.forward_Run [OF assms(1) wf]] by blast
  obtain start w1 where start: "kc_Now C w = (start, w1)" by (cases "kc_Now C w")
  obtain r sum w2 where prep: "prepare C s w1 = Some ((r, sum), w2)"
    using run start by (auto simp: Run_def split: bind_splits)
  have "\<exists>ars w3. (case r of Inl _ \<Rightarrow> Some ([], w2)
      | Inr faults \<Rightarrow> evaluate_all C faults (replica_counts (ps_Workloads (sc_Spec s)))
                       (ps_Assertions (sc_Spec s)) w2) = Some (ars, w3) \<and> time w2 \<le> time w3"
    using forwardD [OF timed_client.forward_evaluate_all [OF assms(1)]] by (cases r) auto
  then obtain ars w3 where ars: "(case r of Inl _ \<Rightarrow> Some ([], w2)
      | Inr faults \<Rightarrow> evaluate_all C faults (replica_counts (ps_Workloads (sc_Spec s)))
                       (ps_Assertions (sc_Spec s)) w2) = Some (ars, w3)" "time w2 \<le> time w3" by blast
  obtain t w4 where t: "kc_Now C w3 = (t, w4)" by (cases "kc_Now C w3")
  have "rr_Duration res = t - start" "w' = w4" using run by (auto simp: Run_def start prep ars t)
  moreover note clock.now_reads [OF timed_client.axioms(1) [OF assms(1)] start]
    clock.now_reads [OF timed_client.axioms(1) [OF assms(1)] t]
    forward_le [OF timed_client.forward_prepare [OF assms(1) wf] prep] ars(2)
  ultimately show ?thesis using run by fastforce
qed

theorem Run_always_reports_witness:
  "\<exists>res w'. Run demo_client demo_scenario 5 = Some (res, w') \<and> 0 \<le> rr_Duration res"
  using Run_always_reports [OF demo_runs demo_scenario_valid(2), of 5] by blast

lemma replica_counts_get:
  assumes "distinct (map wl_Name wls)" "wl \<in> set wls"
  shows "map_get (replica_counts wls) (wl_Name wl) = Some (wl_Replicas wl)"
proof -
  have keep: "map_get (fold (\<lambda>wl. map_put (wl_Name wl) (wl_Replicas wl)) ws m) k = map_get m k"
    if "k \<notin> wl_Name ` set ws" for ws m k
    using that by (induction ws arbitrary: m) (auto simp: update_conv')
  obtain us vs where split: "wls = us @ wl # vs" using assms(2) by (meson split_list)
  with assms(1) have "wl_Name wl \<notin> wl_Name ` set vs" by auto
  then show ?thesis by (simp add: replica_counts_def split keep update_conv')
qed

lemma empty_loop_result:
  assumes "empty_loop C deadline w = Some y"
  shows "\<forall>u. fst y = Inr u \<longrightarrow> (\<exists>v. kc_AllPods C Namespace v = Some (Inr [], snd y))"
    (is "?P C deadline w y")
proof (rule empty_loop.raw_induct [where P = ?P, OF _ assms], goal_cases)
  case (1 loop C deadline w y)
  obtain r w1 where r: "kc_AllPods C Namespace w = Some (r, w1)" using 1(2) by (auto split: bind_splits)
  obtain t w2 where t: "kc_Now C w1 = (t, w2)" by (cases "kc_Now C w1")
  obtain q w3 where q: "kc_After C Second w2 = (q, w3)" by (cases "kc_After C Second w2")
  show ?case using 1 by (cases r; cases q) (auto simp: r t q intro: exI [of _ w] split: if_splits)
qed

lemma empty_loop_empty:
  "empty_loop C deadline w = Some (Inr u, w') \<Longrightarrow> \<exists>v. kc_AllPods C Namespace v = Some (Inr [], w')"
  using empty_loop_result [of C deadline w "(Inr u, w')"] by simp

lemma translate_all_each:
  assumes "translate_all sched topo wls objs0 = Inr objs" "distinct (map wl_Name wls)"
  shows "(\<forall>wl\<in>set wls. \<exists>ob. map_get objs (wl_Name wl) = Some ob \<and> Translate wl sched Namespace topo = Inr ob) \<and>
     (\<forall>n. n \<notin> wl_Name ` set wls \<longrightarrow> map_get objs n = map_get objs0 n)"
  using assms
proof (induction wls arbitrary: objs0)
  case (Cons wl wls)
  then obtain ob where ob: "Translate wl sched Namespace topo = Inr ob" by (auto split: sum.splits)
  then have "translate_all sched topo wls (map_put (wl_Name wl) ob objs0) = Inr objs" using Cons.prems by simp
  from Cons.IH [OF this] Cons.prems(2) ob show ?case by (auto simp: update_conv')
qed simp

text \<open>The steps of a preparation that went through, on any client.\<close>

lemma prepare_steps:
  assumes "prepare C s w = Some ((Inr faults, smry), w')"
  obtains objs0 topo v objs v1 v2 v3 where
    "translate_all (cr_Scheduler (ps_Cluster (sc_Spec s))) [] (ps_Workloads (sc_Spec s)) [] = Inr objs0"
    "kc_ApplyTopology C (cr_Topology (ps_Cluster (sc_Spec s)))
       (kc_Progress C (''applying topology '' @ cr_Topology (ps_Cluster (sc_Spec s))) w) = Some (Inr topo, v)"
    "translate_all (cr_Scheduler (ps_Cluster (sc_Spec s))) (tr_Name topo) (ps_Workloads (sc_Spec s)) objs0 = Inr objs"
    "kc_EnsureNamespace C Namespace v = Some (Inr (), v1)" "kc_ClearNamespace C Namespace v1 = Some (Inr (), v2)"
    "waitNamespaceEmpty C v2 = Some (Inr (), v3)" "runTimeline C s objs v3 = Some (Inr faults, w')"
    "smry = \<lparr>cs_Topology = tr_Name topo, cs_NodeCount = tr_Nodes topo, cs_DeviceCount = tr_Devices topo,
       cs_Scheduler = cr_Scheduler (ps_Cluster (sc_Spec s))\<rparr>"
  using assms unfolding prepare_def Let_def
  by (auto split: bind_splits sum.splits)

lemma evaluate_all_chain:
  assumes "evaluate_all C faults replicas as w = Some (ars, w')"
  shows "length ars = length as \<and> (\<exists>ws. length ws = Suc (length as) \<and> ws ! 0 = w \<and> ws ! length as = w' \<and>
     (\<forall>i<length as. evaluate C faults (as ! i)
        (case map_get replicas (as_Workload (as ! i)) of None \<Rightarrow> 0 | Some n \<Rightarrow> n) (ws ! i) = Some (ars ! i, ws ! Suc i)))"
  using assms
proof (induction as arbitrary: w ars)
  case Nil
  then show ?case by (intro conjI exI [of _ "[w]"]) simp_all
next
  case (Cons a as)
  then obtain ar w1 ars' where step: "evaluate C faults a
      (case map_get replicas (as_Workload a) of None \<Rightarrow> 0 | Some n \<Rightarrow> n) w = Some (ar, w1)"
    and rest: "evaluate_all C faults replicas as w1 = Some (ars', w')" and ars: "ars = ar # ars'"
    by (auto split: bind_splits)
  from Cons.IH [OF rest] obtain ws where len: "length ars' = length as" and ws: "length ws = Suc (length as)" "ws ! 0 = w1" "ws ! length as = w'"
    "\<forall>i<length as. evaluate C faults (as ! i)
        (case map_get replicas (as_Workload (as ! i)) of None \<Rightarrow> 0 | Some n \<Rightarrow> n) (ws ! i) = Some (ars' ! i, ws ! Suc i)"
    by blast
  have "evaluate C faults ((a # as) ! i)
        (case map_get replicas (as_Workload ((a # as) ! i)) of None \<Rightarrow> 0 | Some n \<Rightarrow> n) ((w # ws) ! i) =
      Some (ars ! i, (w # ws) ! Suc i)" if "i < length (a # as)" for i
    using that step ws(2,4) by (cases i) (simp_all add: ars)
  then show ?case using len ws(1,3) by (intro conjI exI [of _ "w # ws"]) (simp_all add: ars)
qed

text \<open>
  C3. What the verdict of a run means. Either the run got through the timeline, and then every
  assertion the scenario declares was evaluated, in order, the first in the world the timeline
  left and each other in the world its predecessor left, on the faults that timeline recorded
  and against the replica count of the workload it names, the error is empty, and the run
  passes exactly when all of them passed; or it stopped before, and then it fails, with the
  error that stopped it and no assertion reported.
\<close>

theorem Run_verdict:
  assumes "Validate_scenario s = []" "Run C s w = Some (res, w')"
  shows "(\<exists>faults v v' ws. prepare C s v = Some ((Inr faults, rr_Cluster res), v') \<and> v = snd (kc_Now C w) \<and>
       rr_Error res = [] \<and> (rr_Passed res \<longleftrightarrow> list_all ar_Passed (rr_Assertions res)) \<and>
       length (rr_Assertions res) = length (ps_Assertions (sc_Spec s)) \<and>
       ws ! 0 = v' \<and> w' = snd (kc_Now C (ws ! length (rr_Assertions res))) \<and>
       (\<forall>i<length (ps_Assertions (sc_Spec s)). \<exists>n.
          evaluate C faults (ps_Assertions (sc_Spec s) ! i) n (ws ! i) = Some (rr_Assertions res ! i, ws ! Suc i) \<and>
          (\<forall>wl\<in>set (ps_Workloads (sc_Spec s)). wl_Name wl = as_Workload (ps_Assertions (sc_Spec s) ! i) \<longrightarrow> n = wl_Replicas wl))) \<or>
     (\<exists>v v'. prepare C s v = Some ((Inl (rr_Error res), rr_Cluster res), v') \<and> v = snd (kc_Now C w) \<and>
       w' = snd (kc_Now C v') \<and> \<not> rr_Passed res \<and> rr_Assertions res = [])"
proof -
  let ?wls = "ps_Workloads (sc_Spec s)" and ?as = "ps_Assertions (sc_Spec s)"
  have distinct: "distinct (map wl_Name ?wls)"
    using assms(1) by (simp add: Validate_scenario_wf scenario_wf_def Let_def)
  obtain start v where start: "kc_Now C w = (start, v)" by (cases "kc_Now C w")
  obtain r sum v' where prep: "prepare C s v = Some ((r, sum), v')"
    using assms(2) start by (auto simp: Run_def split: bind_splits)
  show ?thesis
  proof (cases r)
    case (Inl err)
    then have "rr_Error res = err" "rr_Cluster res = sum" "\<not> rr_Passed res" "rr_Assertions res = []" "w' = snd (kc_Now C v')"
      using assms(2) by (auto simp: Run_def start prep split: prod.splits)
    then show ?thesis using prep Inl start by auto
  next
    case (Inr faults)
    then obtain ars v2 where ars: "evaluate_all C faults (replica_counts ?wls) ?as v' = Some (ars, v2)"
      using assms(2) by (auto simp: Run_def start prep split: bind_splits)
    then have res: "rr_Error res = []" "rr_Cluster res = sum" "rr_Passed res = list_all ar_Passed ars" "rr_Assertions res = ars"
      "w' = snd (kc_Now C v2)"
      using assms(2) Inr by (auto simp: Run_def start prep split: prod.splits)
    let ?n = "\<lambda>a. case map_get (replica_counts ?wls) (as_Workload a) of None \<Rightarrow> 0 | Some n \<Rightarrow> n"
    obtain ws where len: "length ars = length ?as" and ws: "ws ! 0 = v'" "ws ! length ?as = v2"
      "\<forall>i<length ?as. evaluate C faults (?as ! i) (?n (?as ! i)) (ws ! i) = Some (ars ! i, ws ! Suc i)"
      using evaluate_all_chain [OF ars] by blast
    have n: "\<forall>wl\<in>set ?wls. wl_Name wl = as_Workload a \<longrightarrow> ?n a = wl_Replicas wl" for a
      using replica_counts_get [OF distinct] by fastforce
    have "\<forall>i<length ?as. \<exists>n. evaluate C faults (?as ! i) n (ws ! i) = Some (rr_Assertions res ! i, ws ! Suc i) \<and>
          (\<forall>wl\<in>set ?wls. wl_Name wl = as_Workload (?as ! i) \<longrightarrow> n = wl_Replicas wl)"
      using ws(3) n unfolding res(4) by blast
    moreover have "prepare C s v = Some ((Inr faults, rr_Cluster res), v')" "v = snd (kc_Now C w)"
      using prep Inr res(2) start by simp_all
    ultimately show ?thesis using res(1,3-5) len ws(1,2) by (intro disjI1 exI conjI) (assumption | simp)+
  qed
qed

theorem Run_verdict_witness:
  "\<exists>res w'. Run demo_client demo_scenario 5 = Some (res, w') \<and>
     (rr_Passed res \<longrightarrow> (\<exists>faults ar v v'. rr_Assertions res = [ar] \<and>
        evaluate demo_client faults (demo_assertion\<lparr>as_Running := Some 2\<rparr>) 4 v = Some (ar, v')))"
proof -
  obtain res w' where run: "Run demo_client demo_scenario 5 = Some (res, w')"
    using forwardD [OF timed_client.forward_Run [OF demo_runs demo_scenario_valid(1)]] by blast
  have as: "ps_Assertions (sc_Spec demo_scenario) = [demo_assertion\<lparr>as_Running := Some 2\<rparr>]"
    "as_Workload (demo_assertion\<lparr>as_Running := Some 2\<rparr>) = ''train''"
    "ps_Workloads (sc_Spec demo_scenario) = [demo_workload\<lparr>wl_RetireAt := 60\<rparr>]"
    "wl_Name (demo_workload\<lparr>wl_RetireAt := 60\<rparr>) = ''train''" "wl_Replicas (demo_workload\<lparr>wl_RetireAt := 60\<rparr>) = 4"
    by (simp_all add: demo_scenario_def demo_assertion_def demo_workload_def)
  have "rr_Passed res \<longrightarrow> (\<exists>faults ar v v'. rr_Assertions res = [ar] \<and>
        evaluate demo_client faults (demo_assertion\<lparr>as_Running := Some 2\<rparr>) 4 v = Some (ar, v'))"
    using Run_verdict [OF demo_scenario_valid(2) run] unfolding as
    by (cases "rr_Assertions res") (auto simp: as)
  then show ?thesis using run by blast
qed

lemma translate_all_unsupported:
  assumes "\<forall>u\<in>set us. checkSupported u sched = None" "checkSupported x sched = Some e"
  shows "translate_all sched topo (us @ x # vs) objs = Inl (unsupported_text e)"
  using assms(1)
proof (induction us arbitrary: objs)
  case Nil
  then show ?case using assms(2) by (simp add: Translate_def)
next
  case (Cons u us)
  obtain ob where "Translate u sched Namespace topo = Inr ob" using translate_supported Cons.prems by force
  then show ?case using Cons by simp
qed

text \<open>
  C32. A scenario that asks its scheduler for what it cannot express fails before anything is
  created: the run reports the first such workload's refusal, and the only calls it has made
  are the two readings of the clock, so the cluster and its namespace are untouched.
\<close>

theorem Run_untranslatable:
  assumes "ps_Workloads (sc_Spec s) = us @ x # vs" "\<forall>u\<in>set us. checkSupported u sched = None"
    and "checkSupported x sched = Some e" "sched = cr_Scheduler (ps_Cluster (sc_Spec s))"
    and "kc_Now C w = (start, w1)" "kc_Now C w1 = (t, w2)"
  shows "Run C s w = Some (\<lparr>rr_Name = sc_Name s, rr_Description = sc_Description s, rr_Passed = False,
       rr_Duration = t - start,
       rr_Cluster = \<lparr>cs_Topology = [], cs_NodeCount = 0, cs_DeviceCount = 0, cs_Scheduler = sched\<rparr>,
       rr_Assertions = [], rr_Error = unsupported_text e\<rparr>, w2)"
  using assms(1,4-6) translate_all_unsupported [OF assms(2,3), of "[]" vs "[]"]
  by (simp add: Run_def prepare_def Let_def)

theorem Run_untranslatable_witness:
  "\<exists>res. Run demo_client (demo_scenario\<lparr>sc_Spec := (sc_Spec demo_scenario)\<lparr>ps_Cluster :=
       \<lparr>cr_Topology = ''t.yaml'', cr_Scheduler = SchedulerDefault\<rparr>\<rparr>\<rparr>) 5 = Some (res, 5) \<and>
     \<not> rr_Passed res \<and> rr_Assertions res = []"
proof -
  let ?s = "demo_scenario\<lparr>sc_Spec := (sc_Spec demo_scenario)\<lparr>ps_Cluster :=
       \<lparr>cr_Topology = ''t.yaml'', cr_Scheduler = SchedulerDefault\<rparr>\<rparr>\<rparr>"
  let ?x = "demo_workload\<lparr>wl_RetireAt := 60\<rparr>"
  have "checkSupported ?x SchedulerDefault \<noteq> None"
    by (simp add: checkSupported_def demo_workload_def)
  then obtain e where e: "checkSupported ?x SchedulerDefault = Some e" by blast
  have "ps_Workloads (sc_Spec ?s) = [] @ ?x # []" "SchedulerDefault = cr_Scheduler (ps_Cluster (sc_Spec ?s))"
    "kc_Now demo_client 5 = (5, 5)"
    by (simp_all add: demo_scenario_def still_client_def)
  from Run_untranslatable [OF this(1) _ e this(2) this(3) this(3)] show ?thesis by simp
qed

end
