(* ===== verification/RunnerReport.thy ===== *)
theory RunnerReport
  imports RunnerTimeline
begin

text \<open>
  internal/runner/report.go: what is printed of a run, as the text written to the report's
  output, and the tally of a suite. The JSON encoder is a parameter.
\<close>

definition newline :: string where "newline = [CHR 0x0A]"

definition escape :: "string \<Rightarrow> string" where
  "escape s = CHR 0x1B # CHR 0x5B # s"

definition colReset :: string where "colReset = escape ''0m''"
definition colGreen :: string where "colGreen = escape ''32m''"
definition colRed :: string where "colRed = escape ''31m''"
definition colBlue :: string where "colBlue = escape ''1;34m''"
definition colDim :: string where "colDim = escape ''2m''"

text \<open>\<open>c\<close> is the report's \<open>Colour\<close>.\<close>

definition colour :: "bool \<Rightarrow> string \<Rightarrow> string \<Rightarrow> string" where
  "colour c code s = (if \<not> c then s else code @ s @ colReset)"

definition describePlacement :: "(string \<times> int) list \<Rightarrow> string" where
  "describePlacement placement =
     join ''  '' (map (\<lambda>node. node @ ''='' @ itoa (case map_get placement node of None \<Rightarrow> 0 | Some n \<Rightarrow> n))
       (sort (map_keys placement)))"

text \<open>A middle dot between spaces, in UTF-8.\<close>

definition dot :: string where
  "dot = [CHR '' '', CHR 0xC2, CHR 0xB7, CHR '' '']"

definition said_text :: "string \<Rightarrow> string" where
  "said_text said =
     concat (map (\<lambda>line. ''         '' @ trim_space line @ newline) (split_on (CHR 0x0A) (trim_space said)))"

definition assertion_text :: "bool \<Rightarrow> assertion_result \<Rightarrow> string" where
  "assertion_text c a =
     (if ar_Passed a then
        ''  '' @ colour c colGreen ''PASS'' @ '' '' @ ar_Name a @ newline @
        (if ar_Detail a \<noteq> [] then ''       '' @ colour c colDim (ar_Detail a) @ newline else [])
      else
        ''  '' @ colour c colRed ''FAIL'' @ '' '' @ ar_Name a @ newline @
        (if ar_Detail a \<noteq> [] then ''       '' @ ar_Detail a @ newline else []) @
        (if ar_SchedulerSaid a \<noteq> []
         then newline @ ''       '' @ colour c colDim ''the scheduler said:'' @ newline @
              concat (map said_text (ar_SchedulerSaid a))
         else []) @
        (if ar_Placement a \<noteq> []
         then newline @ ''       '' @ colour c colDim ''placement:'' @ '' '' @ describePlacement (ar_Placement a) @
              newline @ newline
         else []))"

definition cluster_text :: "cluster_summary \<Rightarrow> string" where
  "cluster_text cs =
     ''cluster '' @ cs_Topology cs @ dot @ itoa (cs_NodeCount cs) @ '' nodes'' @ dot @
     itoa (cs_DeviceCount cs) @ '' devices'' @ dot @ ''scheduler '' @ cs_Scheduler cs"

definition WriteResult :: "bool \<Rightarrow> run_result \<Rightarrow> string" where
  "WriteResult c res =
     newline @ colour c colBlue ''==>'' @ '' '' @ rr_Name res @ newline @
     (if rr_Description res \<noteq> [] then ''    '' @ colour c colDim (rr_Description res) @ newline else []) @
     (if rr_Error res \<noteq> [] then ''  '' @ colour c colRed ''ERROR'' @ '' '' @ rr_Error res @ newline
      else ''    '' @ colour c colDim (cluster_text (rr_Cluster res)) @ newline @
           concat (map (assertion_text c) (rr_Assertions res)))"

definition succeeded :: "run_result \<Rightarrow> bool" where
  "succeeded res \<longleftrightarrow> rr_Passed res \<and> rr_Error res = []"

definition tally :: "run_result list \<Rightarrow> int \<times> int" where
  "tally results =
     fold (\<lambda>res (passed, failed). if succeeded res then (passed + 1, failed) else (passed, failed + 1)) results (0, 0)"

definition WriteSummary :: "bool \<Rightarrow> run_result list \<Rightarrow> int \<Rightarrow> string" where
  "WriteSummary c results took =
     (let (passed, failed) = tally results;
          line = ''  '' @ itoa passed @ '' passed, '' @ itoa failed @ '' failed''
      in newline @ colour c colBlue ''==>'' @ '' Result'' @ newline @
         colour c (if failed > 0 then colRed else colGreen) line @
         ''  '' @ colour c colDim (''in '' @ duration_text (duration_round took Second)) @ newline @ newline)"

text \<open>What \<open>WriteJSON\<close> encodes: each result with its duration in milliseconds.\<close>

definition json_results :: "run_result list \<Rightarrow> (run_result \<times> int) list" where
  "json_results results = map (\<lambda>res. (res, duration_milliseconds (rr_Duration res))) results"

subsection \<open>The tally\<close>

lemma tally_counts:
  "tally results = (int (length (filter succeeded results)), int (length (filter (\<lambda>r. \<not> succeeded r) results)))"
proof -
  have "fold (\<lambda>res (passed, failed). if succeeded res then (passed + 1, failed) else (passed, failed + 1)) results (p, f) =
      (p + int (length (filter succeeded results)), f + int (length (filter (\<lambda>r. \<not> succeeded r) results)))" for p f
    by (induction results arbitrary: p f) auto
  then show ?thesis by (simp add: tally_def)
qed

lemma tally_failed: "snd (tally results) = 0 \<longleftrightarrow> list_all succeeded results"
  by (simp add: tally_counts list_all_iff filter_empty_conv)

lemma describePlacement_order:
  assumes "distinct (map_keys m)" "distinct (map_keys m')" "map_of m = map_of m'"
  shows "describePlacement m = describePlacement m'"
proof -
  have "set (map_keys m) = set (map_keys m')" using assms(3) by (metis dom_map_of_conv_image_fst list.set_map)
  then have "mset (map_keys m) = mset (map_keys m')"
    by (simp only: set_eq_iff_mset_eq_distinct [OF assms(1,2)])
  then have "sort (map_keys m) = sort (map_keys m')" by (intro properties_for_sort) simp_all
  then show ?thesis using assms(3) by (simp add: describePlacement_def)
qed

text \<open>
  The report prints what the run found, in a fixed order: whatever order the placement maps
  are visited in, the same results give the same text; the summary's two counts are those of the
  results that passed without an error and of the others, and together all results; and the
  summary is printed in the failure colour exactly when some result did not succeed.
\<close>

theorem report_faithful:
  "(\<forall>m m'. distinct (map_keys m) \<and> distinct (map_keys m') \<and> map_of m = map_of m' \<longrightarrow>
      describePlacement m = describePlacement m') \<and>
   fst (tally results) = int (length (filter succeeded results)) \<and>
   fst (tally results) + snd (tally results) = int (length results) \<and>
   (snd (tally results) > 0 \<longleftrightarrow> (\<exists>res\<in>set results. \<not> succeeded res))"
proof (intro conjI allI impI)
  fix m m' :: "(string \<times> int) list"
  assume "distinct (map_keys m) \<and> distinct (map_keys m') \<and> map_of m = map_of m'"
  then show "describePlacement m = describePlacement m'" by (intro describePlacement_order) simp_all
next
  show "fst (tally results) = int (length (filter succeeded results))" by (simp add: tally_counts)
  show "fst (tally results) + snd (tally results) = int (length results)"
    using sum_length_filter_compl [of succeeded results] by (simp add: tally_counts)
  show "snd (tally results) > 0 \<longleftrightarrow> (\<exists>res\<in>set results. \<not> succeeded res)"
    by (auto simp: tally_counts filter_empty_conv)
qed

theorem report_faithful_witness:
  "describePlacement [(''b'', 1), (''a'', 2)] = describePlacement [(''a'', 2), (''b'', 1)]"
proof -
  have "\<forall>m m'. distinct (map_keys m) \<and> distinct (map_keys m') \<and> map_of m = map_of m' \<longrightarrow>
      describePlacement m = describePlacement m'" using report_faithful [of "[]"] by blast
  moreover have "distinct (map_keys [(''b'', 1), (''a'', 2 :: int)]) \<and> distinct (map_keys [(''a'', 2), (''b'', 1 :: int)]) \<and>
      map_of [(''b'', 1), (''a'', 2 :: int)] = map_of [(''a'', 2), (''b'', 1)]" by auto
  ultimately show ?thesis by blast
qed

end
