(* ===== verification/KubeApi.thy ===== *)
theory KubeApi
  imports RunnerClient GenerateVolcano
begin

text \<open>
  The Kubernetes API as internal/cluster uses it. The API server and client-go are not part of
  the program, so their requests are parameters: functions of the world they act on. What the
  program relies on is stated as laws about them: the store laws (\<open>object_store\<close>) say what a
  request does to the objects of its kind, the law of retrying (\<open>attempts\<close>) says what
  \<open>retry.RetryOnConflict\<close> may do, and the laws of time say that a request does not turn the
  clock back. \<open>ClusterApply\<close> and \<open>ClusterWorkloads\<close> prove the client's operations from these
  laws; \<open>ApiServer\<close> is an in-memory server that satisfies them.
\<close>

subsection \<open>Requests\<close>

text \<open>
  The errors the program tells apart (\<open>apierrors.IsNotFound\<close>, \<open>IsAlreadyExists\<close>,
  \<open>IsConflict\<close>, \<open>meta.IsNoMatchError\<close>), each with its text.
\<close>

datatype api_error =
    NotFound string
  | AlreadyExists string
  | Conflict string
  | NoMatch string
  | Refused string

primrec api_text :: "api_error \<Rightarrow> string" where
  "api_text (NotFound s) = s"
| "api_text (AlreadyExists s) = s"
| "api_text (Conflict s) = s"
| "api_text (NoMatch s) = s"
| "api_text (Refused s) = s"

fun isNotFound :: "api_error \<Rightarrow> bool" where
  "isNotFound (NotFound _) \<longleftrightarrow> True"
| "isNotFound _ \<longleftrightarrow> False"

type_synonym ('w, 'a) api_call = "'w \<Rightarrow> (api_error + 'a) \<times> 'w"

text \<open>
  The requests for one kind of object. \<open>Get\<close> returns the object with its resource version,
  which \<open>Update\<close> and \<open>UpdateStatus\<close> send back. A selector is a label and its value, or
  nothing for every object.
\<close>

record ('w, 'o) api =
  ap_Get :: "string \<Rightarrow> ('w, string \<times> 'o) api_call"
  ap_Create :: "'o \<Rightarrow> ('w, 'o) api_call"
  ap_Update :: "string \<Rightarrow> 'o \<Rightarrow> ('w, unit) api_call"
  ap_UpdateStatus :: "string \<Rightarrow> 'o \<Rightarrow> ('w, unit) api_call"
  ap_Delete :: "string \<Rightarrow> ('w, unit) api_call"
  ap_DeleteCollection :: "('w, unit) api_call"
  ap_List :: "(string \<times> string) option \<Rightarrow> ('w, 'o list) api_call"

text \<open>A ConfigMap, as far as it is read.\<close>

record config_map =
  cm_Name :: string
  cm_Data :: "(string \<times> string) list"

text \<open>
  Everything outside the program that \<open>cluster.Client\<close> reaches: the requests for each kind
  (by namespace for the namespaced ones), the server-side dry run of a slice's creation,
  \<open>retry.RetryOnConflict\<close> with its default backoff, the clock, the file reader and the YAML
  decoders, and the UUID hash. Reading a profile's ConfigMap is a function of the world alone.
\<close>

record 'w kube =
  ku_Nodes :: "('w, kube_node) api"
  ku_Slices :: "('w, resource_slice) api"
  ku_DryRunSlice :: "resource_slice \<Rightarrow> ('w, resource_slice) api_call"
  ku_Topologies :: "('w, kai_topology) api"
  ku_HyperNodes :: "('w, hyper_node) api"
  ku_DeviceClasses :: "('w, device_class) api"
  ku_Namespaces :: "('w, string) api"
  ku_Deployments :: "string \<Rightarrow> ('w, deployment_object) api"
  ku_Jobs :: "string \<Rightarrow> ('w, job_object) api"
  ku_Pods :: "string \<Rightarrow> ('w, pod) api"
  ku_ClaimTemplates :: "string \<Rightarrow> ('w, claim_template) api"
  ku_Claims :: "string \<Rightarrow> ('w, resource_claim) api"
  ku_PodGroups :: "string \<Rightarrow> ('w, pod_group) api"
  ku_VolcanoPodGroups :: "string \<Rightarrow> ('w, volcano_pod_group) api"
  ku_ConfigMap :: "string \<Rightarrow> string \<Rightarrow> 'w \<Rightarrow> api_error + config_map"
  ku_Retry :: "('w, unit) api_call \<Rightarrow> ('w, unit) api_call"
  ku_Now :: "'w \<Rightarrow> int \<times> 'w"
  ku_After :: "int \<Rightarrow> 'w \<Rightarrow> (string + unit) \<times> 'w"
  ku_Progress :: "string \<Rightarrow> 'w \<Rightarrow> 'w"
  ku_ReadFile :: "string \<Rightarrow> string + string"
  ku_TopologyYAML :: "string \<Rightarrow> string + cluster_topology"
  ku_ProfileYAML :: "string \<Rightarrow> string + gpu_profile"
  ku_UUID :: "string \<Rightarrow> string"

text \<open>\<open>generate.ManagedSelector\<close>.\<close>

definition ManagedSelector :: "(string \<times> string) option" where
  "ManagedSelector = Some (LabelManagedBy, ManagedByValue)"

fun selects :: "(string \<times> string) option \<Rightarrow> (string \<times> string) list \<Rightarrow> bool" where
  "selects None labels \<longleftrightarrow> True"
| "selects (Some (k, v)) labels \<longleftrightarrow> has_label labels k v"

lemma selects_managed [simp]: "selects ManagedSelector labels \<longleftrightarrow> managed labels"
  by (simp add: ManagedSelector_def managed_def)

subsection \<open>Shared shapes\<close>

text \<open>
  An error with the context \<open>fmt.Errorf("...: %w", err)\<close> puts before it, and the loops over a
  list that stop at the first error.
\<close>

fun in_context :: "string \<Rightarrow> (api_error + 'a) \<times> 'w \<Rightarrow> (string + 'a) \<times> 'w" where
  "in_context ctx (Inl e, w) = (Inl (ctx @ '': '' @ api_text e), w)"
| "in_context ctx (Inr x, w) = (Inr x, w)"

fun for_each :: "('a \<Rightarrow> 'w \<Rightarrow> ('e + unit) \<times> 'w) \<Rightarrow> 'a list \<Rightarrow> 'w \<Rightarrow> ('e + unit) \<times> 'w" where
  "for_each f [] w = (Inr (), w)"
| "for_each f (x # xs) w =
     (case f x w of (Inl e, w) \<Rightarrow> (Inl e, w) | (Inr _, w) \<Rightarrow> for_each f xs w)"

text \<open>
  Create the object or, where one of that name exists, update it. The tag says which request
  failed.
\<close>

datatype write_step = Reading | Creating | Updating

definition write_object ::
    "('w, 'o) api \<Rightarrow> string \<Rightarrow> 'o \<Rightarrow> ('o \<Rightarrow> 'o) \<Rightarrow> 'w \<Rightarrow> ((write_step \<times> api_error) + unit) \<times> 'w" where
  "write_object A name new change w =
     (case ap_Get A name w of
        (Inl e, w) \<Rightarrow>
          (if isNotFound e then
             (case ap_Create A new w of
                (Inl e, w) \<Rightarrow> (Inl (Creating, e), w)
              | (Inr _, w) \<Rightarrow> (Inr (), w))
           else (Inl (Reading, e), w))
      | (Inr (version, existing), w) \<Rightarrow>
          (case ap_Update A version (change existing) w of
             (Inl e, w) \<Rightarrow> (Inl (Updating, e), w)
           | (Inr _, w) \<Rightarrow> (Inr (), w)))"

text \<open>The same as the body of a retried function, which returns the error as it came.\<close>

definition write_attempt ::
    "('w, 'o) api \<Rightarrow> string \<Rightarrow> 'o \<Rightarrow> ('o \<Rightarrow> 'o) \<Rightarrow> ('w, unit) api_call" where
  "write_attempt A name new change w =
     (case write_object A name new change w of (Inl (_, e), w) \<Rightarrow> (Inl e, w) | (Inr _, w) \<Rightarrow> (Inr (), w))"

text \<open>
  A step that writes only objects named in \<open>names\<close> and removes none: \<open>view\<close> is what is
  stored of one kind, \<open>rest\<close> of the others.
\<close>

definition touches :: "('w \<Rightarrow> string \<Rightarrow> 'o option) \<Rightarrow> ('w \<Rightarrow> 'r) \<Rightarrow> string set \<Rightarrow> 'w \<Rightarrow> 'w \<Rightarrow> bool" where
  "touches view rest names w w' \<longleftrightarrow> rest w' = rest w \<and> (\<forall>m. m \<notin> names \<longrightarrow> view w' m = view w m) \<and>
     (\<forall>m. view w m \<noteq> None \<longrightarrow> view w' m \<noteq> None)"

lemma touches_refl [simp]: "touches view rest names w w"
  by (simp add: touches_def)

lemma touches_trans: "touches view rest M u v \<Longrightarrow> touches view rest N v w \<Longrightarrow> M \<union> N \<subseteq> L \<Longrightarrow> touches view rest L u w"
  unfolding touches_def by (metis Un_iff subsetD)

lemma for_each_touches:
  assumes "\<And>x v r v'. f x v = (r, v') \<Longrightarrow>
      touches view rest {key x} v v' \<and> (r = Inr () \<longrightarrow> view v' (key x) = Some (val x))"
  shows "for_each f xs w = (r, w') \<Longrightarrow> distinct (map key xs) \<Longrightarrow>
    touches view rest (key ` set xs) w w' \<and> (r = Inr () \<longrightarrow> (\<forall>x\<in>set xs. view w' (key x) = Some (val x)))"
proof (induction xs arbitrary: w)
  case (Cons x xs)
  obtain q w1 where q: "f x w = (q, w1)" by (cases "f x w")
  note step = assms [OF q]
  show ?case
  proof (cases q)
    case (Inl e)
    then have "w' = w1" "r = Inl e" using Cons.prems(1) by (simp_all add: q)
    then show ?thesis using step touches_trans [of view rest "{key x}" w w1 "{}" w1] by auto
  next
    case (Inr u)
    then have IH: "touches view rest (key ` set xs) w1 w'"
      "r = Inr () \<longrightarrow> (\<forall>x\<in>set xs. view w' (key x) = Some (val x))"
      using Cons.IH [of w1] Cons.prems by (simp_all add: q)
    have "view w' (key x) = view w1 (key x)" using IH(1) Cons.prems(2) by (auto simp: touches_def)
    then show ?thesis using IH step Inr touches_trans [OF conjunct1 [OF step] IH(1)] by auto
  qed
qed simp

text \<open>
  Delete the named objects in order, stopping at the first error with what was removed so far;
  \<open>lenient\<close> passes over an object that is gone already.
\<close>

fun delete_loop ::
    "(string \<Rightarrow> ('w, unit) api_call) \<Rightarrow> bool \<Rightarrow> string list \<Rightarrow> string list \<Rightarrow> 'w \<Rightarrow>
     (string list \<times> (string \<times> api_error) option) \<times> 'w" where
  "delete_loop del lenient [] removed w = ((removed, None), w)"
| "delete_loop del lenient (n # ns) removed w =
     (case del n w of
        (Inl e, w) \<Rightarrow>
          (if lenient \<and> isNotFound e then delete_loop del lenient ns removed w
           else ((removed, Some (n, e)), w))
      | (Inr _, w) \<Rightarrow> delete_loop del lenient ns (removed @ [n]) w)"

text \<open>
  Delete the managed objects of one kind that are not kept. An error comes with the object whose
  deletion failed, or nothing if the listing did.
\<close>

definition prune_kind ::
    "('w, 'o) api \<Rightarrow> ('o \<Rightarrow> string) \<Rightarrow> ('o \<Rightarrow> bool) \<Rightarrow> bool \<Rightarrow> 'w \<Rightarrow>
     (string list \<times> (string option \<times> api_error) option) \<times> 'w" where
  "prune_kind A key keep lenient w =
     (case ap_List A ManagedSelector w of
        (Inl e, w) \<Rightarrow> (([], Some (None, e)), w)
      | (Inr xs, w) \<Rightarrow>
          (case delete_loop (ap_Delete A) lenient (map key (filter (\<lambda>x. \<not> keep x) xs)) [] w of
             ((gone, Some (n, e)), w) \<Rightarrow> ((gone, Some (Some n, e)), w)
           | ((gone, None), w) \<Rightarrow> ((gone, None), w)))"

text \<open>What pruning leaves of a store.\<close>

definition pruned :: "('o \<Rightarrow> bool) \<Rightarrow> (string \<Rightarrow> 'o option) \<Rightarrow> string \<Rightarrow> 'o option" where
  "pruned stale view = (\<lambda>n. case view n of None \<Rightarrow> None | Some x \<Rightarrow> if stale x then None else Some x)"

subsection \<open>Retrying on conflict\<close>

text \<open>
  What \<open>retry.RetryOnConflict\<close> is documented to do: it calls the function, returns what it
  returned unless that was a conflict, and after a conflict may pause and call it again or give
  up with the conflict.
\<close>

inductive attempts ::
    "('w \<Rightarrow> 'w \<Rightarrow> bool) \<Rightarrow> ('w, unit) api_call \<Rightarrow> 'w \<Rightarrow> api_error + unit \<Rightarrow> 'w \<Rightarrow> bool"
  for pause fn where
  last: "fn w = (r, w') \<Longrightarrow> attempts pause fn w r w'"
| again: "fn w = (Inl (Conflict s), w1) \<Longrightarrow> pause w1 w2 \<Longrightarrow> attempts pause fn w2 r w' \<Longrightarrow>
     attempts pause fn w r w'"

lemma attempts_invariant:
  assumes "attempts pause fn w r w'" "P w"
    and "\<And>v r v'. P v \<Longrightarrow> fn v = (r, v') \<Longrightarrow> P v'" "\<And>v v'. P v \<Longrightarrow> pause v v' \<Longrightarrow> P v'"
  shows "P w' \<and> (\<exists>v. P v \<and> fn v = (r, w'))"
  using assms(1,2)
proof (induction rule: attempts.induct)
  case (last w r w')
  then show ?case using assms(3) by blast
next
  case (again w s w1 w2 r w')
  then show ?case using assms(3,4) by blast
qed

subsection \<open>The objects of one kind\<close>

text \<open>
  The store of one kind of object as the API server promises it: \<open>view\<close> is what is stored under
  each name, \<open>rest\<close> everything else the program can see. \<open>admit\<close> is what the server keeps
  of a new object and \<open>merge\<close> what it keeps of an update. A request that fails may still have
  taken effect (its answer may be what was lost), but never has another effect.
\<close>

locale object_store =
  fixes A :: "('w, 'o) api" and view :: "'w \<Rightarrow> string \<Rightarrow> 'o option" and rest :: "'w \<Rightarrow> 'r"
    and key :: "'o \<Rightarrow> string" and labels :: "'o \<Rightarrow> (string \<times> string) list"
    and admit :: "'o \<Rightarrow> 'o" and merge :: "'o \<Rightarrow> 'o \<Rightarrow> 'o"
  assumes keyed: "view w n = Some x \<Longrightarrow> key x = n"
    and get: "ap_Get A n w = (g, w') \<Longrightarrow> view w' = view w \<and> rest w' = rest w"
    and get_found: "ap_Get A n w = (Inr (v, x), w') \<Longrightarrow> view w n = Some x"
    and get_missing: "ap_Get A n w = (Inl (NotFound s), w') \<Longrightarrow> view w n = None"
    and create: "ap_Create A x w = (c, w') \<Longrightarrow> rest w' = rest w \<and>
      (view w' = (view w)(key x \<mapsto> admit x) \<or> view w' = view w \<and> (\<exists>e. c = Inl e))"
    and update: "view w (key x) = Some old \<Longrightarrow> ap_Update A v x w = (u, w') \<Longrightarrow> rest w' = rest w \<and>
      (view w' = (view w)(key x \<mapsto> merge old x) \<or> view w' = view w \<and> (\<exists>e. u = Inl e))"
    and delete: "ap_Delete A n w = (d, w') \<Longrightarrow> rest w' = rest w \<and>
      (view w' = (view w)(n := None) \<or> view w' = view w \<and> (\<exists>e. d = Inl e))"
    and delete_missing: "ap_Delete A n w = (Inl (NotFound s), w') \<Longrightarrow> view w n = None"
    and list: "ap_List A sel w = (l, w') \<Longrightarrow> view w' = view w \<and> rest w' = rest w"
    and listed: "ap_List A sel w = (Inr xs, w') \<Longrightarrow> distinct (map key xs) \<and>
      (\<forall>x. x \<in> set xs \<longleftrightarrow> view w (key x) = Some x \<and> selects sel (labels x))"
begin

text \<open>
  Creating or updating writes the named object and nothing else, never removes it, and on
  success has stored the new object or the change of the old one.
\<close>

definition written :: "string \<Rightarrow> 'o \<Rightarrow> ('o \<Rightarrow> 'o) \<Rightarrow> 'w \<Rightarrow> 'w \<Rightarrow> bool" where
  "written n new change w w' \<longleftrightarrow>
     view w' = (view w)(n \<mapsto> (case view w n of None \<Rightarrow> admit new | Some old \<Rightarrow> merge old (change old)))"

lemma write_object_store:
  assumes "write_object A n new change w = (r, w')" "key new = n" "\<And>x. key (change x) = key x \<or> key (change x) = n"
  shows "rest w' = rest w \<and> (written n new change w w' \<or> view w' = view w \<and> (\<exists>e. r = Inl e))"
proof -
  obtain g w1 where g: "ap_Get A n w = (g, w1)" by (cases "ap_Get A n w")
  note same = get [OF g]
  consider s where "g = Inl (NotFound s)" | e where "g = Inl e" "\<not> isNotFound e" | v x where "g = Inr (v, x)"
  proof (cases g)
    case (Inl e)
    then show ?thesis using that by (cases e) auto
  qed (use that in auto)
  then show ?thesis
  proof cases
    case 1
    obtain c w2 where c: "ap_Create A new w1 = (c, w2)" by (cases "ap_Create A new w1")
    have "view w n = None" using get_missing g 1 by blast
    moreover have "w' = w2" "(\<exists>e. c = Inl e) \<longleftrightarrow> (\<exists>e. r = Inl e)"
      using assms(1) by (auto simp: write_object_def g 1 c split: sum.splits)
    ultimately show ?thesis using create [OF c] same by (auto simp: written_def assms(2))
  next
    case 2
    then show ?thesis using assms(1) same by (auto simp: write_object_def g)
  next
    case 3
    obtain u w2 where u: "ap_Update A v (change x) w1 = (u, w2)" by (cases "ap_Update A v (change x) w1")
    have x: "view w n = Some x" using get_found g 3 by blast
    then have k: "key (change x) = n" using assms(3) keyed by metis
    moreover have "w' = w2" "(\<exists>e. u = Inl e) \<longleftrightarrow> (\<exists>e. r = Inl e)"
      using assms(1) by (auto simp: write_object_def g 3 u split: sum.splits)
    ultimately show ?thesis using update [OF _ u, of x] same x by (auto simp: written_def)
  qed
qed

lemma write_attempt_store:
  assumes "write_attempt A n new change w = (r, w')" "key new = n" "\<And>x. key (change x) = key x \<or> key (change x) = n"
  shows "rest w' = rest w \<and> (written n new change w w' \<or> view w' = view w \<and> (\<exists>e. r = Inl e))"
proof -
  obtain q w1 where q: "write_object A n new change w = (q, w1)" by (cases "write_object A n new change w")
  have "w' = w1" "(\<exists>e. q = Inl e) \<longleftrightarrow> (\<exists>e. r = Inl e)"
    using assms(1) by (auto simp: write_attempt_def q split: sum.splits)
  then show ?thesis using write_object_store [OF q assms(2,3)] by blast
qed

text \<open>A loop of deletions touches the named objects only, and removes them all when it succeeds.\<close>

lemma delete_loop_store:
  "delete_loop (ap_Delete A) lenient ns removed w = ((removed', e), w') \<Longrightarrow>
   rest w' = rest w \<and> (\<forall>n. view w' n = view w n \<or> n \<in> set ns \<and> view w' n = None) \<and>
   (e = None \<longrightarrow> view w' = (\<lambda>n. if n \<in> set ns then None else view w n)) \<and>
   (e = None \<and> \<not> lenient \<longrightarrow> removed' = removed @ ns)"
proof (induction ns arbitrary: w removed)
  case (Cons n ns)
  obtain d w1 where d: "ap_Delete A n w = (d, w1)" by (cases "ap_Delete A n w")
  note gone = delete [OF d]
  show ?case
  proof (cases "\<exists>x. d = Inl x \<and> \<not> (lenient \<and> isNotFound x)")
    case True
    then have "w' = w1" "e \<noteq> None" using Cons.prems by (auto simp: d)
    then show ?thesis using gone by (auto split: if_splits)
  next
    case False
    have view: "view w1 = (view w)(n := None)"
    proof (cases d)
      case (Inl x)
      then obtain s where "x = NotFound s" using False by (cases x) auto
      then have "view w n = None" using delete_missing d Inl by blast
      then show ?thesis using gone by auto
    qed (use gone in auto)
    obtain removed1 where "delete_loop (ap_Delete A) lenient ns removed1 w1 = ((removed', e), w')"
      "lenient \<or> removed1 = removed @ [n]"
      using Cons.prems False by (cases d) (auto simp: d split: if_splits)
    note IH = Cons.IH [OF this(1)] and removed = this(2)
    have "view w' m = view w m \<or> m \<in> set (n # ns) \<and> view w' m = None" for m
    proof -
      have "view w' m = view w1 m \<or> m \<in> set ns \<and> view w' m = None" using IH by blast
      then show ?thesis by (cases "m = n") (auto simp: view)
    qed
    moreover have "view w' = (\<lambda>m. if m \<in> set (n # ns) then None else view w m)" if "e = None"
      using IH view that by (auto simp: fun_eq_iff)
    moreover have "removed' = removed @ n # ns" if "e = None" "\<not> lenient"
      using IH removed that by auto
    moreover have "rest w' = rest w" using IH gone by simp
    ultimately show ?thesis by blast
  qed
qed auto

lemma prune_kind_store:
  assumes "prune_kind A key keep lenient w = ((gone, e), w')"
  shows "rest w' = rest w \<and>
     (\<forall>n. view w' n = view w n \<or>
        view w' n = None \<and> (\<exists>x. view w n = Some x \<and> managed (labels x) \<and> \<not> keep x)) \<and>
     (e = None \<longrightarrow> view w' = pruned (\<lambda>x. managed (labels x) \<and> \<not> keep x) (view w)) \<and>
     (e = None \<and> \<not> lenient \<longrightarrow> set gone = {n. view w n \<noteq> None \<and> view w' n = None})"
proof -
  obtain l w1 where l: "ap_List A ManagedSelector w = (l, w1)" by (cases "ap_List A ManagedSelector w")
  note same = list [OF l]
  show ?thesis
  proof (cases l)
    case (Inl err)
    then have "w' = w1" "e \<noteq> None" using assms by (auto simp: prune_kind_def l)
    then show ?thesis using same by auto
  next
    case (Inr xs)
    let ?gone = "map key (filter (\<lambda>x. \<not> keep x) xs)"
    obtain g e2 w2 where d: "delete_loop (ap_Delete A) lenient ?gone [] w1 = ((g, e2), w2)"
      by (metis surj_pair)
    have w': "w' = w2" "e = None \<longrightarrow> e2 = None" "gone = g"
      using assms Inr by (cases e2; auto simp: prune_kind_def l d)+
    have stale: "n \<in> set ?gone \<longleftrightarrow> (\<exists>x. view w n = Some x \<and> managed (labels x) \<and> \<not> keep x)" for n
      using listed [OF l [unfolded Inr]] keyed [of w n] by auto
    have deleted: "rest w2 = rest w" "\<forall>n. view w2 n = view w n \<or> n \<in> set ?gone \<and> view w2 n = None"
      "e2 = None \<longrightarrow> view w2 = (\<lambda>n. if n \<in> set ?gone then None else view w n)"
      "e2 = None \<and> \<not> lenient \<longrightarrow> g = ?gone"
      using delete_loop_store [OF d] same by auto
    have "set gone = {n. view w n \<noteq> None \<and> view w' n = None}" if "e = None" "\<not> lenient"
    proof -
      have "set gone = {n. n \<in> set ?gone}" using deleted(4) w' that by simp
      also have "\<dots> = {n. view w n \<noteq> None \<and> view w' n = None}"
        using deleted(3) w' that unfolding stale by (auto simp: fun_eq_iff split: if_splits)
      finally show ?thesis .
    qed
    then show ?thesis using w' deleted(1-3) unfolding stale by (auto simp: pruned_def fun_eq_iff split: option.split)
  qed
qed

end

end
