(* ===== verification/ClusterApply.thy ===== *)
theory ClusterApply
  imports KubeApi
begin

text \<open>
  internal/cluster/client.go, topology.go and features.go, and \<open>ApplyMIGDeviceClass\<close> of
  workloads.go: making the cluster match a topology file. The errors of an operation are the
  texts it returns. The conversion of a typed object for the dynamic client is not modelled:
  the requests of those kinds take the object itself.
\<close>

subsection \<open>The texts of errors\<close>

fun mig_text :: "mig_error \<Rightarrow> string" where
  "mig_text (MIGNotModelled name known) =
     ''MIG is not modelled for GPU profile '' @ go_quote name @ ''; gpu-sim knows '' @ join '', '' known @
     '', whose profile tables NVIDIA publishes''"
| "mig_text (UnknownMIGProfile name known) =
     ''unknown MIG profile '' @ go_quote name @ ''; this GPU supports '' @ join '', '' known"

fun profile_text :: "profile_error \<Rightarrow> string" where
  "profile_text (ParsingProfile e) = ''parsing GPU profile: '' @ e"
| "profile_text NoDevices = ''GPU profile declares no devices''"
| "profile_text (NegativeIndex i) = ''GPU index '' @ itoa i @ '' is negative''"

fun topo_text :: "topo_error \<Rightarrow> string" where
  "topo_text (BadAPIVersion v) = ''apiVersion is '' @ go_quote v @ '', want '' @ go_quote APIVersion"
| "topo_text (BadKind k) = ''kind is '' @ go_quote k @ '', want '' @ go_quote Kind"
| "topo_text NoMetadataName = ''metadata.name is required: it names the generated scheduler topology object''"
| "topo_text NoNodePools = ''spec.nodePools is empty''"
| "topo_text NoRacks = ''spec.racks is empty''"
| "topo_text (PoolNoProfile n) = ''pool '' @ go_quote n @ '' has no profile''"
| "topo_text (PoolGPUCount n c) = ''pool '' @ go_quote n @ '' has gpuCount '' @ itoa c @ '', want at least 1''"
| "topo_text (PoolMIG n e) = ''pool '' @ go_quote n @ '': '' @ mig_text e"
| "topo_text (PoolNoNVLink n) =
     ''pool '' @ go_quote n @ '' has no nvlink setting, want '' @ go_quote NVLinkFullMesh @ '' or '' @ go_quote NVLinkNone"
| "topo_text (PoolBadNVLink n v) =
     ''pool '' @ go_quote n @ '' has nvlink '' @ go_quote v @ '', want '' @ go_quote NVLinkFullMesh @ '' or '' @ go_quote NVLinkNone"
| "topo_text RackNoName = ''a rack has no name''"
| "topo_text (RackDuplicate n) = ''rack '' @ go_quote n @ '' is declared more than once''"
| "topo_text (RackNoFaultDomain n) = ''rack '' @ go_quote n @ '' has no faultDomain''"
| "topo_text (RackNoNodes n) = ''rack '' @ go_quote n @ '' has no nodes''"
| "topo_text (NodeNoName n) = ''rack '' @ go_quote n @ '' has a node with no name''"
| "topo_text (NodeDuplicate n r s) =
     ''node '' @ go_quote n @ '' is declared in both rack '' @ go_quote r @ '' and rack '' @ go_quote s"
| "topo_text (NodeUndefinedPool n p) = ''node '' @ go_quote n @ '' references undefined pool '' @ go_quote p"
| "topo_text (NVLinkDomainWithoutNVLink r d n p) =
     ''rack '' @ go_quote r @ '' declares nvlinkDomain '' @ go_quote d @ '' but node '' @ go_quote n @
     '' uses pool '' @ go_quote p @ '', which has nvlink: none''"

fun topo_load_text :: "string \<Rightarrow> topo_load_error \<Rightarrow> string" where
  "topo_load_text path (ReadingTopology e) = ''reading topology: '' @ e"
| "topo_load_text path (ParsingTopology e) = ''parsing topology '' @ path @ '': '' @ e"
| "topo_load_text path (InvalidTopology es) =
     ''invalid topology '' @ path @ '': '' @ join [CHR 0x0A] (map topo_text es)"

fun resolve_text :: "resolve_error \<Rightarrow> string" where
  "resolve_text (LoadingProfile name e) = ''loading profile '' @ go_quote name @ '': '' @ e"
| "resolve_text (NodeMIG node e) = ''node '' @ node @ '': '' @ mig_text e"
| "resolve_text (NodeGPU node i e) = ''node '' @ node @ '' GPU '' @ itoa i @ '': '' @ profile_text e"

subsection \<open>GPU profiles\<close>

definition profileConfigMapPrefix :: string where "profileConfigMapPrefix = ''gpu-profile-''"
definition profileKey :: string where "profileKey = ''profile.yaml''"

text \<open>\<open>namespace\<close> is the client's own, where the profiles live; \<open>w\<close> the world they are read from.\<close>

definition LoadProfile :: "'w kube \<Rightarrow> string \<Rightarrow> 'w \<Rightarrow> profile_loader" where
  "LoadProfile K namespace w name =
     (case ku_ConfigMap K namespace (profileConfigMapPrefix @ name) w of
        Inl e \<Rightarrow>
          (if isNotFound e then
             Inl (''no GPU profile '' @ go_quote name @ '' in namespace '' @ namespace @
               '': fake-gpu-operator must be installed with builtinProfiles enabled'')
           else Inl (api_text e))
      | Inr cm \<Rightarrow>
          (case map_get (cm_Data cm) profileKey of
             None \<Rightarrow> Inl (''ConfigMap '' @ cm_Name cm @ '' has no '' @ profileKey @ '' key'')
           | Some data \<Rightarrow>
               (case Parse (ku_ProfileYAML K) data of Inl e \<Rightarrow> Inl (profile_text e) | Inr p \<Rightarrow> Inr p)))"

subsection \<open>Nodes and slices\<close>

text \<open>What the two writes of \<open>ApplyNode\<close> change in an existing node: its description, and its status.\<close>

definition describe_as :: "kube_node \<Rightarrow> kube_node \<Rightarrow> kube_node" where
  "describe_as node existing =
     existing\<lparr>kn_Labels := kn_Labels node, kn_Annotations := kn_Annotations node, kn_Taints := kn_Taints node\<rparr>"

definition status_as :: "kube_node \<Rightarrow> kube_node \<Rightarrow> kube_node" where
  "status_as node existing =
     existing\<lparr>kn_Capacity := kn_Capacity node, kn_Allocatable := kn_Allocatable node, kn_NodeInfo := kn_NodeInfo node\<rparr>"

definition status_attempt :: "'w kube \<Rightarrow> kube_node \<Rightarrow> ('w, unit) api_call" where
  "status_attempt K node w =
     (case ap_Get (ku_Nodes K) (kn_Name node) w of
        (Inl e, w) \<Rightarrow> (Inl e, w)
      | (Inr (version, existing), w) \<Rightarrow> ap_UpdateStatus (ku_Nodes K) version (status_as node existing) w)"

definition ApplyNode :: "'w kube \<Rightarrow> kube_node \<Rightarrow> 'w \<Rightarrow> (string + unit) \<times> 'w" where
  "ApplyNode K node w =
     (case in_context (''applying node '' @ kn_Name node)
             (ku_Retry K (write_attempt (ku_Nodes K) (kn_Name node) node (describe_as node)) w) of
        (Inl e, w) \<Rightarrow> (Inl e, w)
      | (Inr _, w) \<Rightarrow>
          in_context (''setting status of node '' @ kn_Name node) (ku_Retry K (status_attempt K node) w))"

definition spec_as :: "resource_slice \<Rightarrow> resource_slice \<Rightarrow> resource_slice" where
  "spec_as rs existing = existing\<lparr>sl_Spec := sl_Spec rs, sl_Labels := sl_Labels rs\<rparr>"

definition ApplyResourceSlice :: "'w kube \<Rightarrow> resource_slice \<Rightarrow> 'w \<Rightarrow> (string + unit) \<times> 'w" where
  "ApplyResourceSlice K rs w =
     in_context (''applying ResourceSlice '' @ sl_Name rs)
       (ku_Retry K (write_attempt (ku_Slices K) (sl_Name rs) rs (spec_as rs)) w)"

text \<open>
  \<open>Prune\<close> returns what it removed so far beside the error. The keep maps are Go maps to \<open>bool\<close>.
\<close>

definition keeps :: "(string \<times> bool) list \<Rightarrow> string \<Rightarrow> bool" where
  "keeps m name \<longleftrightarrow> map_get m name = Some True"

definition keep_slice :: "(string \<times> bool) list \<Rightarrow> (string \<times> bool) list \<Rightarrow> resource_slice \<Rightarrow> bool" where
  "keep_slice keepNodes keepSlices s \<longleftrightarrow>
     keeps keepSlices (sl_Name s) \<or>
     keepSlices = [] \<and> (case ss_NodeName (sl_Spec s) of None \<Rightarrow> False | Some n \<Rightarrow> keeps keepNodes n)"

definition Prune ::
    "'w kube \<Rightarrow> (string \<times> bool) list \<Rightarrow> (string \<times> bool) list \<Rightarrow> 'w \<Rightarrow> (string list \<times> string option) \<times> 'w" where
  "Prune K keepNodes keepSlices w =
     (case prune_kind (ku_Slices K) sl_Name (keep_slice keepNodes keepSlices) False w of
        ((gone, Some (None, e)), w) \<Rightarrow> (([], Some (''listing managed ResourceSlices: '' @ api_text e)), w)
      | ((gone, Some (Some n, e)), w) \<Rightarrow>
          ((map (\<lambda>n. ''resourceslice/'' @ n) gone, Some (''deleting ResourceSlice '' @ n @ '': '' @ api_text e)), w)
      | ((gone, None), w) \<Rightarrow>
          (let removed = map (\<lambda>n. ''resourceslice/'' @ n) gone
           in case prune_kind (ku_Nodes K) kn_Name (\<lambda>n. keeps keepNodes (kn_Name n)) False w of
                ((gone, Some (None, e)), w) \<Rightarrow> ((removed, Some (''listing managed nodes: '' @ api_text e)), w)
              | ((gone, Some (Some n, e)), w) \<Rightarrow>
                  ((removed @ map (\<lambda>n. ''node/'' @ n) gone, Some (''deleting node '' @ n @ '': '' @ api_text e)), w)
              | ((gone, None), w) \<Rightarrow> ((removed @ map (\<lambda>n. ''node/'' @ n) gone, None), w)))"

subsection \<open>What the schedulers read\<close>

definition ApplyKAITopology :: "'w kube \<Rightarrow> kai_topology \<Rightarrow> 'w \<Rightarrow> (string + unit) \<times> 'w" where
  "ApplyKAITopology K topo w =
     (case write_object (ku_Topologies K) (kt_Name topo) topo (\<lambda>_. topo) w of
        (Inl (Creating, e), w) \<Rightarrow> (Inl (''creating Topology '' @ kt_Name topo @ '': '' @ api_text e), w)
      | (Inl (Reading, e), w) \<Rightarrow>
          (Inl (''reading Topology '' @ kt_Name topo @ '' (is KAI Scheduler installed?): '' @ api_text e), w)
      | (Inl (Updating, e), w) \<Rightarrow> (Inl (''updating Topology '' @ kt_Name topo @ '': '' @ api_text e), w)
      | (Inr _, w) \<Rightarrow> (Inr (), w))"

definition ApplyMIGDeviceClass :: "'w kube \<Rightarrow> 'w \<Rightarrow> (string + unit) \<times> 'w" where
  "ApplyMIGDeviceClass K w =
     (case write_object (ku_DeviceClasses K) MIGDeviceClassName MIGDeviceClass (\<lambda>_. MIGDeviceClass) w of
        (Inl (Creating, e), w) \<Rightarrow> (Inl (''creating MIG DeviceClass: '' @ api_text e), w)
      | (Inl (Reading, e), w) \<Rightarrow> (Inl (''reading MIG DeviceClass: '' @ api_text e), w)
      | (Inl (Updating, e), w) \<Rightarrow> (Inl (''updating MIG DeviceClass: '' @ api_text e), w)
      | (Inr _, w) \<Rightarrow> (Inr (), w))"

fun isNoMatch :: "api_error \<Rightarrow> bool" where
  "isNoMatch (NoMatch _) \<longleftrightarrow> True"
| "isNoMatch _ \<longleftrightarrow> False"

text \<open>
  Writing Volcano's tree: \<open>Inr False\<close> is the early return where Volcano is not installed,
  \<open>Inr True\<close> the end of the loop.
\<close>

fun hyper_loop :: "'w kube \<Rightarrow> hyper_node list \<Rightarrow> 'w \<Rightarrow> (string + bool) \<times> 'w" where
  "hyper_loop K [] w = (Inr True, w)"
| "hyper_loop K (hn # hns) w =
     (case write_object (ku_HyperNodes K) (hn_Name hn) hn (\<lambda>_. hn) w of
        (Inl (Creating, e), w) \<Rightarrow> (Inl (''creating HyperNode '' @ hn_Name hn @ '': '' @ api_text e), w)
      | (Inl (Reading, e), w) \<Rightarrow>
          (if isNoMatch e then (Inr False, w)
           else (Inl (''reading HyperNode '' @ hn_Name hn @ '': '' @ api_text e), w))
      | (Inl (Updating, e), w) \<Rightarrow> (Inl (''updating HyperNode '' @ hn_Name hn @ '': '' @ api_text e), w)
      | (Inr _, w) \<Rightarrow> hyper_loop K hns w)"

definition applyHyperNodes :: "'w kube \<Rightarrow> resolved \<Rightarrow> 'w \<Rightarrow> (string + unit) \<times> 'w" where
  "applyHyperNodes K r w =
     (let nodes = VolcanoHyperNodes r
      in case hyper_loop K nodes w of
           (Inl e, w) \<Rightarrow> (Inl e, w)
         | (Inr False, w) \<Rightarrow> (Inr (), w)
         | (Inr True, w) \<Rightarrow>
             (case prune_kind (ku_HyperNodes K) hn_Name (\<lambda>hn. hn_Name hn \<in> hn_Name ` set nodes) True w of
                ((_, Some (None, e)), w) \<Rightarrow>
                  (if isNoMatch e then (Inr (), w)
                   else (Inl (''listing managed HyperNodes: '' @ api_text e), w))
              | ((_, Some (Some n, e)), w) \<Rightarrow> (Inl (''deleting HyperNode '' @ n @ '': '' @ api_text e), w)
              | ((_, None), w) \<Rightarrow> (Inr (), w)))"

subsection \<open>Applying a topology\<close>

definition partitionable_probe :: "string \<Rightarrow> resource_slice" where
  "partitionable_probe nodeName =
     \<lparr>sl_Name = ''gpu-sim-partitionable-probe'', sl_Labels = [],
      sl_Spec = \<lparr>ss_Driver = ''gpu-sim.io-probe'', ss_NodeName = Some nodeName, ss_PoolName = ''gpu-sim-probe'',
        ss_PoolGeneration = 0, ss_PoolSliceCount = 1,
        ss_SharedCounters = [\<lparr>cs_Name = ''probe'', cs_Counters = [(''probe'', 1)]\<rparr>], ss_Devices = []\<rparr>\<rparr>"

definition CheckPartitionableDevices :: "'w kube \<Rightarrow> string \<Rightarrow> 'w \<Rightarrow> (string + unit) \<times> 'w" where
  "CheckPartitionableDevices K nodeName w =
     (case ku_DryRunSlice K (partitionable_probe nodeName) w of
        (Inl e, w) \<Rightarrow> (Inl (''checking for partitionable device support: '' @ api_text e), w)
      | (Inr created, w) \<Rightarrow>
          (if ss_SharedCounters (sl_Spec created) = [] then
             (Inl (''this cluster drops ResourceSlice shared counters, so the DRAPartitionableDevices '' @
                ''feature gate is disabled; MIG cannot be simulated without it, because every '' @
                ''partition would look independently allocatable and the cluster would appear to '' @
                ''hold several whole GPUs where it has one''), w)
           else (Inr (), w)))"

definition resolvedHasMIG :: "resolved \<Rightarrow> bool" where
  "resolvedHasMIG r \<longleftrightarrow> (\<exists>node\<in>set (rs_Nodes r). rn_MIG node \<noteq> None)"

definition keep_all :: "string list \<Rightarrow> (string \<times> bool) list" where
  "keep_all names = fold (\<lambda>n. map_put n True) names []"

fun in_text :: "string \<Rightarrow> (string + 'a) \<times> 'w \<Rightarrow> (string + 'a) \<times> 'w" where
  "in_text ctx (Inl e, w) = (Inl (ctx @ '': '' @ e), w)"
| "in_text ctx (Inr x, w) = (Inr x, w)"

text \<open>The steps before pruning, which create and update only: from the slices on, and all of them.\<close>

definition publish_slices :: "'w kube \<Rightarrow> resolved \<Rightarrow> resource_slice list \<Rightarrow> 'w \<Rightarrow> (string + unit) \<times> 'w" where
  "publish_slices K r ss w =
     (case for_each (ApplyResourceSlice K) ss w of
        (Inl e, w) \<Rightarrow> (Inl e, w)
      | (Inr _, w) \<Rightarrow>
      (case (if resolvedHasMIG r then ApplyMIGDeviceClass K w else (Inr (), w)) of
        (Inl e, w) \<Rightarrow> (Inl e, w)
      | (Inr _, w) \<Rightarrow>
      (case in_text ''applying scheduler topology'' (ApplyKAITopology K (KAITopologyFor r) w) of
        (Inl e, w) \<Rightarrow> (Inl e, w)
      | (Inr _, w) \<Rightarrow> in_text ''applying Volcano topology'' (applyHyperNodes K r w))))"

definition publish :: "'w kube \<Rightarrow> resolved \<Rightarrow> ('w, resource_slice list) call" where
  "publish K r w =
     (case for_each (ApplyNode K) (Nodes r) w of
        (Inl e, w) \<Rightarrow> Some (Inl e, w)
      | (Inr _, w) \<Rightarrow> do {
          (checked, w) \<leftarrow>
            (if resolvedHasMIG r
             then (case Nodes r of [] \<Rightarrow> None | n # _ \<Rightarrow> Some (CheckPartitionableDevices K (kn_Name n) w))
             else Some (Inr (), w));
          case checked of
            Inl e \<Rightarrow> Some (Inl e, w)
          | Inr _ \<Rightarrow> do {
              ss \<leftarrow> ResourceSlices r;
              Some (case publish_slices K r ss w of (Inl e, w) \<Rightarrow> (Inl e, w) | (Inr _, w) \<Rightarrow> (Inr ss, w)) } })"

definition ApplyTopology :: "'w kube \<Rightarrow> string \<Rightarrow> string \<Rightarrow> ('w, topology_result) call" where
  "ApplyTopology K namespace path w =
     (case Load (ku_ReadFile K) (ku_TopologyYAML K) path of
        Inl e \<Rightarrow> Some (Inl (topo_load_text path e), w)
      | Inr ct \<Rightarrow> do {
          resolved \<leftarrow> Resolve (ku_UUID K) (LoadProfile K namespace w) ct;
          case resolved of
            Inl e \<Rightarrow> Some (Inl (resolve_text e), w)
          | Inr r \<Rightarrow> do {
              (published, w) \<leftarrow> publish K r w;
              Some (case published of
                  Inl e \<Rightarrow> (Inl e, w)
                | Inr slices \<Rightarrow>
                    (case Prune K (keep_all (map kn_Name (Nodes r))) (keep_all (map sl_Name slices)) w of
                       ((_, Some e), w) \<Rightarrow> (Inl e, w)
                     | ((removed, None), w) \<Rightarrow>
                         (Inr \<lparr>tr_Name = rs_Name r, tr_Nodes = int (length (Nodes r)), tr_Slices = int (length slices),
                            tr_Devices = sum_list (map (\<lambda>s. int (length (ss_Devices (sl_Spec s)))) slices),
                            tr_Removed = removed\<rparr>, w))) } })"

text \<open>The steps of a publication that went through.\<close>

lemma publish_steps:
  assumes "publish K r w = Some (Inr ss, w')"
  obtains w1 w2 ss' w3 w4 w5 where
    "for_each (ApplyNode K) (Nodes r) w = (Inr (), w1)"
    "(if resolvedHasMIG r
        then (case Nodes r of [] \<Rightarrow> None | n # _ \<Rightarrow> Some (CheckPartitionableDevices K (kn_Name n) w1))
        else Some (Inr (), w1)) = Some (Inr (), w2)"
    "ResourceSlices r = Some ss'" "for_each (ApplyResourceSlice K) ss' w2 = (Inr (), w3)"
    "(if resolvedHasMIG r then ApplyMIGDeviceClass K w3 else (Inr (), w3)) = (Inr (), w4)"
    "ApplyKAITopology K (KAITopologyFor r) w4 = (Inr (), w5)" "applyHyperNodes K r w5 = (Inr (), w')"
proof -
  obtain w1 where 1: "for_each (ApplyNode K) (Nodes r) w = (Inr (), w1)"
    using assms(1) by (auto simp: publish_def split: prod.splits sum.splits)
  obtain w2 where 2: "(if resolvedHasMIG r
        then (case Nodes r of [] \<Rightarrow> None | n # _ \<Rightarrow> Some (CheckPartitionableDevices K (kn_Name n) w1))
        else Some (Inr (), w1)) = Some (Inr (), w2)"
    using assms(1) by (auto simp: publish_def 1 split: bind_splits sum.splits)
  obtain ss' where ss': "ResourceSlices r = Some ss'" using ResourceSlices_eq by blast
  have "publish_slices K r ss' w2 = (Inr (), w')"
    using assms(1) by (auto simp: publish_def 1 2 ss' split: prod.splits sum.splits)
  then obtain w3 w4 w5 where
    3: "for_each (ApplyResourceSlice K) ss' w2 = (Inr (), w3)" and
    4: "(if resolvedHasMIG r then ApplyMIGDeviceClass K w3 else (Inr (), w3)) = (Inr (), w4)" and
    5: "ApplyKAITopology K (KAITopologyFor r) w4 = (Inr (), w5)" and 6: "applyHyperNodes K r w5 = (Inr (), w')"
    by (cases "ApplyKAITopology K (KAITopologyFor r) (snd (if resolvedHasMIG r then ApplyMIGDeviceClass K
          (snd (for_each (ApplyResourceSlice K) ss' w2)) else (Inr (), snd (for_each (ApplyResourceSlice K) ss' w2))))")
      (auto simp: publish_slices_def split: prod.splits sum.splits if_splits elim!: in_text.elims)
  show ?thesis by (rule that [OF 1 2 ss' 3 4 5 6])
qed

lemma publish_wrote_hypers:
  assumes "publish K r w = Some (Inr ss, w')"
  obtains v where "applyHyperNodes K r v = (Inr (), w')"
  using publish_steps [OF assms] by metis

subsection \<open>What the API server promises\<close>

text \<open>
  The description of a node and its status are written by different requests: creating or
  updating a node leaves its status alone. A cluster whose \<open>DRAPartitionableDevices\<close> gate is
  off drops a slice's counters without an error.
\<close>

definition no_node_info :: node_info where
  "no_node_info = \<lparr>ni_Architecture = [], ni_OperatingSystem = [], ni_KubeletVersion = [], ni_OSImage = [],
     ni_KernelVersion = []\<rparr>"

definition without_status :: "kube_node \<Rightarrow> kube_node" where
  "without_status node = node\<lparr>kn_Capacity := [], kn_Allocatable := [], kn_NodeInfo := no_node_info\<rparr>"

definition gated :: "bool \<Rightarrow> resource_slice \<Rightarrow> resource_slice" where
  "gated gate s =
     (if gate then s
      else s\<lparr>sl_Spec := (sl_Spec s)\<lparr>ss_SharedCounters := [],
             ss_Devices := map (\<lambda>d. d\<lparr>sd_ConsumesCounters := []\<rparr>) (ss_Devices (sl_Spec s))\<rparr>\<rparr>)"

lemma gated_name [simp]: "sl_Name (gated gate s) = sl_Name s" "sl_Labels (gated gate s) = sl_Labels s"
  by (simp_all add: gated_def)

lemma describe_as_name [simp]: "kn_Name (describe_as x old) = kn_Name old" "kn_Name (status_as x old) = kn_Name old"
  by (simp_all add: describe_as_def status_as_def)

lemma described [simp]:
  "describe_as x (describe_as x old) = describe_as x old" "describe_as x (without_status x) = without_status x"
  "describe_as (describe_as x y) z = describe_as x z" "status_as (status_as x y) z = status_as x z"
  "describe_as x (status_as x y) = status_as x (describe_as x y)"
  by (simp_all add: describe_as_def status_as_def without_status_def)

text \<open>The names \<open>Prune\<close> reports, of the slices and nodes that are gone from one state to another.\<close>

definition disappeared ::
    "('w \<Rightarrow> string \<Rightarrow> 'a option) \<Rightarrow> ('w \<Rightarrow> string \<Rightarrow> 'b option) \<Rightarrow> 'w \<Rightarrow> 'w \<Rightarrow> string set" where
  "disappeared slices nodes w w' =
     {''resourceslice/'' @ n |n. slices w n \<noteq> None \<and> slices w' n = None} \<union>
     {''node/'' @ n |n. nodes w n \<noteq> None \<and> nodes w' n = None}"

text \<open>
  The abstract specification: what a store of one kind is after a topology has been applied.
  The generated objects are in it as generated, every other managed object is gone, and the
  rest is as it was.
\<close>

definition matched ::
    "('o \<Rightarrow> string) \<Rightarrow> ('o \<Rightarrow> (string \<times> string) list) \<Rightarrow> 'o list \<Rightarrow> (string \<Rightarrow> 'o option) \<Rightarrow> string \<Rightarrow> 'o option" where
  "matched key labels xs view n =
     (case find (\<lambda>x. key x = n) xs of Some x \<Rightarrow> Some x | None \<Rightarrow> pruned (\<lambda>x. managed (labels x)) view n)"

lemma matched_eq:
  assumes "distinct (map key xs)" "\<forall>x\<in>set xs. mid (key x) = Some x"
    and "\<forall>n. n \<notin> key ` set xs \<longrightarrow> mid n = view n" "\<And>n x. mid n = Some x \<Longrightarrow> key x = n"
    and "\<And>x. kept x \<longleftrightarrow> key x \<in> key ` set xs"
  shows "pruned (\<lambda>x. managed (labels x) \<and> \<not> kept x) mid = matched key labels xs view"
proof
  fix n
  show "pruned (\<lambda>x. managed (labels x) \<and> \<not> kept x) mid n = matched key labels xs view n"
  proof (cases "n \<in> key ` set xs")
    case True
    then obtain x where x: "x \<in> set xs" "key x = n" by blast
    then have "find (\<lambda>y. key y = n) xs = Some x"
      using assms(1) by (induction xs) (auto simp: image_iff)
    then show ?thesis using assms(2,5) x by (auto simp: matched_def pruned_def)
  next
    case False
    then have "find (\<lambda>y. key y = n) xs = None" by (auto simp: find_None_iff)
    moreover have "mid n = view n" using assms(3) False by blast
    moreover have "\<not> kept x" if "mid n = Some x" for x using assms(4) [OF that] assms(5) [of x] False by simp
    ultimately show ?thesis by (cases "view n") (simp_all add: matched_def pruned_def)
  qed
qed

text \<open>
  Whether the API server knows the kind \<open>HyperNode\<close>, as \<open>meta.IsNoMatchError\<close> tells it.
\<close>

definition volcano_installed :: "'w kube \<Rightarrow> bool" where
  "volcano_installed K \<longleftrightarrow>
     (\<forall>n w e w'. ap_Get (ku_HyperNodes K) n w = (Inl e, w') \<longrightarrow> \<not> isNoMatch e) \<and>
     (\<forall>sel w e w'. ap_List (ku_HyperNodes K) sel w = (Inl e, w') \<longrightarrow> \<not> isNoMatch e)"

locale kube_store =
  nodes: object_store "ku_Nodes K" nodes "\<lambda>w. (slices w, hypers w)" kn_Name kn_Labels without_status "\<lambda>old x. describe_as x old" +
  slices: object_store "ku_Slices K" slices "\<lambda>w. (nodes w, hypers w)" sl_Name sl_Labels "gated gate" "\<lambda>_. gated gate" +
  hypers: object_store "ku_HyperNodes K" hypers "\<lambda>w. (nodes w, slices w)" hn_Name hn_Labels "\<lambda>x. x" "\<lambda>_ x. x"
  for K :: "'w kube" and nodes :: "'w \<Rightarrow> string \<Rightarrow> kube_node option"
    and slices :: "'w \<Rightarrow> string \<Rightarrow> resource_slice option" and hypers :: "'w \<Rightarrow> string \<Rightarrow> hyper_node option"
    and gate :: bool and pause :: "'w \<Rightarrow> 'w \<Rightarrow> bool" +
  assumes status: "nodes w (kn_Name x) = Some old \<Longrightarrow> ap_UpdateStatus (ku_Nodes K) v x w = (u, w') \<Longrightarrow>
      slices w' = slices w \<and> hypers w' = hypers w \<and>
      (nodes w' = (nodes w)(kn_Name x \<mapsto> status_as x old) \<or> nodes w' = nodes w \<and> (\<exists>e. u = Inl e))"
    and dry_run: "ku_DryRunSlice K s w = (p, w') \<Longrightarrow>
      (nodes w', slices w', hypers w') = (nodes w, slices w, hypers w) \<and> (\<forall>x. p = Inr x \<longrightarrow> x = gated gate s)"
    and retrying: "ku_Retry K fn w = (u, w') \<Longrightarrow> attempts pause fn w u w'"
    and pausing: "pause w w' \<Longrightarrow> (nodes w', slices w', hypers w') = (nodes w, slices w, hypers w)"
    and topology_requests: "ap_Get (ku_Topologies K) n w = (g, w') \<Longrightarrow>
        (nodes w', slices w', hypers w') = (nodes w, slices w, hypers w)"
      "ap_Create (ku_Topologies K) topo w = (c, w') \<Longrightarrow>
        (nodes w', slices w', hypers w') = (nodes w, slices w, hypers w)"
      "ap_Update (ku_Topologies K) v topo w = (u, w') \<Longrightarrow>
        (nodes w', slices w', hypers w') = (nodes w, slices w, hypers w)"
    and class_requests: "ap_Get (ku_DeviceClasses K) n w = (h, w') \<Longrightarrow>
        (nodes w', slices w', hypers w') = (nodes w, slices w, hypers w)"
      "ap_Create (ku_DeviceClasses K) class w = (d, w') \<Longrightarrow>
        (nodes w', slices w', hypers w') = (nodes w, slices w, hypers w)"
      "ap_Update (ku_DeviceClasses K) v class w = (u, w') \<Longrightarrow>
        (nodes w', slices w', hypers w') = (nodes w, slices w, hypers w)"
begin

text \<open>The two writes of a node, each retried, put the whole node in place and touch nothing else.\<close>

abbreviation only_node :: "string \<Rightarrow> 'w \<Rightarrow> 'w \<Rightarrow> bool" where
  "only_node n \<equiv> touches nodes (\<lambda>w. (slices w, hypers w)) {n}"

lemma node_described:
  assumes "ku_Retry K (write_attempt (ku_Nodes K) (kn_Name x) x (describe_as x)) w = (r, w')"
  shows "only_node (kn_Name x) w w' \<and>
     (r = Inr () \<longrightarrow> (\<exists>y. nodes w' (kn_Name x) = Some y \<and> describe_as x y = y))"
proof -
  let ?fn = "write_attempt (ku_Nodes K) (kn_Name x) x (describe_as x)"
  have step: "slices v' = slices v \<and> hypers v' = hypers v \<and>
      (nodes.written (kn_Name x) x (describe_as x) v v' \<or> nodes v' = nodes v \<and> (\<exists>e. r = Inl e))"
    if "?fn v = (r, v')" for v r v'
    using nodes.write_attempt_store [OF that] by simp
  have "only_node (kn_Name x) w w' \<and> (\<exists>v. only_node (kn_Name x) w v \<and> ?fn v = (r, w'))"
  proof (rule attempts_invariant [OF retrying [OF assms]])
    show "only_node (kn_Name x) w w" by simp
    show "only_node (kn_Name x) w v'" if "only_node (kn_Name x) w v" "?fn v = (r, v')" for v r v'
      using step [OF that(2)] that(1) by (auto simp: touches_def nodes.written_def split: option.splits)
    show "only_node (kn_Name x) w v'" if "only_node (kn_Name x) w v" "pause v v'" for v v'
      using pausing [OF that(2)] that(1) by (simp add: touches_def)
  qed
  then obtain v where "only_node (kn_Name x) w w'" "?fn v = (r, w')" by blast
  moreover have "\<exists>y. nodes w' (kn_Name x) = Some y \<and> describe_as x y = y" if "r = Inr ()"
    using step [OF \<open>?fn v = (r, w')\<close>] that
    by (auto simp: nodes.written_def split: option.splits)
  ultimately show ?thesis by blast
qed

lemma node_status_set:
  assumes "ku_Retry K (status_attempt K x) w = (r, w')" "nodes w (kn_Name x) = Some y" "describe_as x y = y"
  shows "only_node (kn_Name x) w w' \<and> (r = Inr () \<longrightarrow> nodes w' (kn_Name x) = Some x)"
proof -
  let ?P = "\<lambda>v. only_node (kn_Name x) w v \<and> (\<exists>y. nodes v (kn_Name x) = Some y \<and> describe_as x y = y)"
  have step: "slices v' = slices v \<and> hypers v' = hypers v \<and>
      (nodes v' = (nodes v)(kn_Name x \<mapsto> status_as x y) \<or> nodes v' = nodes v \<and> (\<exists>e. r = Inl e))"
    if run: "status_attempt K x v = (r, v')" and y: "nodes v (kn_Name x) = Some y" for v r v' y
  proof -
    obtain g v1 where g: "ap_Get (ku_Nodes K) (kn_Name x) v = (g, v1)" by (cases "ap_Get (ku_Nodes K) (kn_Name x) v")
    note same = nodes.get [OF g]
    show ?thesis
    proof (cases g)
      case (Inl e)
      then show ?thesis using run same by (auto simp: status_attempt_def g)
    next
      case (Inr found)
      obtain version z where found: "found = (version, z)" by (cases found)
      then have "z = y" using nodes.get_found g Inr y by fastforce
      then have name: "kn_Name (status_as x z) = kn_Name x" and old: "nodes v1 (kn_Name x) = Some z"
        using nodes.keyed [OF y] same y by auto
      have "ap_UpdateStatus (ku_Nodes K) version (status_as x z) v1 = (r, v')"
        using run by (simp add: status_attempt_def g Inr found)
      from status [OF _ this, of z] show ?thesis using name old same \<open>z = y\<close> by simp
    qed
  qed
  have "?P w' \<and> (\<exists>v. ?P v \<and> status_attempt K x v = (r, w'))"
  proof (rule attempts_invariant [OF retrying [OF assms(1)]])
    show "?P w" using assms(2,3) by simp
    show "?P v'" if P: "?P v" and run: "status_attempt K x v = (r, v')" for v r v'
    proof -
      obtain y where y: "nodes v (kn_Name x) = Some y" "describe_as x y = y" using P by blast
      then show ?thesis using step [OF run y(1)] P y by (auto simp: touches_def)
    qed
    show "?P v'" if "?P v" "pause v v'" for v v'
      using pausing [OF that(2)] that(1) by (simp add: touches_def)
  qed
  then obtain v y where v: "only_node (kn_Name x) w w'" "status_attempt K x v = (r, w')"
    "nodes v (kn_Name x) = Some y" "describe_as x y = y" by blast
  have "status_as x (describe_as x y) = x" if "kn_Name y = kn_Name x"
    using that by (cases x; cases y) (simp add: describe_as_def status_as_def)
  then have "status_as x y = x" using v(4) nodes.keyed [OF v(3)] by simp
  then show ?thesis using step [OF v(2,3)] v(1) by auto
qed

lemma only_node_trans: "only_node n u v \<Longrightarrow> only_node n v w \<Longrightarrow> only_node n u w"
  by (erule (1) touches_trans) simp

lemma ApplyNode_store:
  assumes "ApplyNode K x w = (r, w')"
  shows "only_node (kn_Name x) w w' \<and> (r = Inr () \<longrightarrow> nodes w' (kn_Name x) = Some x)"
proof -
  obtain q w1 where q: "ku_Retry K (write_attempt (ku_Nodes K) (kn_Name x) x (describe_as x)) w = (q, w1)"
    by (cases "ku_Retry K (write_attempt (ku_Nodes K) (kn_Name x) x (describe_as x)) w")
  note first = node_described [OF q]
  show ?thesis
  proof (cases q)
    case (Inl e)
    then show ?thesis using assms first by (auto simp: ApplyNode_def q)
  next
    case (Inr u)
    then obtain y where y: "nodes w1 (kn_Name x) = Some y" "describe_as x y = y" using first by auto
    obtain p w2 where p: "ku_Retry K (status_attempt K x) w1 = (p, w2)" by (cases "ku_Retry K (status_attempt K x) w1")
    then have "w' = w2" "r = Inr () \<longrightarrow> p = Inr ()"
      using assms Inr by (cases p; auto simp: ApplyNode_def q)+
    then show ?thesis using first node_status_set [OF p y] only_node_trans by blast
  qed
qed

lemma ApplyResourceSlice_store:
  assumes "ApplyResourceSlice K s w = (r, w')"
  shows "touches slices (\<lambda>w. (nodes w, hypers w)) {sl_Name s} w w' \<and>
     (r = Inr () \<longrightarrow> slices w' (sl_Name s) = Some (gated gate s))"
proof -
  let ?fn = "write_attempt (ku_Slices K) (sl_Name s) s (spec_as s)"
  let ?T = "touches slices (\<lambda>w. (nodes w, hypers w)) {sl_Name s}"
  obtain q w1 where q: "ku_Retry K ?fn w = (q, w1)" by (cases "ku_Retry K ?fn w")
  have r: "w' = w1" "r = Inr () \<longrightarrow> q = Inr ()" using assms by (cases q; auto simp: ApplyResourceSlice_def q)+
  have step: "nodes v' = nodes v \<and> hypers v' = hypers v \<and>
      (slices.written (sl_Name s) s (spec_as s) v v' \<or> slices v' = slices v \<and> (\<exists>e. r = Inl e))"
    if "?fn v = (r, v')" for v r v'
    using slices.write_attempt_store [OF that] by (simp add: spec_as_def)
  have "?T w w1 \<and> (\<exists>v. ?T w v \<and> ?fn v = (q, w1))"
  proof (rule attempts_invariant [OF retrying [OF q]])
    show "?T w v'" if "?T w v" "?fn v = (r, v')" for v r v'
      using step [OF that(2)] that(1) by (auto simp: touches_def slices.written_def split: option.splits)
    show "?T w v'" if "?T w v" "pause v v'" for v v'
      using pausing [OF that(2)] that(1) by (simp add: touches_def)
  qed simp
  then obtain v where v: "?T w w1" "?T w v" "?fn v = (q, w1)" by blast
  have "spec_as s old = s" if "sl_Name old = sl_Name s" for old
    using that by (cases s; cases old) (simp add: spec_as_def)
  then have "slices w1 (sl_Name s) = Some (gated gate s)" if "q = Inr ()"
    using step [OF v(3)] that slices.keyed by (auto simp: slices.written_def split: option.splits)
  then show ?thesis using v(1) r by blast
qed

lemma write_object_frame:
  assumes "write_object A n new change w = (r, w')"
    and "\<And>w g w'. ap_Get A n w = (g, w') \<Longrightarrow> view w' = view w"
    and "\<And>w c w'. ap_Create A new w = (c, w') \<Longrightarrow> view w' = view w"
    and "\<And>v x w u w'. ap_Update A v x w = (u, w') \<Longrightarrow> view w' = view w"
  shows "view w' = view w"
  using assms(1)
  by (auto simp: write_object_def split: prod.splits sum.splits if_splits dest!: assms(2-4))

lemma ApplyKAITopology_store:
  assumes "ApplyKAITopology K topo w = (r, w')"
  shows "(nodes w', slices w', hypers w') = (nodes w, slices w, hypers w)"
proof -
  obtain q where "write_object (ku_Topologies K) (kt_Name topo) topo (\<lambda>_. topo) w = (q, w')"
    using assms by (auto simp: ApplyKAITopology_def split: prod.splits sum.splits write_step.splits)
  from write_object_frame [OF this, where view = "\<lambda>w. (nodes w, slices w, hypers w)"]
  show ?thesis using topology_requests by blast
qed

lemma ApplyMIGDeviceClass_store:
  assumes "ApplyMIGDeviceClass K w = (r, w')"
  shows "(nodes w', slices w', hypers w') = (nodes w, slices w, hypers w)"
proof -
  obtain q where "write_object (ku_DeviceClasses K) MIGDeviceClassName MIGDeviceClass (\<lambda>_. MIGDeviceClass) w = (q, w')"
    using assms by (auto simp: ApplyMIGDeviceClass_def split: prod.splits sum.splits write_step.splits)
  from write_object_frame [OF this, where view = "\<lambda>w. (nodes w, slices w, hypers w)"]
  show ?thesis using class_requests by blast
qed

lemma hyper_loop_store:
  "hyper_loop K hns w = (r, w') \<Longrightarrow> nodes w' = nodes w \<and> slices w' = slices w"
proof (induction hns arbitrary: w)
  case (Cons hn hns)
  obtain q w1 where q: "write_object (ku_HyperNodes K) (hn_Name hn) hn (\<lambda>_. hn) w = (q, w1)"
    by (cases "write_object (ku_HyperNodes K) (hn_Name hn) hn (\<lambda>_. hn) w")
  have "nodes w1 = nodes w" "slices w1 = slices w" using hypers.write_object_store [OF q] by simp_all
  then show ?case using Cons by (auto simp: q split: sum.splits write_step.splits if_splits)
qed simp

lemma applyHyperNodes_store:
  assumes "applyHyperNodes K r w = (u, w')"
  shows "nodes w' = nodes w \<and> slices w' = slices w"
proof -
  let ?hns = "VolcanoHyperNodes r"
  let ?prune = "prune_kind (ku_HyperNodes K) hn_Name (\<lambda>hn. hn_Name hn \<in> hn_Name ` set ?hns) True"
  obtain q w1 where q: "hyper_loop K ?hns w = (q, w1)" by (cases "hyper_loop K ?hns w")
  obtain g e w2 where p: "?prune w1 = ((g, e), w2)" by (metis surj_pair)
  have "w' = w1 \<or> w' = w2"
    using assms by (auto simp: applyHyperNodes_def Let_def q p split: sum.splits bool.splits if_splits option.splits prod.splits)
  then show ?thesis using hyper_loop_store [OF q] hypers.prune_kind_store [OF p] by auto
qed

lemma hyper_loop_writes:
  "hyper_loop K hns w = (r, w') \<Longrightarrow> distinct (map hn_Name hns) \<Longrightarrow>
   touches hypers (\<lambda>w. (nodes w, slices w)) (hn_Name ` set hns) w w' \<and>
   (r = Inr True \<longrightarrow> (\<forall>hn\<in>set hns. hypers w' (hn_Name hn) = Some hn)) \<and> (volcano_installed K \<longrightarrow> r \<noteq> Inr False)"
proof (induction hns arbitrary: w)
  case (Cons hn hns)
  let ?T = "touches hypers (\<lambda>w. (nodes w, slices w))"
  obtain q w1 where q: "write_object (ku_HyperNodes K) (hn_Name hn) hn (\<lambda>_. hn) w = (q, w1)"
    by (cases "write_object (ku_HyperNodes K) (hn_Name hn) hn (\<lambda>_. hn) w")
  have step: "?T {hn_Name hn} w w1" "q = Inr () \<longrightarrow> hypers w1 (hn_Name hn) = Some hn"
    using hypers.write_object_store [OF q] by (auto simp: hypers.written_def touches_def split: option.splits)
  have known: "\<not> isNoMatch e" if "q = Inl (Reading, e)" "volcano_installed K" for e
    using q that by (auto simp: write_object_def volcano_installed_def split: prod.splits sum.splits if_splits)
  show ?case
  proof (cases q)
    case (Inl err)
    obtain s e where err: "err = (s, e)" by (cases err)
    have "w' = w1" "r \<noteq> Inr True" "volcano_installed K \<longrightarrow> r \<noteq> Inr False"
      using Cons.prems(1) known by (cases s; auto simp: q Inl err split: if_splits)+
    then show ?thesis using step(1) by (auto simp: touches_def)
  next
    case (Inr u)
    then have "hyper_loop K hns w1 = (r, w')" using Cons.prems(1) by (simp add: q)
    note IH = Cons.IH [OF this] 
    have "?T (hn_Name ` set hns) w1 w'" using IH Cons.prems(2) by simp
    moreover from this have "hypers w' (hn_Name hn) = hypers w1 (hn_Name hn)"
      using Cons.prems(2) by (auto simp: touches_def)
    ultimately show ?thesis using IH step Inr Cons.prems(2) by (auto simp: touches_def)
  qed
qed auto

lemma applyHyperNodes_result:
  assumes "applyHyperNodes K r w = (Inr (), w')" "distinct (map hn_Name (VolcanoHyperNodes r))" "volcano_installed K"
  shows "hypers w' = matched hn_Name hn_Labels (VolcanoHyperNodes r) (hypers w)"
proof -
  let ?hns = "VolcanoHyperNodes r"
  let ?keep = "\<lambda>hn. hn_Name hn \<in> hn_Name ` set ?hns"
  obtain q w1 where q: "hyper_loop K ?hns w = (q, w1)" by (cases "hyper_loop K ?hns w")
  note writes = hyper_loop_writes [OF q assms(2)]
  have complete: "q = Inr True" using assms writes by (auto simp: applyHyperNodes_def q split: sum.splits bool.splits)
  obtain g e w2 where p: "prune_kind (ku_HyperNodes K) hn_Name ?keep True w1 = ((g, e), w2)" by (metis surj_pair)
  have listing: "\<not> isNoMatch x" if "e = Some (None, x)" for x
  proof -
    have "ap_List (ku_HyperNodes K) ManagedSelector w1 = (Inl x, w2)"
      using p that by (auto simp: prune_kind_def split: prod.splits sum.splits option.splits)
    then show ?thesis using assms(3) unfolding volcano_installed_def by blast
  qed
  have "e = None \<and> w' = w2"
    using assms(1) listing by (auto simp: applyHyperNodes_def q complete p split: option.splits if_splits)
  then have "hypers w' = pruned (\<lambda>x. managed (hn_Labels x) \<and> \<not> ?keep x) (hypers w1)"
    using hypers.prune_kind_store [OF p] by simp
  also have "\<dots> = matched hn_Name hn_Labels ?hns (hypers w)"
    using writes complete hypers.keyed by (intro matched_eq assms(2)) (auto simp: touches_def)
  finally show ?thesis .
qed

lemma CheckPartitionableDevices_store:
  assumes "CheckPartitionableDevices K n w = (r, w')"
  shows "(nodes w', slices w', hypers w') = (nodes w, slices w, hypers w) \<and> (r = Inr () \<longrightarrow> gate)"
proof -
  obtain p w1 where p: "ku_DryRunSlice K (partitionable_probe n) w = (p, w1)"
    by (cases "ku_DryRunSlice K (partitionable_probe n) w")
  note dry_run [OF p]
  moreover have "ss_SharedCounters (sl_Spec (gated False (partitionable_probe n))) = []" by (simp add: gated_def)
  ultimately show ?thesis using assms
    by (cases gate; cases p) (auto simp: CheckPartitionableDevices_def p split: if_splits)
qed

lemma publish_slices_store:
  assumes "publish_slices K r ss w = (q, w')" "distinct (map sl_Name ss)"
  shows "nodes w' = nodes w \<and> touches slices (\<lambda>_. ()) (sl_Name ` set ss) w w' \<and>
     (q = Inr () \<longrightarrow> (\<forall>s\<in>set ss. slices w' (sl_Name s) = Some (gated gate s)))"
proof -
  obtain q1 w1 where 1: "for_each (ApplyResourceSlice K) ss w = (q1, w1)" by (cases "for_each (ApplyResourceSlice K) ss w")
  have s1: "touches slices (\<lambda>w. (nodes w, hypers w)) (sl_Name ` set ss) w w1"
    "q1 = Inr () \<longrightarrow> (\<forall>s\<in>set ss. slices w1 (sl_Name s) = Some (gated gate s))"
    using for_each_touches [where f = "ApplyResourceSlice K" and key = sl_Name and val = "gated gate",
        OF ApplyResourceSlice_store 1] assms(2) by simp_all
  have later: "nodes w' = nodes w1 \<and> slices w' = slices w1 \<and> (q = Inr () \<longrightarrow> q1 = Inr ())"
  proof (cases q1)
    case (Inl e)
    then show ?thesis using assms(1) by (auto simp: publish_slices_def 1)
  next
    case (Inr u)
    obtain q2 w2 where 2: "(if resolvedHasMIG r then ApplyMIGDeviceClass K w1 else (Inr (), w1)) = (q2, w2)"
      by (cases "if resolvedHasMIG r then ApplyMIGDeviceClass K w1 else (Inr (), w1)")
    obtain q3 w3 where 3: "ApplyKAITopology K (KAITopologyFor r) w2 = (q3, w3)" by (cases "ApplyKAITopology K (KAITopologyFor r) w2")
    obtain q4 w4 where 4: "applyHyperNodes K r w3 = (q4, w4)" by (cases "applyHyperNodes K r w3")
    have "(nodes w2, slices w2) = (nodes w1, slices w1)"
      using 2 ApplyMIGDeviceClass_store by (auto split: if_splits)
    moreover have "w' = w2 \<or> w' = w3 \<or> w' = w4"
      using assms(1) Inr
      by (cases q2; cases q3; cases q4; auto simp: publish_slices_def 1 2 3 4)
    ultimately show ?thesis using ApplyKAITopology_store [OF 3] applyHyperNodes_store [OF 4] Inr by auto
  qed
  then show ?thesis using s1 by (auto simp: touches_def)
qed

lemma publish_store:
  assumes "publish K r w = Some (q, w')" "distinct (map rn_Name (rs_Nodes r))" "ResourceSlices r = Some ss"
  shows "touches nodes (\<lambda>_. ()) (rn_Name ` set (rs_Nodes r)) w w' \<and>
     touches slices (\<lambda>_. ()) (sl_Name ` set ss) w w' \<and>
     (resolvedHasMIG r \<and> \<not> gate \<longrightarrow> slices w' = slices w \<and> (\<exists>e. q = Inl e)) \<and>
     (\<forall>ss'. q = Inr ss' \<longrightarrow> ss' = ss \<and> (\<forall>x\<in>set (Nodes r). nodes w' (kn_Name x) = Some x) \<and>
        (\<forall>s\<in>set ss. slices w' (sl_Name s) = Some (gated gate s)))"
proof -
  let ?names = "rn_Name ` set (rs_Nodes r)"
  have names: "map kn_Name (Nodes r) = map rn_Name (rs_Nodes r)" by (simp add: Nodes_def node_object_def)
  then have set_names: "kn_Name ` set (Nodes r) = ?names" by (metis list.set_map)
  have distinct: "distinct (map sl_Name ss)"
    using assms(3) distinct_slice_names [OF assms(2)] unfolding ResourceSlices_eq by blast
  obtain q1 w1 where 1: "for_each (ApplyNode K) (Nodes r) w = (q1, w1)" by (cases "for_each (ApplyNode K) (Nodes r) w")
  have n1: "touches nodes (\<lambda>w. (slices w, hypers w)) ?names w w1"
    "q1 = Inr () \<longrightarrow> (\<forall>x\<in>set (Nodes r). nodes w1 (kn_Name x) = Some x)"
    using for_each_touches [where f = "ApplyNode K" and key = kn_Name and val = "\<lambda>x. x",
        OF ApplyNode_store 1] assms(2) by (simp_all add: names set_names del: map_map)
  have stop: ?thesis if "nodes w' = nodes w1" "slices w' = slices w1" "q = Inl e" for e
    using n1 that by (auto simp: touches_def)
  show ?thesis
  proof (cases q1)
    case (Inl e)
    then show ?thesis using assms(1) by (intro stop [of e]) (auto simp: publish_def 1)
  next
    case (Inr u)
    then obtain c w2 where 2: "(if resolvedHasMIG r
        then (case Nodes r of [] \<Rightarrow> None | n # _ \<Rightarrow> Some (CheckPartitionableDevices K (kn_Name n) w1))
        else Some (Inr (), w1)) = Some (c, w2)"
      using assms(1) by (auto simp: publish_def 1 split: bind_splits)
    then have check: "nodes w2 = nodes w1" "slices w2 = slices w1" "c = Inr () \<longrightarrow> resolvedHasMIG r \<longrightarrow> gate"
      using CheckPartitionableDevices_store by (fastforce split: if_splits list.splits)+
    show ?thesis
    proof (cases c)
      case (Inl e)
      then have "w' = w2" "q = Inl e" using assms(1) \<open>q1 = Inr u\<close> by (auto simp: publish_def 1 2)
      then show ?thesis using check by (intro stop) simp_all
    next
      case (Inr u)
      obtain q3 w3 where 3: "publish_slices K r ss w2 = (q3, w3)" by (cases "publish_slices K r ss w2")
      have "w' = w3" "q = Inr ss \<and> q3 = Inr () \<or> (\<exists>e. q = Inl e)"
        using assms(1,3) \<open>q1 = Inr _\<close> Inr by (cases q3; auto simp: publish_def 1 2 3)+
      then show ?thesis using publish_slices_store [OF 3 distinct] check n1 Inr \<open>q1 = Inr _\<close>
        by (auto simp: touches_def)
    qed
  qed
qed

lemma publish_hypers:
  assumes "publish K r w = Some (Inr ss, w')" "distinct (map hn_Name (VolcanoHyperNodes r))" "volcano_installed K"
    "distinct (map rn_Name (rs_Nodes r))"
  shows "hypers w' = matched hn_Name hn_Labels (VolcanoHyperNodes r) (hypers w)"
proof -
  obtain w1 w2 ss' w3 w4 w5 where
    1: "for_each (ApplyNode K) (Nodes r) w = (Inr (), w1)" and
    2: "(if resolvedHasMIG r
        then (case Nodes r of [] \<Rightarrow> None | n # _ \<Rightarrow> Some (CheckPartitionableDevices K (kn_Name n) w1))
        else Some (Inr (), w1)) = Some (Inr (), w2)" and
    ss': "ResourceSlices r = Some ss'" and 3: "for_each (ApplyResourceSlice K) ss' w2 = (Inr (), w3)" and
    4: "(if resolvedHasMIG r then ApplyMIGDeviceClass K w3 else (Inr (), w3)) = (Inr (), w4)" and
    5: "ApplyKAITopology K (KAITopologyFor r) w4 = (Inr (), w5)" and 6: "applyHyperNodes K r w5 = (Inr (), w')"
    by (rule publish_steps [OF assms(1)])
  have names: "map kn_Name (Nodes r) = map rn_Name (rs_Nodes r)" by (simp add: Nodes_def node_object_def)
  have distinct: "distinct (map sl_Name ss')"
    using ss' distinct_slice_names [OF assms(4)] unfolding ResourceSlices_eq by blast
  have "hypers w1 = hypers w"
    using for_each_touches [where f = "ApplyNode K" and key = kn_Name and val = "\<lambda>x. x", OF ApplyNode_store 1] assms(4)
    by (simp add: names touches_def)
  moreover have "hypers w2 = hypers w1"
    using 2 CheckPartitionableDevices_store by (fastforce split: if_splits list.splits)
  moreover have "hypers w3 = hypers w2"
    using for_each_touches [where f = "ApplyResourceSlice K" and key = sl_Name and val = "gated gate",
        OF ApplyResourceSlice_store 3] distinct by (simp add: touches_def)
  moreover have "hypers w4 = hypers w3" using 4 ApplyMIGDeviceClass_store by (auto split: if_splits)
  moreover have "hypers w5 = hypers w4" using ApplyKAITopology_store [OF 5] by simp
  ultimately show ?thesis using applyHyperNodes_result [OF 6 assms(2,3)] by simp
qed

text \<open>
  Pruning removes managed objects only, and only those not kept; when it succeeds it has removed
  all of them and says so. \<open>pruned\<close> is what it leaves of a store.
\<close>

lemma Prune_store:
  assumes "Prune K keepNodes keepSlices w = ((removed, e), w')"
  shows "hypers w' = hypers w \<and>
     (\<forall>n. slices w' n = slices w n \<or> slices w' n = None \<and>
        (\<exists>s. slices w n = Some s \<and> managed (sl_Labels s) \<and> \<not> keep_slice keepNodes keepSlices s)) \<and>
     (\<forall>n. nodes w' n = nodes w n \<or> nodes w' n = None \<and>
        (\<exists>x. nodes w n = Some x \<and> managed (kn_Labels x) \<and> \<not> keeps keepNodes n)) \<and>
     (e = None \<longrightarrow>
        slices w' = pruned (\<lambda>s. managed (sl_Labels s) \<and> \<not> keep_slice keepNodes keepSlices s) (slices w) \<and>
        nodes w' = pruned (\<lambda>x. managed (kn_Labels x) \<and> \<not> keeps keepNodes (kn_Name x)) (nodes w) \<and>
        set removed = disappeared slices nodes w w')"
proof -
  let ?keep = "\<lambda>x. keeps keepNodes (kn_Name x)"
  obtain g1 e1 w1 where 1: "prune_kind (ku_Slices K) sl_Name (keep_slice keepNodes keepSlices) False w = ((g1, e1), w1)"
    by (metis surj_pair)
  obtain g2 e2 w2 where 2: "prune_kind (ku_Nodes K) kn_Name ?keep False w1 = ((g2, e2), w2)"
    by (metis surj_pair)
  note after1 = slices.prune_kind_store [OF 1] and after2 = nodes.prune_kind_store [OF 2]
  show ?thesis
  proof (cases e1)
    case (Some err)
    then have "w' = w1" "e \<noteq> None" using assms by (auto simp: Prune_def 1 split: option.splits prod.splits)
    then show ?thesis using after1 by auto
  next
    case None
    then have w': "w' = w2" "e = None \<longrightarrow> e2 = None"
      using assms by (cases e2; auto simp: Prune_def Let_def 1 2 split: option.splits prod.splits)+
    have removed: "removed = map (\<lambda>n. ''resourceslice/'' @ n) g1 @ map (\<lambda>n. ''node/'' @ n) g2" if "e = None"
      using assms None that by (cases e2; auto simp: Prune_def Let_def 1 2 split: option.splits prod.splits)
    have "nodes w1 = nodes w" "hypers w1 = hypers w" "slices w2 = slices w1" "hypers w2 = hypers w1"
      using after1 after2 by auto
    moreover have "\<exists>x. nodes w n = Some x \<and> managed (kn_Labels x) \<and> \<not> keeps keepNodes n"
      if "nodes w n = Some x" "managed (kn_Labels x)" "\<not> ?keep x" for n x
      using that nodes.keyed by blast
    moreover have "set removed = disappeared slices nodes w w'" if "e = None"
    proof -
      have "set g1 = {n. slices w n \<noteq> None \<and> slices w' n = None}" "set g2 = {n. nodes w n \<noteq> None \<and> nodes w' n = None}"
        using after1 after2 None w' calculation that by auto
      then show ?thesis unfolding removed [OF that] disappeared_def by auto
    qed
    ultimately show ?thesis using after1 after2 None w' by (auto dest: nodes.keyed)
  qed
qed

end

subsection \<open>Properties\<close>

lemma keeps_all [simp]: "keeps (keep_all names) n \<longleftrightarrow> n \<in> set names"
proof -
  have "map_get (fold (\<lambda>n. map_put n True) names m) n = (if n \<in> set names then Some True else map_get m n)" for m
    by (induction names arbitrary: m) (auto simp: update_conv')
  then show ?thesis by (simp add: keeps_def keep_all_def)
qed

lemma keep_all_empty [simp]: "keep_all names = [] \<longleftrightarrow> names = []"
proof (cases names)
  case (Cons n ns)
  then have "keeps (keep_all names) n" by simp
  then have "keep_all names \<noteq> []" by (auto simp: keeps_def)
  then show ?thesis using Cons by simp
qed (simp add: keep_all_def)

lemma load_profiles_loaded:
  "load_profiles load ps acc = Inr m \<Longrightarrow>
   \<forall>(name, pool)\<in>set ps. map_get acc (np_Profile pool) \<noteq> None \<or> (\<exists>p. load (np_Profile pool) = Inr p)"
proof (induction load ps acc rule: load_profiles.induct)
  case (2 load name pool ps profiles)
  show ?case
  proof (cases "map_get profiles (np_Profile pool) \<noteq> None")
    case True
    then show ?thesis using 2 by auto
  next
    case False
    then obtain p where p: "load (np_Profile pool) = Inr p" using "2.prems" by (auto split: sum.splits)
    then have "load_profiles load ps (map_put (np_Profile pool) p profiles) = Inr m" using "2.prems" False by simp
    from "2.IH"(2) [OF _ p this] False p show ?thesis by (fastforce simp: update_conv' split: if_splits)
  qed
qed simp

lemma LoadProfile_devices: "LoadProfile K namespace w name = Inr p \<Longrightarrow> gp_Devices p \<noteq> []"
  by (auto simp: LoadProfile_def Parse_def split: sum.splits if_splits option.splits)

lemma Resolve_loads:
  assumes "Resolve uuid (LoadProfile K namespace w) ct = Some (Inr r)"
  shows "\<exists>prof. loads (LoadProfile K namespace w) prof ct"
proof -
  let ?load = "LoadProfile K namespace w"
  obtain m where "load_profiles ?load (pools ct) [] = Inr m"
    using assms by (auto simp: Resolve_def split: sum.splits)
  from load_profiles_loaded [OF this]
  have "loads ?load (\<lambda>name. case ?load name of Inr p \<Rightarrow> p | Inl _ \<Rightarrow> undefined) ct"
    unfolding loads_def using LoadProfile_devices by fastforce
  then show ?thesis by blast
qed

lemma Resolve_distinct:
  assumes "Validate ct = []" "Resolve uuid (LoadProfile K namespace w) ct = Some (Inr r)"
  shows "distinct (map rn_Name (rs_Nodes r))"
proof -
  have wf: "topology_wf ct" using assms(1) by (simp add: Validate_wf)
  obtain prof where loads: "loads (LoadProfile K namespace w) prof ct" using Resolve_loads [OF assms(2)] by blast
  have "r = resolved_view uuid prof ct" using Resolve_eq [OF wf loads] assms(2) by simp
  then show ?thesis using distinct_placed_names [OF wf] by (simp add: resolved_nodes comp_def split_beta)
qed

lemma Resolve_hyper_nodes:
  assumes "Validate ct = []" "Resolve uuid (LoadProfile K namespace w) ct = Some (Inr r)"
  shows "distinct (map hn_Name (VolcanoHyperNodes r))" and "VolcanoHyperNodes r \<noteq> []"
proof -
  have wf: "topology_wf ct" using assms(1) by (simp add: Validate_wf)
  obtain prof where loads: "loads (LoadProfile K namespace w) prof ct" using Resolve_loads [OF assms(2)] by blast
  have r: "r = resolved_view uuid prof ct" using Resolve_eq [OF wf loads] assms(2) by simp
  then have named: "levels_named r" using resolved_levels_named [OF wf] by simp
  show "distinct (map hn_Name (VolcanoHyperNodes r))" using distinct_hyper_names [OF named] .
  have "racks ct \<noteq> []" "\<forall>k\<in>set (racks ct). rk_Nodes k \<noteq> []"
    using wf by (auto simp: topology_wf_def rack_wf_def)
  then obtain k n where "k \<in> set (racks ct)" "n \<in> set (rk_Nodes k)" by (metis hd_in_set)
  then have "placed ct \<noteq> []" by (force simp: placed_def)
  then have "rs_Nodes r \<noteq> []" by (simp add: r resolved_nodes)
  then obtain x where "x \<in> set (rs_Nodes r)" by (cases "rs_Nodes r") auto
  then have "group_node r 0 (level_of r 0 x) \<in> set (VolcanoHyperNodes r)"
    by (intro group_node_mem [OF named]) (auto simp: volcanoLevels_def)
  then show "VolcanoHyperNodes r \<noteq> []" by auto
qed

lemma gated_generated:
  assumes "ResourceSlices r = Some ss" "s \<in> set ss" "resolvedHasMIG r \<longrightarrow> gate"
  shows "gated gate s = s"
proof (cases gate)
  case False
  then have "\<forall>x\<in>set (rs_Nodes r). rn_MIG x = None" using assms(3) by (simp add: resolvedHasMIG_def)
  then obtain x where "s = resourceSlice x (rs_Name r)"
    using assms(1,2) by (auto simp: ResourceSlices_eq node_slices_def)
  then show ?thesis using False by (simp add: gated_def resourceSlice_def device_def)
qed (simp add: gated_def)

text \<open>What one application did, on every outcome: the ground of the properties below.\<close>

lemma ApplyTopology_steps:
  assumes "kube_store K nodes slices hypers gate pause" "ApplyTopology K namespace path w = Some (q, w')"
    and "Load (ku_ReadFile K) (ku_TopologyYAML K) path = Inr ct"
    and "Resolve (ku_UUID K) (LoadProfile K namespace w) ct = Some (Inr r)" "ResourceSlices r = Some ss"
  shows "\<exists>p w1. publish K r w = Some (p, w1) \<and>
     ((\<exists>e. p = Inl e \<and> q = Inl e \<and> w' = w1) \<or>
      (\<exists>removed e. p = Inr ss \<and>
         Prune K (keep_all (map kn_Name (Nodes r))) (keep_all (map sl_Name ss)) w1 = ((removed, e), w') \<and>
         q = (case e of
                Some err \<Rightarrow> Inl err
              | None \<Rightarrow> Inr \<lparr>tr_Name = rs_Name r, tr_Nodes = int (length (Nodes r)), tr_Slices = int (length ss),
                  tr_Devices = sum_list (map (\<lambda>s. int (length (ss_Devices (sl_Spec s)))) ss),
                  tr_Removed = removed\<rparr>))) \<and>
     distinct (map rn_Name (rs_Nodes r)) \<and> distinct (map sl_Name ss)"
proof -
  have "Validate ct = []"
    using assms(3) by (auto simp: Load_def split: sum.splits if_splits)
  then have distinct: "distinct (map rn_Name (rs_Nodes r))" by (rule Resolve_distinct [OF _ assms(4)])
  moreover have "distinct (map sl_Name ss)"
    using assms(5) distinct_slice_names [OF distinct] unfolding ResourceSlices_eq by blast
  moreover obtain p w1 where p: "publish K r w = Some (p, w1)"
    using assms(2-4) by (auto simp: ApplyTopology_def split: bind_splits)
  moreover have "((\<exists>e. p = Inl e \<and> q = Inl e \<and> w' = w1) \<or>
      (\<exists>removed e. p = Inr ss \<and>
         Prune K (keep_all (map kn_Name (Nodes r))) (keep_all (map sl_Name ss)) w1 = ((removed, e), w') \<and>
         q = (case e of
                Some err \<Rightarrow> Inl err
              | None \<Rightarrow> Inr \<lparr>tr_Name = rs_Name r, tr_Nodes = int (length (Nodes r)), tr_Slices = int (length ss),
                  tr_Devices = sum_list (map (\<lambda>s. int (length (ss_Devices (sl_Spec s)))) ss),
                  tr_Removed = removed\<rparr>)))"
  proof (cases p)
    case (Inl e)
    then show ?thesis using assms(2-4) p by (simp add: ApplyTopology_def)
  next
    case (Inr ss')
    then have "ss' = ss" using kube_store.publish_store [OF assms(1) p distinct assms(5)] by blast
    obtain removed e w2 where prune:
      "Prune K (keep_all (map kn_Name (Nodes r))) (keep_all (map sl_Name ss)) w1 = ((removed, e), w2)"
      by (metis surj_pair)
    show ?thesis using assms(2-4) by (cases e) (simp_all add: ApplyTopology_def p Inr \<open>ss' = ss\<close> prune)
  qed
  ultimately show ?thesis by blast
qed

lemma matched_None: "matched key labels xs view n = None \<Longrightarrow> n \<notin> key ` set xs"
  by (auto simp: matched_def find_None_iff split: option.splits)

lemma ApplyTopology_result:
  assumes "kube_store K nodes slices hypers gate pause" "ApplyTopology K namespace path w = Some (Inr res, w')"
  shows "\<exists>ct r ss. Load (ku_ReadFile K) (ku_TopologyYAML K) path = Inr ct \<and>
     Resolve (ku_UUID K) (LoadProfile K namespace w) ct = Some (Inr r) \<and> ResourceSlices r = Some ss \<and>
     nodes w' = matched kn_Name kn_Labels (Nodes r) (nodes w) \<and>
     slices w' = matched sl_Name sl_Labels ss (slices w) \<and>
     tr_Nodes res = int (length (Nodes r)) \<and> tr_Slices res = int (length ss) \<and>
     tr_Devices res = sum_list (map (\<lambda>s. int (length (ss_Devices (sl_Spec s)))) ss) \<and>
     tr_Name res = rs_Name r \<and> set (tr_Removed res) = disappeared slices nodes w w' \<and>
     (volcano_installed K \<longrightarrow> hypers w' = matched hn_Name hn_Labels (VolcanoHyperNodes r) (hypers w))"
proof -
  obtain ct where ct: "Load (ku_ReadFile K) (ku_TopologyYAML K) path = Inr ct"
    using assms(2) by (auto simp: ApplyTopology_def split: sum.splits)
  then obtain r where r: "Resolve (ku_UUID K) (LoadProfile K namespace w) ct = Some (Inr r)"
    using assms(2) by (auto simp: ApplyTopology_def split: bind_splits sum.splits)
  obtain ss where ss: "ResourceSlices r = Some ss" using ResourceSlices_eq by blast
  from ApplyTopology_steps [OF assms ct r ss] obtain p w1 removed where
    p: "publish K r w = Some (p, w1)" "p = Inr ss" and
    prune: "Prune K (keep_all (map kn_Name (Nodes r))) (keep_all (map sl_Name ss)) w1 = ((removed, None), w')" and
    res: "res = \<lparr>tr_Name = rs_Name r, tr_Nodes = int (length (Nodes r)), tr_Slices = int (length ss),
                            tr_Devices = sum_list (map (\<lambda>s. int (length (ss_Devices (sl_Spec s)))) ss),
                            tr_Removed = removed\<rparr>" and
    distinct: "distinct (map rn_Name (rs_Nodes r))" "distinct (map sl_Name ss)"
    by (auto split: option.splits)
  note pub = kube_store.publish_store [OF assms(1) p(1) distinct(1) ss]
  note pr = kube_store.Prune_store [OF assms(1) prune]
  have names: "map kn_Name (Nodes r) = map rn_Name (rs_Nodes r)" by (simp add: Nodes_def node_object_def)
  then have set_names: "kn_Name ` set (Nodes r) = rn_Name ` set (rs_Nodes r)" by (metis list.set_map)
  have gate: "resolvedHasMIG r \<longrightarrow> gate" using pub p(2) by blast
  have "nodes w' = matched kn_Name kn_Labels (Nodes r) (nodes w)"
  proof -
    have "pruned (\<lambda>x. managed (kn_Labels x) \<and> \<not> keeps (keep_all (map kn_Name (Nodes r))) (kn_Name x)) (nodes w1) =
        matched kn_Name kn_Labels (Nodes r) (nodes w)"
      using pub p(2) distinct(1) kube_store.axioms(1) [OF assms(1)]
      by (intro matched_eq) (auto simp: set_names names touches_def object_store_def simp del: map_map)
    then show ?thesis using pr by simp
  qed
  moreover have "slices w' = matched sl_Name sl_Labels ss (slices w)"
  proof -
    have "ss \<noteq> [] \<or> rs_Nodes r = []" using ss node_slices_nonempty by (auto simp: ResourceSlices_eq)
    then have keep: "keep_slice (keep_all (map kn_Name (Nodes r))) (keep_all (map sl_Name ss)) s \<longleftrightarrow>
        sl_Name s \<in> sl_Name ` set ss" for s
      by (auto simp: keep_slice_def Nodes_def split: option.splits)
    have "pruned (\<lambda>s. managed (sl_Labels s) \<and> \<not> keep_slice (keep_all (map kn_Name (Nodes r))) (keep_all (map sl_Name ss)) s)
        (slices w1) = matched sl_Name sl_Labels ss (slices w)"
      using pub p(2) distinct(2) kube_store.axioms(2) [OF assms(1)] gated_generated [OF ss _ gate]
      by (intro matched_eq) (auto simp: keep touches_def object_store_def)
    then show ?thesis using pr by simp
  qed
  moreover have "disappeared slices nodes w1 w' = disappeared slices nodes w w'"
  proof -
    have "nodes w1 n = nodes w n" if "nodes w' n = None" for n
      using matched_None that calculation(1) pub by (metis touches_def set_names)
    moreover have "slices w1 n = slices w n" if "slices w' n = None" for n
      using matched_None that \<open>slices w' = _\<close> pub by (metis touches_def)
    ultimately show ?thesis by (auto simp: disappeared_def)
  qed
  moreover have "hypers w' = matched hn_Name hn_Labels (VolcanoHyperNodes r) (hypers w)" if "volcano_installed K"
  proof -
    have "Validate ct = []" using ct by (auto simp: Load_def split: sum.splits if_splits)
    then have "distinct (map hn_Name (VolcanoHyperNodes r))" by (rule Resolve_hyper_nodes(1) [OF _ r])
    with kube_store.publish_hypers [OF assms(1) p(1) [unfolded p(2)] this that distinct(1)] pr show ?thesis by simp
  qed
  ultimately show ?thesis using ct r ss res pr by simp
qed

text \<open>
  C2. Applying a topology makes the cluster match it. When \<open>ApplyTopology\<close> succeeds, the
  nodes and the ResourceSlices of the cluster are exactly what \<open>matched\<close> says: every
  generated object as generated (labels, taints, capacity, devices, counters), every other
  object of gpu-sim gone, everything else as it was; the counts it reports are those of the
  generated objects, and the removals it reports are exactly what disappeared. Where the
  server knows Volcano's kind, its HyperNodes are made to match in the same way. Nothing more is needed than the API server's laws: retries on
  conflict, the split between a node and its status and a switched-off feature gate are all
  covered.
\<close>

theorem ApplyTopology_converges:
  assumes "kube_store K nodes slices hypers gate pause" "ApplyTopology K namespace path w = Some (Inr res, w')"
  shows "\<exists>ct r ss. Load (ku_ReadFile K) (ku_TopologyYAML K) path = Inr ct \<and>
     Resolve (ku_UUID K) (LoadProfile K namespace w) ct = Some (Inr r) \<and> ResourceSlices r = Some ss \<and>
     nodes w' = matched kn_Name kn_Labels (Nodes r) (nodes w) \<and>
     slices w' = matched sl_Name sl_Labels ss (slices w) \<and>
     tr_Nodes res = int (length (Nodes r)) \<and> tr_Slices res = int (length ss) \<and>
     tr_Devices res = sum_list (map (\<lambda>s. int (length (ss_Devices (sl_Spec s)))) ss) \<and>
     tr_Name res = rs_Name r \<and> set (tr_Removed res) = disappeared slices nodes w w' \<and>
     (volcano_installed K \<longrightarrow> hypers w' = matched hn_Name hn_Labels (VolcanoHyperNodes r) (hypers w))"
  using assms by (rule ApplyTopology_result)

lemma matched_matched [simp]:
  "matched key labels xs (matched key labels xs view) = matched key labels xs view"
  by (auto simp: matched_def pruned_def fun_eq_iff split: option.split)

text \<open>
  C11. Applying is idempotent: applying the same file again (with the same profiles published)
  reports the same counts, changes no node and no slice, and removes nothing.
\<close>

theorem ApplyTopology_idempotent:
  assumes "kube_store K nodes slices hypers gate pause" "ApplyTopology K namespace path w = Some (Inr res, w')"
    and "ApplyTopology K namespace path w' = Some (Inr res', w'')" "LoadProfile K namespace w' = LoadProfile K namespace w"
  shows "nodes w'' = nodes w' \<and> slices w'' = slices w' \<and> res' = res\<lparr>tr_Removed := []\<rparr>"
proof -
  note first = ApplyTopology_result [OF assms(1,2)] and second = ApplyTopology_result [OF assms(1,3), unfolded assms(4)]
  have same: "nodes w'' = nodes w'" "slices w'' = slices w'" using first second by auto
  then have "disappeared slices nodes w' w'' = {}" by (auto simp: disappeared_def)
  then have "tr_Removed res' = []" using second by auto
  then show ?thesis using same first second by (cases res; cases res') auto
qed

text \<open>
  C12. Applying is safe however it ends, also in an error at any step. An object of another
  owner (without gpu-sim's label, and not of a name the topology generates) is never touched;
  and no node or slice disappears before every generated one is in place, so that a failure
  never leaves a half-deleted cluster.
\<close>

theorem ApplyTopology_safe:
  assumes "kube_store K nodes slices hypers gate pause" "ApplyTopology K namespace path w = Some (q, w')"
    and "Load (ku_ReadFile K) (ku_TopologyYAML K) path = Inr ct"
    and "Resolve (ku_UUID K) (LoadProfile K namespace w) ct = Some (Inr r)" "ResourceSlices r = Some ss"
  shows "(\<forall>n x. nodes w n = Some x \<and> \<not> managed (kn_Labels x) \<and> n \<notin> kn_Name ` set (Nodes r) \<longrightarrow> nodes w' n = Some x) \<and>
     (\<forall>n s. slices w n = Some s \<and> \<not> managed (sl_Labels s) \<and> n \<notin> sl_Name ` set ss \<longrightarrow> slices w' n = Some s) \<and>
     ((\<exists>n. nodes w n \<noteq> None \<and> nodes w' n = None \<or> slices w n \<noteq> None \<and> slices w' n = None) \<longrightarrow>
        (\<forall>x\<in>set (Nodes r). nodes w' (kn_Name x) = Some x) \<and> (\<forall>s\<in>set ss. slices w' (sl_Name s) = Some s))"
proof -
  let ?keepN = "keep_all (map kn_Name (Nodes r))" and ?keepS = "keep_all (map sl_Name ss)"
  have set_names: "kn_Name ` set (Nodes r) = rn_Name ` set (rs_Nodes r)" by (force simp: Nodes_def node_object_def)
  from ApplyTopology_steps [OF assms] obtain p w1 where
    p: "publish K r w = Some (p, w1)" "distinct (map rn_Name (rs_Nodes r))" and
    how: "(\<exists>e. p = Inl e) \<and> w' = w1 \<or> (\<exists>removed e. p = Inr ss \<and> Prune K ?keepN ?keepS w1 = ((removed, e), w'))"
    by blast
  note pub = kube_store.publish_store [OF assms(1) p assms(5)]
  from how show ?thesis
  proof
    assume "(\<exists>e. p = Inl e) \<and> w' = w1"
    then show ?thesis using pub unfolding set_names by (auto simp: touches_def)
  next
    assume "\<exists>removed e. p = Inr ss \<and> Prune K ?keepN ?keepS w1 = ((removed, e), w')"
    then obtain removed e where ok: "p = Inr ss" and prune: "Prune K ?keepN ?keepS w1 = ((removed, e), w')" by blast
    note pr = kube_store.Prune_store [OF assms(1) prune]
    have gate: "resolvedHasMIG r \<longrightarrow> gate" using pub ok by blast
    have node: "nodes w' n = Some x"
      if "nodes w1 n = Some x" "n \<in> kn_Name ` set (Nodes r) \<or> \<not> managed (kn_Labels x)" for n x
    proof -
      have "nodes w' n = nodes w1 n \<or> (\<exists>x. nodes w1 n = Some x \<and> managed (kn_Labels x) \<and> \<not> keeps ?keepN n)"
        using pr by blast
      then show ?thesis using that by auto
    qed
    have slice: "slices w' n = Some s"
      if "slices w1 n = Some s" "sl_Name s \<in> sl_Name ` set ss \<or> \<not> managed (sl_Labels s)" for n s
    proof -
      have "slices w' n = slices w1 n \<or> (\<exists>s. slices w1 n = Some s \<and> managed (sl_Labels s) \<and> \<not> keep_slice ?keepN ?keepS s)"
        using pr by blast
      then show ?thesis using that by (auto simp: keep_slice_def)
    qed
    have others: "nodes w1 n = nodes w n" if "n \<notin> kn_Name ` set (Nodes r)" for n
      using pub that unfolding set_names by (simp add: touches_def)
    have "slices w1 n = slices w n" if "n \<notin> sl_Name ` set ss" for n
      using pub that by (simp add: touches_def)
    moreover have "nodes w' (kn_Name x) = Some x" if "x \<in> set (Nodes r)" for x
      using pub ok that by (intro node) auto
    moreover have "slices w' (sl_Name s) = Some s" if "s \<in> set ss" for s
      using pub ok that gated_generated [OF assms(5) that gate] by (intro slice) auto
    ultimately show ?thesis using node slice others by simp
  qed
qed

text \<open>
  C22. A cluster that drops counters is refused, not filled with partitions that would look
  independent: with the feature gate off, applying a topology with a MIG node fails, and fails
  before any slice is created, changed or deleted.
\<close>

theorem MIG_needs_counters:
  assumes "kube_store K nodes slices hypers False pause" "ApplyTopology K namespace path w = Some (q, w')"
    and "Load (ku_ReadFile K) (ku_TopologyYAML K) path = Inr ct"
    and "Resolve (ku_UUID K) (LoadProfile K namespace w) ct = Some (Inr r)" "resolvedHasMIG r"
  shows "(\<exists>e. q = Inl e) \<and> slices w' = slices w"
proof -
  obtain ss where ss: "ResourceSlices r = Some ss" using ResourceSlices_eq by blast
  from ApplyTopology_steps [OF assms(1-4) ss] obtain p w1 where
    p: "publish K r w = Some (p, w1)" "distinct (map rn_Name (rs_Nodes r))"
    "\<forall>e. p = Inl e \<longrightarrow> q = Inl e \<and> w' = w1" by blast
  from kube_store.publish_store [OF assms(1) p(1,2) ss] assms(5) p(3) show ?thesis by blast
qed

text \<open>
  C23. Volcano is not optional. An API server without Volcano's kind answers \<open>NotFound\<close> to reading
  and to creating a HyperNode (the code's test for an unknown kind looks for an error of
  client-go's REST mapper, which the dynamic client does not consult); then applying a topology
  always ends in an error, although the code means to skip this step.
\<close>

theorem Volcano_missing_fails:
  assumes "\<And>n v. \<exists>s v'. ap_Get (ku_HyperNodes K) n v = (Inl (NotFound s), v')"
    and "\<And>x v. \<exists>s v'. ap_Create (ku_HyperNodes K) x v = (Inl (NotFound s), v')"
    and "ApplyTopology K namespace path w = Some (q, w')"
  shows "\<exists>e. q = Inl e"
proof (rule ccontr)
  assume "\<nexists>e. q = Inl e"
  then obtain res where "q = Inr res" by (cases q) auto
  with assms(3) obtain ct r ss w1 where ct: "Load (ku_ReadFile K) (ku_TopologyYAML K) path = Inr ct"
    and r: "Resolve (ku_UUID K) (LoadProfile K namespace w) ct = Some (Inr r)" and pub: "publish K r w = Some (Inr ss, w1)"
    by (auto simp: ApplyTopology_def split: bind_splits sum.splits)
  have "Validate ct = []" using ct by (auto simp: Load_def split: sum.splits if_splits)
  then obtain hn hns where hns: "VolcanoHyperNodes r = hn # hns"
    using Resolve_hyper_nodes(2) [OF _ r] by (meson list.exhaust)
  from pub obtain v where "applyHyperNodes K r v = (Inr (), w1)" by (rule publish_wrote_hypers)
  moreover obtain s1 v1 where "ap_Get (ku_HyperNodes K) (hn_Name hn) v = (Inl (NotFound s1), v1)" using assms(1) by blast
  moreover obtain s2 v2 where "ap_Create (ku_HyperNodes K) hn v1 = (Inl (NotFound s2), v2)" using assms(2) by blast
  ultimately show False by (simp add: applyHyperNodes_def hns write_object_def)
qed

end
