(* ===== verification/ClusterWorkloads.thy ===== *)
theory ClusterWorkloads
  imports ClusterApply RunnerTimeline
begin

text \<open>
  internal/cluster/workloads.go and the requests of faults.go and fragmentation.go: submitting,
  retiring and observing workloads. Together with \<open>ClusterApply\<close> this gives every method of
  \<open>cluster.Client\<close>, collected in \<open>cluster_client\<close>, the client internal/runner runs on.
\<close>

subsection \<open>Namespaces\<close>

definition EnsureNamespace :: "'w kube \<Rightarrow> string \<Rightarrow> 'w \<Rightarrow> (string + unit) \<times> 'w" where
  "EnsureNamespace K name w =
     (case ap_Get (ku_Namespaces K) name w of
        (Inr _, w) \<Rightarrow> (Inr (), w)
      | (Inl e, w) \<Rightarrow>
          (if \<not> isNotFound e then (Inl (''reading namespace '' @ name @ '': '' @ api_text e), w)
           else (case in_context (''creating namespace '' @ name) (ap_Create (ku_Namespaces K) name w) of
                   (Inl e, w) \<Rightarrow> (Inl e, w) | (Inr _, w) \<Rightarrow> (Inr (), w))))"

text \<open>One request whose \<open>NotFound\<close> (or \<open>AlreadyExists\<close>) answer is passed over.\<close>

definition tolerate :: "(api_error \<Rightarrow> bool) \<Rightarrow> string \<Rightarrow> (api_error + 'a) \<times> 'w \<Rightarrow> (string + unit) \<times> 'w" where
  "tolerate ok ctx r =
     (case r of (Inl e, w) \<Rightarrow> (if ok e then Inr () else Inl (ctx @ '': '' @ api_text e), w) | (Inr _, w) \<Rightarrow> (Inr (), w))"

fun isAlreadyExists :: "api_error \<Rightarrow> bool" where
  "isAlreadyExists (AlreadyExists _) \<longleftrightarrow> True"
| "isAlreadyExists _ \<longleftrightarrow> False"

definition ClearNamespace :: "'w kube \<Rightarrow> string \<Rightarrow> 'w \<Rightarrow> (string + unit) \<times> 'w" where
  "ClearNamespace K ns w =
     (case tolerate isNotFound ''clearing deployments'' (ap_DeleteCollection (ku_Deployments K ns) w) of
        (Inl e, w) \<Rightarrow> (Inl e, w)
      | (Inr _, w) \<Rightarrow>
      (case tolerate isNotFound ''clearing jobs'' (ap_DeleteCollection (ku_Jobs K ns) w) of
        (Inl e, w) \<Rightarrow> (Inl e, w)
      | (Inr _, w) \<Rightarrow>
      (case tolerate isNotFound ''clearing pods'' (ap_DeleteCollection (ku_Pods K ns) w) of
        (Inl e, w) \<Rightarrow> (Inl e, w)
      | (Inr _, w) \<Rightarrow>
      (case tolerate isNotFound ''clearing claim templates'' (ap_DeleteCollection (ku_ClaimTemplates K ns) w) of
        (Inl e, w) \<Rightarrow> (Inl e, w)
      | (Inr _, w) \<Rightarrow>
      (case ap_DeleteCollection (ku_PodGroups K ns) w of (_, w) \<Rightarrow>
      (case ap_DeleteCollection (ku_VolcanoPodGroups K ns) w of (_, w) \<Rightarrow> (Inr (), w)))))))"

subsection \<open>Submitting and retiring\<close>

text \<open>Creating an object the workload may not have.\<close>

definition create_optional ::
    "('w, 'o) api \<Rightarrow> (api_error \<Rightarrow> bool) \<Rightarrow> ('o \<Rightarrow> string) \<Rightarrow> 'o option \<Rightarrow> 'w \<Rightarrow> (string + unit) \<times> 'w" where
  "create_optional A ok ctx obj w =
     (case obj of None \<Rightarrow> (Inr (), w) | Some x \<Rightarrow> tolerate ok (ctx x) (ap_Create A x w))"

definition Submit :: "'w kube \<Rightarrow> string \<Rightarrow> objects \<Rightarrow> 'w \<Rightarrow> (string + unit) \<times> 'w" where
  "Submit K ns objs w =
     (case create_optional (ku_VolcanoPodGroups K ns) isAlreadyExists (\<lambda>g. ''creating PodGroup '' @ vg_Name g) (ob_PodGroup objs) w of
        (Inl e, w) \<Rightarrow> (Inl e, w)
      | (Inr _, w) \<Rightarrow>
      (case create_optional (ku_ClaimTemplates K ns) isAlreadyExists (\<lambda>_. ''creating claim template'') (ob_ClaimTemplate objs) w of
        (Inl e, w) \<Rightarrow> (Inl e, w)
      | (Inr _, w) \<Rightarrow>
      (case create_optional (ku_Jobs K ns) (\<lambda>_. False) (\<lambda>j. ''creating job '' @ jb_Name j) (ob_Job objs) w of
        (Inl e, w) \<Rightarrow> (Inl e, w)
      | (Inr _, w) \<Rightarrow>
        create_optional (ku_Deployments K ns) (\<lambda>_. False) (\<lambda>d. ''creating deployment '' @ dp_Name d) (ob_Deployment objs) w)))"

definition WorkloadPods :: "'w kube \<Rightarrow> string \<Rightarrow> string \<Rightarrow> 'w \<Rightarrow> (string + pod list) \<times> 'w" where
  "WorkloadPods K ns name w =
     in_context (''listing pods for workload '' @ name) (ap_List (ku_Pods K ns) (Some (LabelWorkload, name)) w)"

definition AllPods :: "'w kube \<Rightarrow> string \<Rightarrow> 'w \<Rightarrow> (string + pod list) \<times> 'w" where
  "AllPods K ns w = in_context (''listing pods in '' @ ns) (ap_List (ku_Pods K ns) None w)"

text \<open>The wait at the end of \<open>Retire\<close>. Once the deadline has passed it returns without an error.\<close>

partial_function (option) retire_loop ::
    "'w kube \<Rightarrow> string \<Rightarrow> string \<Rightarrow> int \<Rightarrow> 'w \<Rightarrow> ((string + unit) \<times> 'w) option" where
  "retire_loop K ns name deadline w =
     (case WorkloadPods K ns name w of
        (Inl e, w) \<Rightarrow> Some (Inl e, w)
      | (Inr pods, w) \<Rightarrow>
          (if pods = [] then Some (Inr (), w)
           else (case ku_Now K w of (t, w) \<Rightarrow>
             if t > deadline then Some (Inr (), w)
             else (case ku_After K Second w of
                 (Inl e, w) \<Rightarrow> Some (Inl e, w)
               | (Inr _, w) \<Rightarrow> retire_loop K ns name deadline w))))"

definition Retire :: "'w kube \<Rightarrow> string \<Rightarrow> string \<Rightarrow> ('w, unit) call" where
  "Retire K ns name w =
     (case tolerate isNotFound (''retiring deployment '' @ name) (ap_Delete (ku_Deployments K ns) name w) of
        (Inl e, w) \<Rightarrow> Some (Inl e, w)
      | (Inr _, w) \<Rightarrow>
      (case tolerate isNotFound (''retiring job '' @ name) (ap_Delete (ku_Jobs K ns) name w) of
        (Inl e, w) \<Rightarrow> Some (Inl e, w)
      | (Inr _, w) \<Rightarrow>
      (case ap_Delete (ku_VolcanoPodGroups K ns) name w of (_, w) \<Rightarrow>
      (case ku_Now K w of (t, w) \<Rightarrow> retire_loop K ns name (t + 60 * Second) w))))"

subsection \<open>Observing\<close>

definition NodeLabel :: "'w kube \<Rightarrow> string \<Rightarrow> string \<Rightarrow> 'w \<Rightarrow> (string + string) \<times> 'w" where
  "NodeLabel K node label w =
     (case in_context (''reading node '' @ node) (ap_Get (ku_Nodes K) node w) of
        (Inl e, w) \<Rightarrow> (Inl e, w)
      | (Inr (_, n), w) \<Rightarrow> (Inr (case map_get (kn_Labels n) label of None \<Rightarrow> [] | Some v \<Rightarrow> v), w))"

definition client_AllocatedDevices ::
    "'w kube \<Rightarrow> string \<Rightarrow> string \<Rightarrow> 'w \<Rightarrow> (string + (string \<times> string list) list) \<times> 'w" where
  "client_AllocatedDevices K ns name w =
     (case WorkloadPods K ns name w of
        (Inl e, w) \<Rightarrow> (Inl e, w)
      | (Inr pods, w) \<Rightarrow>
          (case in_context ''listing resource claims'' (ap_List (ku_Claims K ns) None w) of
             (Inl e, w) \<Rightarrow> (Inl e, w)
           | (Inr claims, w) \<Rightarrow> (Inr (AllocatedDevices pods claims), w)))"

definition client_DeviceAttributes ::
    "'w kube \<Rightarrow> 'w \<Rightarrow> (string + (string \<times> (string \<times> string) list) list) \<times> 'w" where
  "client_DeviceAttributes K w =
     (case in_context ''listing resource slices'' (ap_List (ku_Slices K) None w) of
        (Inl e, w) \<Rightarrow> (Inl e, w)
      | (Inr ss, w) \<Rightarrow> (Inr (DeviceAttributes ss), w))"

definition client_SchedulerReasons :: "'w kube \<Rightarrow> string \<Rightarrow> string \<Rightarrow> 'w \<Rightarrow> string list \<times> 'w" where
  "client_SchedulerReasons K ns name w =
     (case ap_List (ku_PodGroups K ns) None w of (groups, w) \<Rightarrow>
      (case WorkloadPods K ns name w of (pods, w) \<Rightarrow>
        (SchedulerReasons (case groups of Inl _ \<Rightarrow> None | Inr gs \<Rightarrow> Some gs)
           (case pods of Inl _ \<Rightarrow> None | Inr ps \<Rightarrow> Some ps) name, w)))"

definition client_SnapshotPods :: "'w kube \<Rightarrow> string \<Rightarrow> 'w \<Rightarrow> (string + pod_state list) \<times> 'w" where
  "client_SnapshotPods K ns w =
     (case AllPods K ns w of
        (Inl e, w) \<Rightarrow> (Inl e, w)
      | (Inr pods, w) \<Rightarrow>
          (case in_context ''listing resource claims'' (ap_List (ku_Claims K ns) None w) of
             (Inl e, w) \<Rightarrow> (Inl e, w)
           | (Inr claims, w) \<Rightarrow> (Inr (SnapshotPods pods claims), w)))"

fun fragmentation_text :: "fragmentation_error \<Rightarrow> string" where
  "fragmentation_text (ListingSlices e) = ''listing managed ResourceSlices: '' @ e"
| "fragmentation_text (ListingClaims e) = ''listing resource claims: '' @ e"

text \<open>The claims of every namespace are listed under the empty one.\<close>

definition client_Fragmentation ::
    "'w kube \<Rightarrow> counter_order \<Rightarrow> profile_order \<Rightarrow> ('w, node_fragmentation list) call" where
  "client_Fragmentation K rc rp w =
     (case ap_List (ku_Slices K) ManagedSelector w of
        (Inl e, w) \<Rightarrow> Some (Inl (fragmentation_text (ListingSlices (api_text e))), w)
      | (Inr ss, w) \<Rightarrow>
          (case ap_List (ku_Claims K []) None w of (listed, w) \<Rightarrow> do {
             r \<leftarrow> Fragmentation rc rp (Inr ss) (case listed of Inl e \<Rightarrow> Inl (api_text e) | Inr cs \<Rightarrow> Inr cs);
             Some (case r of Inl e \<Rightarrow> Inl (fragmentation_text e) | Inr nodes \<Rightarrow> Inr nodes, w) }))"

subsection \<open>Faults\<close>

definition client_NodesWithLabel ::
    "'w kube \<Rightarrow> string \<Rightarrow> string \<Rightarrow> 'w \<Rightarrow> (string + (string \<times> bool) list) \<times> 'w" where
  "client_NodesWithLabel K label v w =
     (case in_context (''listing nodes with '' @ label @ ''='' @ v) (ap_List (ku_Nodes K) (Some (label, v)) w) of
        (Inl e, w) \<Rightarrow> (Inl e, w)
      | (Inr nodes, w) \<Rightarrow> (Inr (fold (\<lambda>n. map_put (kn_Name n) True) nodes []), w))"

definition update_attempt :: "'w kube \<Rightarrow> string \<Rightarrow> slice_device list \<Rightarrow> ('w, unit) api_call" where
  "update_attempt K name devices w =
     (case ap_Get (ku_Slices K) name w of
        (Inl e, w) \<Rightarrow> (Inl e, w)
      | (Inr (version, existing), w) \<Rightarrow>
          ap_Update (ku_Slices K) version (existing\<lparr>sl_Spec := (sl_Spec existing)\<lparr>ss_Devices := devices\<rparr>\<rparr>) w)"

definition updateSliceDevices :: "'w kube \<Rightarrow> string \<Rightarrow> slice_device list \<Rightarrow> 'w \<Rightarrow> (string + unit) \<times> 'w" where
  "updateSliceDevices K name devices w =
     in_context (''tainting devices in ResourceSlice '' @ name) (ku_Retry K (update_attempt K name devices) w)"

definition client_TaintDevices ::
    "'w kube \<Rightarrow> device_match \<Rightarrow> string \<Rightarrow> 'w \<Rightarrow> (string + (string \<times> bool) list) \<times> 'w" where
  "client_TaintDevices K m effect w =
     (case in_context ''listing managed ResourceSlices'' (ap_List (ku_Slices K) ManagedSelector w) of
        (listed, w) \<Rightarrow> TaintDevices (updateSliceDevices K) listed m effect w)"

definition DeleteNode :: "'w kube \<Rightarrow> string \<Rightarrow> 'w \<Rightarrow> (string + unit) \<times> 'w" where
  "DeleteNode K name w = tolerate isNotFound (''deleting node '' @ name) (ap_Delete (ku_Nodes K) name w)"

subsection \<open>The client\<close>

text \<open>
  \<open>cluster.Client\<close> as the runner sees it; \<open>namespace\<close> holds the GPU profiles, \<open>rc\<close> and
  \<open>rp\<close> are the map orders of the fragmentation report.
\<close>

definition cluster_client :: "'w kube \<Rightarrow> string \<Rightarrow> counter_order \<Rightarrow> profile_order \<Rightarrow> 'w client" where
  "cluster_client K namespace rc rp =
     \<lparr>kc_Now = ku_Now K, kc_After = ku_After K, kc_Progress = ku_Progress K,
      kc_ApplyTopology = ApplyTopology K namespace,
      kc_EnsureNamespace = (\<lambda>ns w. Some (EnsureNamespace K ns w)),
      kc_ClearNamespace = (\<lambda>ns w. Some (ClearNamespace K ns w)),
      kc_AllPods = (\<lambda>ns w. Some (AllPods K ns w)),
      kc_WorkloadPods = (\<lambda>ns name w. Some (WorkloadPods K ns name w)),
      kc_Submit = (\<lambda>ns objs w. Some (Submit K ns objs w)),
      kc_Retire = Retire K,
      kc_SnapshotPods = (\<lambda>ns w. Some (client_SnapshotPods K ns w)),
      kc_DeleteNode = (\<lambda>name w. Some (DeleteNode K name w)),
      kc_NodesWithLabel = (\<lambda>label v w. Some (client_NodesWithLabel K label v w)),
      kc_TaintDevices = (\<lambda>m effect w. Some (client_TaintDevices K m effect w)),
      kc_NodeLabel = (\<lambda>node label w. Some (NodeLabel K node label w)),
      kc_AllocatedDevices = (\<lambda>ns name w. Some (client_AllocatedDevices K ns name w)),
      kc_DeviceAttributes = (\<lambda>w. Some (client_DeviceAttributes K w)),
      kc_SchedulerReasons = (\<lambda>ns name w. Some (client_SchedulerReasons K ns name w)),
      kc_Fragmentation = client_Fragmentation K rc rp\<rparr>"

subsection \<open>The report returns\<close>

text \<open>
  The fragmentation report divides by the sizes it reads from the published devices, so it
  returns when every device that consumes counters consumes a memory slice and an SM slice.
\<close>

definition sized :: "published_partition \<Rightarrow> bool" where
  "sized p \<longleftrightarrow> 0 < mp_MemorySlices (pp_profile p) \<and> mp_SMSlices (pp_profile p) \<noteq> 0"

definition sized_slices :: "counter_order \<Rightarrow> resource_slice list \<Rightarrow> bool" where
  "sized_slices rc ss \<longleftrightarrow> (\<forall>s\<in>set ss. \<forall>d\<in>set (ss_Devices (sl_Spec s)). \<forall>c\<in>set (sd_ConsumesCounters d).
     sized (read_partition rc d c))"

abbreviation sized_devices :: "(int \<times> published_partition list) list \<Rightarrow> bool" where
  "sized_devices m \<equiv> \<forall>i. \<forall>p\<in>set (devices_at m i). sized p"

lemma collect_returns: "collect f xs \<noteq> None \<longleftrightarrow> (\<forall>x\<in>set xs. f x \<noteq> None)"
  by (induction xs) (auto split: option.splits)

lemma absorb_sized:
  assumes "\<forall>d\<in>set (ss_Devices (sl_Spec s)). \<forall>c\<in>set (sd_ConsumesCounters d). sized (read_partition rc d c)"
    and "sized_devices (ns_devices st)"
  shows "sized_devices (ns_devices (absorb rc s st))"
proof -
  have "sized_devices (fold (absorb_device rc) (ss_Devices (sl_Spec s)) (ns_devices st))"
  proof (rule fold_invariant [where Q = "\<lambda>d. \<forall>c\<in>set (sd_ConsumesCounters d). sized (read_partition rc d c)"])
    show "sized_devices (absorb_device rc d m)"
      if "\<forall>c\<in>set (sd_ConsumesCounters d). sized (read_partition rc d c)" "sized_devices m" for d m
      using that by (auto simp: absorb_device_def devices_at_def update_conv' split: list.splits option.splits)
  qed (use assms in auto)
  then show ?thesis by (simp add: absorb_def)
qed

lemma by_node_sized:
  assumes "sized_slices rc ss" "map_get (by_node rc ss) node = Some st"
  shows "sized_devices (ns_devices st)"
proof -
  have "\<forall>node st. map_get (by_node rc ss) node = Some st \<longrightarrow> sized_devices (ns_devices st)"
    unfolding by_node_def
  proof (rule fold_invariant [where Q = "\<lambda>s. s \<in> set ss"])
    let ?P = "\<lambda>m :: (string \<times> node_state) list. \<forall>node st. map_get m node = Some st \<longrightarrow> sized_devices (ns_devices st)"
    fix s and m :: "(string \<times> node_state) list"
    assume s: "s \<in> set ss" and m: "?P m"
    have sized: "\<forall>d\<in>set (ss_Devices (sl_Spec s)). \<forall>c\<in>set (sd_ConsumesCounters d). sized (read_partition rc d c)"
      using assms(1) s by (simp add: sized_slices_def)
    have "sized_devices (ns_devices (absorb rc s (case map_get m n of None \<Rightarrow> newNodeState | Some st \<Rightarrow> st)))" for n
      using m by (intro absorb_sized [OF sized]) (auto simp: newNodeState_def devices_at_def split: option.split)
    then show "?P (case ss_NodeName (sl_Spec s) of None \<Rightarrow> m
             | Some node \<Rightarrow> map_put node (absorb rc s (case map_get m node of None \<Rightarrow> newNodeState | Some st \<Rightarrow> st)) m)"
      using m by (simp add: update_conv' split: option.split)
  qed auto
  then show ?thesis using assms(2) by blast
qed

lemma distinctProfiles_sized:
  assumes "reorders rp" "\<forall>p\<in>set ps. sized p" "x \<in> set (distinctProfiles rp ps)"
  shows "0 < mp_MemorySlices x \<and> mp_SMSlices x \<noteq> 0"
proof -
  let ?ok = "\<lambda>p. 0 < mp_MemorySlices p \<and> mp_SMSlices p \<noteq> 0"
  let ?step = "\<lambda>p m. if mp_Name (pp_profile p) \<noteq> [] then map_put (mp_Name (pp_profile p)) (pp_profile p) m else m"
  have step: "\<forall>kv\<in>set (?step p m). ?ok (snd kv)" if "sized p" "\<forall>kv\<in>set m. ?ok (snd kv)" for p m
  proof
    fix kv assume "kv \<in> set (?step p m)"
    then have "kv = (mp_Name (pp_profile p), pp_profile p) \<or> kv \<in> set m"
      by (cases "mp_Name (pp_profile p) = []") (simp_all only: if_True if_False not_True_eq_False not_False_eq_True simp_thms, blast dest: map_put_entry)
    then show "?ok (snd kv)" using that by (auto simp: sized_def)
  qed
  have ok: "\<forall>kv\<in>set (fold ?step ps []). ?ok (snd kv)"
  proof (rule fold_invariant [where Q = sized])
    show "sized p" if "p \<in> set ps" for p using assms(2) that by blast
    show "\<forall>kv\<in>set (?step p m). ?ok (snd kv)" if "sized p" "\<forall>kv\<in>set m. ?ok (snd kv)" for p m
      using that by (rule step)
  qed simp
  have same: "set (rp (fold ?step ps [])) = set (fold ?step ps [])"
    by (rule mset_eq_setD) (use assms(1) in \<open>simp only: reorders_def\<close>)
  have "x \<in> snd ` set (rp (fold ?step ps []))" using assms(3) by (simp add: distinctProfiles_def Let_def)
  then obtain kv where kv: "kv \<in> set (fold ?step ps [])" "x = snd kv" unfolding same by (rule imageE)
  show ?thesis using bspec [OF ok kv(1)] unfolding kv(2) .
qed

lemma Fragmentation_returns:
  assumes "sized_slices rc ss" "reorders rp"
  shows "Fragmentation rc rp (Inr ss) claims \<noteq> None"
proof (cases claims)
  case (Inr cs)
  have fit: "profile_fit_of g s a b p \<noteq> None" if "0 < mp_MemorySlices p" "mp_SMSlices p \<noteq> 0" for g s a b p
    using that by (simp add: profile_fit_of_def Placements_eq Let_def)
  have analyse: "\<exists>gpus. analyse rp allocated st = Some gpus" if "map_get (by_node rc ss) node = Some st" for allocated node st
  proof -
    have "Analyse (g\<lparr>geo_Profiles := distinctProfiles rp (devices_at (ns_devices st) i)\<rparr>)
        (distinctProfiles rp (devices_at (ns_devices st) i)) i s \<noteq> None" for g i s
    proof -
      have "collect (profile_fit_of g' s a b) (distinctProfiles rp (devices_at (ns_devices st) i)) \<noteq> None" for g' a b
        unfolding collect_returns using by_node_sized [OF assms(1) that] distinctProfiles_sized [OF assms(2)] fit by blast
      then obtain fits where "collect (profile_fit_of (g\<lparr>geo_Profiles := distinctProfiles rp (devices_at (ns_devices st) i)\<rparr>) s
          (geo_MemorySlices g - int (length (st_UsedMemorySlices s))) (geo_SMSlices g - st_UsedSMSlices s))
          (distinctProfiles rp (devices_at (ns_devices st) i)) = Some fits" by blast
      then show ?thesis by (simp add: Analyse_def Let_def)
    qed
    then have "analyse rp allocated st \<noteq> None"
      unfolding analyse_def collect_returns by (auto simp: Let_def dest: weak_map_of_SomeI)
    then show ?thesis by blast
  qed
  then show ?thesis
    unfolding Fragmentation_def Inr Let_def sum.case option.map_disc_iff collect_returns
    by (auto dest!: analyse [where allocated = "allocatedDeviceNames cs"] split: option.splits)
qed (simp add: Fragmentation_def)

subsection \<open>Faults in the store\<close>

text \<open>What a fault makes of one slice.\<close>

definition with_devices :: "slice_device list \<Rightarrow> resource_slice \<Rightarrow> resource_slice" where
  "with_devices ds s = s\<lparr>sl_Spec := (sl_Spec s)\<lparr>ss_Devices := ds\<rparr>\<rparr>"

definition taint_slice :: "device_match \<Rightarrow> string \<Rightarrow> resource_slice \<Rightarrow> resource_slice" where
  "taint_slice m effect s =
     with_devices (map (\<lambda>d. if matches m s d then taint_device effect d else d) (ss_Devices (sl_Spec s))) s"

lemma with_devices_simps [simp]:
  "sl_Name (with_devices ds s) = sl_Name s" "with_devices ds (with_devices es s) = with_devices ds s"
  "with_devices (ss_Devices (sl_Spec s)) s = s"
  by (simp_all add: with_devices_def)

lemma taint_slice_name [simp]: "sl_Name (taint_slice m effect s) = sl_Name s"
  by (simp add: taint_slice_def)

lemma taint_slice_untouched:
  assumes "filter (matches m s) (ss_Devices (sl_Spec s)) = []"
  shows "taint_slice m effect s = s"
proof -
  have "map (\<lambda>d. if matches m s d then taint_device effect d else d) (ss_Devices (sl_Spec s)) = ss_Devices (sl_Spec s)"
    using assms by (auto simp: filter_empty_conv intro: map_idI)
  then show ?thesis by (simp add: taint_slice_def)
qed

lemma gated_taint:
  assumes "gated gate s = s"
  shows "gated gate (taint_slice m effect s) = taint_slice m effect s"
proof (cases gate)
  case False
  then have none: "ss_SharedCounters (sl_Spec s) = []" "\<forall>d\<in>set (ss_Devices (sl_Spec s)). sd_ConsumesCounters d = []"
    using assms
    by (auto simp: gated_def dest!: arg_cong [where f = "\<lambda>s. (ss_SharedCounters (sl_Spec s), ss_Devices (sl_Spec s))"])
      (metis (no_types, lifting) in_set_conv_nth nth_map slice_device.select_convs(4) slice_device.surjective slice_device.update_convs(4))+
  then show ?thesis using False
    by (auto simp: gated_def taint_slice_def with_devices_def taint_device_def intro!: map_cong)
qed (simp add: gated_def)

context kube_store
begin

lemma updateSliceDevices_store:
  assumes "updateSliceDevices K (sl_Name s) ds w = (r, w')" "slices w (sl_Name s) = Some s"
    and "gated gate (with_devices ds s) = with_devices ds s"
  shows "touches slices (\<lambda>w. (nodes w, hypers w)) {sl_Name s} w w' \<and>
     (r = Inr () \<longrightarrow> slices w' (sl_Name s) = Some (with_devices ds s))"
proof -
  let ?fn = "update_attempt K (sl_Name s) ds"
  let ?P = "\<lambda>v. touches slices (\<lambda>w. (nodes w, hypers w)) {sl_Name s} w v \<and>
      (slices v (sl_Name s) = Some s \<or> slices v (sl_Name s) = Some (with_devices ds s))"
  obtain q w1 where q: "ku_Retry K ?fn w = (q, w1)" by (cases "ku_Retry K ?fn w")
  have r: "w' = w1" "r = Inr () \<longrightarrow> q = Inr ()" using assms(1) by (cases q; auto simp: updateSliceDevices_def q)+
  have step: "nodes v' = nodes v \<and> hypers v' = hypers v \<and>
      (slices v' = (slices v)(sl_Name s \<mapsto> with_devices ds s) \<or> slices v' = slices v \<and> (\<exists>e. r = Inl e))"
    if run: "?fn v = (r, v')" and P: "?P v" for v r v'
  proof -
    obtain g v1 where g: "ap_Get (ku_Slices K) (sl_Name s) v = (g, v1)" by (cases "ap_Get (ku_Slices K) (sl_Name s) v")
    note same = slices.get [OF g]
    show ?thesis
    proof (cases g)
      case (Inl e)
      then show ?thesis using run same by (auto simp: update_attempt_def g)
    next
      case (Inr found)
      obtain version z where found: "found = (version, z)" by (cases found)
      then have z: "slices v (sl_Name s) = Some z" using slices.get_found g Inr by blast
      then have "z = s \<or> z = with_devices ds s" using P by auto
      then have "with_devices ds z = with_devices ds s" by auto
      then have "ap_Update (ku_Slices K) version (with_devices ds s) v1 = (r, v')"
        using run by (simp add: update_attempt_def g Inr found flip: with_devices_def)
      then show ?thesis using slices.update [of v1 "with_devices ds s" z version r v'] z same assms(3) by simp
    qed
  qed
  have "?P w1 \<and> (\<exists>v. ?P v \<and> ?fn v = (q, w1))"
  proof (rule attempts_invariant [OF retrying [OF q]])
    show "?P w" using assms(2) by simp
    show "?P v'" if "?P v" "?fn v = (r, v')" for v r v'
      using step [OF that(2,1)] that(1) by (auto simp: touches_def)
    show "?P v'" if "?P v" "pause v v'" for v v'
      using pausing [OF that(2)] that(1) by (simp add: touches_def)
  qed
  then obtain v where v: "?P w1" "?P v" "?fn v = (q, w1)" by blast
  then show ?thesis using step [OF v(3,2)] r by auto
qed

lemma taint_loop_store:
  "taint_loop (updateSliceDevices K) m effect ss tainted w = ((tainted', None), w') \<Longrightarrow>
   distinct (map sl_Name ss) \<Longrightarrow> \<forall>s\<in>set ss. slices w (sl_Name s) = Some s \<and> gated gate s = s \<Longrightarrow>
   nodes w' = nodes w \<and> hypers w' = hypers w \<and>
   (\<forall>s\<in>set ss. slices w' (sl_Name s) = Some (taint_slice m effect s)) \<and>
   (\<forall>n. n \<notin> sl_Name ` set ss \<longrightarrow> slices w' n = slices w n)"
proof (induction ss arbitrary: tainted w)
  case (Cons s ss)
  let ?ds = "ss_Devices (sl_Spec s)"
  let ?tainted = "fold (\<lambda>d. map_put (sd_Name d) True) (filter (matches m s) ?ds) tainted"
  have stored: "slices w (sl_Name s) = Some s" "gated gate s = s" using Cons.prems(3) by simp_all
  show ?case
  proof (cases "filter (matches m s) ?ds = []")
    case True
    then obtain t where "taint_loop (updateSliceDevices K) m effect ss t w = ((tainted', None), w')"
      using Cons.prems(1) by (auto simp: Let_def split: if_splits)
    from Cons.IH [OF this] Cons.prems(2,3) show ?thesis
      using stored taint_slice_untouched [OF True] by auto
  next
    case False
    then have nonempty: "?ds \<noteq> []" by auto
    let ?new = "map (\<lambda>d. if matches m s d then taint_device effect d else d) ?ds"
    obtain u w1 where u: "updateSliceDevices K (sl_Name s) ?new w = (u, w1)"
      by (cases "updateSliceDevices K (sl_Name s) ?new w")
    have upd: "touches slices (\<lambda>w. (nodes w, hypers w)) {sl_Name s} w w1"
      "u = Inr () \<longrightarrow> slices w1 (sl_Name s) = Some (taint_slice m effect s)"
      using updateSliceDevices_store [OF u stored(1)] gated_taint [OF stored(2), of m effect]
      by (simp_all add: taint_slice_def)
    have ok: "u = Inr ()" "taint_loop (updateSliceDevices K) m effect ss ?tainted w1 = ((tainted', None), w')"
      using Cons.prems(1) False nonempty by (cases u; simp add: Let_def u)+
    have "slices w1 (sl_Name x) = Some x \<and> gated gate x = x" if "x \<in> set ss" for x
    proof -
      have "sl_Name x \<noteq> sl_Name s" using Cons.prems(2) that by (auto simp: image_iff)
      then show ?thesis using Cons.prems(3) upd(1) that by (simp add: touches_def)
    qed
    then have "\<forall>x\<in>set ss. slices w1 (sl_Name x) = Some x \<and> gated gate x = x" by blast
    from Cons.IH [OF ok(2) _ this] Cons.prems(2) show ?thesis
      using upd ok(1) by (auto simp: touches_def)
  qed
qed simp

end

text \<open>
  C19. A fault breaks the hardware it names and nothing else. When \<open>TaintDevices\<close> succeeds, the
  stored slices are those of before with the taint appended to exactly the matching devices of
  gpu-sim's own slices, attributes, capacity, counters and the slices of other owners
  untouched, and no node has changed. It holds although each slice is written by a separate
  retried read, change and update.
\<close>

theorem TaintDevices_stored:
  assumes "kube_store K nodes slices hypers gate pause" "client_TaintDevices K m effect w = (Inr tainted, w')"
    and "\<forall>n s. slices w n = Some s \<longrightarrow> gated gate s = s"
  shows "nodes w' = nodes w \<and>
     slices w' = (\<lambda>n. map_option (\<lambda>s. if managed (sl_Labels s) then taint_slice m effect s else s) (slices w n))"
proof -
  have store: "object_store (ku_Slices K) slices (\<lambda>w. (nodes w, hypers w)) sl_Name sl_Labels (gated gate) (\<lambda>_. gated gate)"
    by (rule kube_store.axioms(2) [OF assms(1)])
  obtain l w1 where l: "ap_List (ku_Slices K) ManagedSelector w = (l, w1)" by (cases "ap_List (ku_Slices K) ManagedSelector w")
  note same = object_store.list [OF store l]
  obtain ss where ss: "l = Inr ss"
    using assms(2) by (cases l) (auto simp: client_TaintDevices_def l TaintDevices_def)
  note listed = object_store.listed [OF store l [unfolded ss]]
  have loop: "taint_loop (updateSliceDevices K) m effect ss [] w1 = ((tainted, None), w')"
    using assms(2) by (auto simp: client_TaintDevices_def l ss TaintDevices_def split: prod.splits option.splits)
  have "\<forall>s\<in>set ss. slices w1 (sl_Name s) = Some s \<and> gated gate s = s"
    using listed same assms(3) by auto
  from kube_store.taint_loop_store [OF assms(1) loop _ this] listed
  have after: "nodes w' = nodes w1" "\<forall>s\<in>set ss. slices w' (sl_Name s) = Some (taint_slice m effect s)"
    "\<forall>n. n \<notin> sl_Name ` set ss \<longrightarrow> slices w' n = slices w1 n" by auto
  have "slices w' n = map_option (\<lambda>s. if managed (sl_Labels s) then taint_slice m effect s else s) (slices w n)" for n
  proof (cases "\<exists>s. slices w n = Some s \<and> managed (sl_Labels s)")
    case True
    then obtain s where s: "slices w n = Some s" "managed (sl_Labels s)" by blast
    have "sl_Name s = n" by (rule object_store.keyed [OF store s(1)])
    then show ?thesis using s listed after(2) by auto
  next
    case False
    then have "n \<notin> sl_Name ` set ss" using listed by auto
    then show ?thesis using False after(3) same by (cases "slices w n") auto
  qed
  then show ?thesis using after(1) same by auto
qed

end
