(* ===== verification/ClusterClient.thy ===== *)
theory ClusterClient
  imports ClusterWorkloads
begin

text \<open>
  The real client under the runner. When the API's requests, the retries and the clock obey
  the laws of time, so does every method of \<open>cluster_client\<close>: each returns, and none turns
  the clock back. That is the interface internal/runner relies on (\<open>timed_client\<close>), so its
  properties hold of a run against the API server.
\<close>

subsection \<open>Requests that do not turn the clock back\<close>

definition onward :: "('w \<Rightarrow> int) \<Rightarrow> ('w \<Rightarrow> 'a \<times> 'w) \<Rightarrow> bool" where
  "onward time f \<longleftrightarrow> (\<forall>w r w'. f w = (r, w') \<longrightarrow> time w \<le> time w')"

named_theorems onward_rules \<open>how requests compose\<close>

lemma onwardD: "onward time f \<Longrightarrow> f w = (r, w') \<Longrightarrow> time w \<le> time w'"
  by (simp add: onward_def)

lemma onward_return [onward_rules]: "onward time (\<lambda>w. (x, w))"
  by (simp add: onward_def)

lemma onward_then [onward_rules]:
  assumes "onward time f" "\<And>r. onward time (g r)"
  shows "onward time (\<lambda>w. case f w of (r, w) \<Rightarrow> g r w)"
  unfolding onward_def
proof (intro allI impI)
  fix w r w'
  assume *: "(case f w of (r, w) \<Rightarrow> g r w) = (r, w')"
  obtain q v where q: "f w = (q, v)" by (cases "f w")
  then have "g q v = (r, w')" using * by simp
  then show "time w \<le> time w'" using onwardD [OF assms(1) q] onwardD [OF assms(2)] by force
qed

lemma onward_sum [onward_rules]:
  "(\<And>e. x = Inl e \<Longrightarrow> onward time (m e)) \<Longrightarrow> (\<And>a. x = Inr a \<Longrightarrow> onward time (n a)) \<Longrightarrow>
   onward time (\<lambda>w. case x of Inl e \<Rightarrow> m e w | Inr a \<Rightarrow> n a w)"
  by (cases x) simp_all

lemma onward_option [onward_rules]:
  "(x = None \<Longrightarrow> onward time m) \<Longrightarrow> (\<And>a. x = Some a \<Longrightarrow> onward time (n a)) \<Longrightarrow>
   onward time (\<lambda>w. case x of None \<Rightarrow> m w | Some a \<Rightarrow> n a w)"
  by (cases x) simp_all

lemma onward_pair [onward_rules]:
  "(\<And>a b. x = (a, b) \<Longrightarrow> onward time (m a b)) \<Longrightarrow> onward time (\<lambda>w. case x of (a, b) \<Rightarrow> m a b w)"
  by (cases x) simp

lemma onward_if [onward_rules]:
  "(b \<Longrightarrow> onward time m) \<Longrightarrow> (\<not> b \<Longrightarrow> onward time n) \<Longrightarrow> onward time (\<lambda>w. if b then m w else n w)"
  by (cases b) simp_all

lemma onward_case_step [onward_rules]:
  "(x = Reading \<Longrightarrow> onward time l) \<Longrightarrow> (x = Creating \<Longrightarrow> onward time m) \<Longrightarrow> (x = Updating \<Longrightarrow> onward time n) \<Longrightarrow>
   onward time (\<lambda>w. case x of Reading \<Rightarrow> l w | Creating \<Rightarrow> m w | Updating \<Rightarrow> n w)"
  by (cases x) simp_all

lemma onward_eq: "(\<And>w. f w = g w) \<Longrightarrow> onward time g \<Longrightarrow> onward time f"
  by (simp add: onward_def)

lemma onward_in_context [onward_rules]: "onward time f \<Longrightarrow> onward time (\<lambda>w. in_context ctx (f w))"
  by (auto simp: onward_def elim!: in_context.elims)

lemma onward_in_text [onward_rules]: "onward time f \<Longrightarrow> onward time (\<lambda>w. in_text ctx (f w))"
  by (auto simp: onward_def elim!: in_text.elims)

lemma onward_tolerate [onward_rules]: "onward time f \<Longrightarrow> onward time (\<lambda>w. tolerate ok ctx (f w))"
  by (auto simp: onward_def tolerate_def split: prod.splits sum.splits)

lemma onward_for_each:
  assumes "\<And>x. onward time (f x)"
  shows "onward time (for_each f xs)"
proof (induction xs)
  case Nil
  show ?case by (rule onward_eq [OF for_each.simps(1)]) (rule onward_return)
next
  case (Cons x xs)
  show ?case by (rule onward_eq [OF for_each.simps(2)]) (intro onward_rules assms Cons)
qed

lemma onward_delete_loop:
  assumes "\<And>n. onward time (del n)"
  shows "onward time (delete_loop del lenient ns removed)"
proof (induction ns arbitrary: removed)
  case Nil
  show ?case by (rule onward_eq [OF delete_loop.simps(1)]) (rule onward_return)
next
  case (Cons n ns)
  show ?case by (rule onward_eq [OF delete_loop.simps(2)]) (intro onward_rules assms Cons)
qed

lemma onward_taint_loop:
  assumes "\<And>n ds. onward time (upd n ds)"
  shows "onward time (taint_loop upd m effect ss tainted)"
proof (induction ss arbitrary: tainted)
  case Nil
  show ?case by (rule onward_eq [OF taint_loop.simps(1)]) (rule onward_return)
next
  case (Cons s ss)
  show ?case
    by (rule onward_eq [OF taint_loop.simps(2)], unfold Let_def) (intro onward_rules assms Cons)
qed

lemma onward_TaintDevices:
  assumes "\<And>n ds. onward time (upd n ds)"
  shows "onward time (TaintDevices upd listed m effect)"
  by (rule onward_eq [OF TaintDevices_def]) (intro onward_rules onward_taint_loop assms)

text \<open>A kind of object all of whose requests go forward in time.\<close>

definition timed_api :: "('w \<Rightarrow> int) \<Rightarrow> ('w, 'o) api \<Rightarrow> bool" where
  "timed_api time A \<longleftrightarrow>
     (\<forall>n. onward time (ap_Get A n)) \<and> (\<forall>x. onward time (ap_Create A x)) \<and>
     (\<forall>v x. onward time (ap_Update A v x)) \<and> (\<forall>v x. onward time (ap_UpdateStatus A v x)) \<and>
     (\<forall>n. onward time (ap_Delete A n)) \<and> onward time (ap_DeleteCollection A) \<and>
     (\<forall>sel. onward time (ap_List A sel))"

lemma timed_apiD [onward_rules]:
  "timed_api time A \<Longrightarrow> onward time (ap_Get A n)" "timed_api time A \<Longrightarrow> onward time (ap_Create A x)"
  "timed_api time A \<Longrightarrow> onward time (ap_Update A v x)" "timed_api time A \<Longrightarrow> onward time (ap_UpdateStatus A v x)"
  "timed_api time A \<Longrightarrow> onward time (ap_Delete A n)" "timed_api time A \<Longrightarrow> onward time (ap_DeleteCollection A)"
  "timed_api time A \<Longrightarrow> onward time (ap_List A sel)"
  by (simp_all add: timed_api_def)

lemma onward_write_object [onward_rules]: "timed_api time A \<Longrightarrow> onward time (write_object A n x change)"
  by (rule onward_eq [OF write_object_def]) (intro onward_rules)

lemma onward_write_attempt: "timed_api time A \<Longrightarrow> onward time (write_attempt A n x change)"
  by (rule onward_eq [OF write_attempt_def]) (intro onward_rules)

lemma onward_prune_kind [onward_rules]: "timed_api time A \<Longrightarrow> onward time (prune_kind A key keep lenient)"
  by (rule onward_eq [OF prune_kind_def]) (intro onward_rules onward_delete_loop)

lemma onward_create_optional [onward_rules]: "timed_api time A \<Longrightarrow> onward time (create_optional A ok ctx obj)"
  by (rule onward_eq [OF create_optional_def]) (intro onward_rules)

text \<open>Expanding a valid topology returns, with an error if a profile cannot be loaded.\<close>

lemma Resolve_returns:
  assumes "Validate ct = []" "\<And>name p. load name = Inr p \<Longrightarrow> gp_Devices p \<noteq> []"
  shows "\<exists>res. Resolve uuid load ct = Some res"
proof (cases "load_profiles load (pools ct) []")
  case (Inl e)
  then show ?thesis by (simp add: Resolve_def)
next
  case (Inr m)
  from load_profiles_loaded [OF this]
  have "loads load (\<lambda>name. case load name of Inr p \<Rightarrow> p | Inl _ \<Rightarrow> undefined) ct"
    unfolding loads_def using assms(2) by fastforce
  then show ?thesis using Resolve_eq assms(1) by (auto simp: Validate_wf)
qed

lemma Load_resolves:
  assumes "Load (ku_ReadFile K) (ku_TopologyYAML K) path = Inr ct"
  shows "\<exists>res. Resolve uuid (LoadProfile K namespace w) ct = Some res"
proof (rule Resolve_returns)
  show "Validate ct = []" using assms by (auto simp: Load_def split: sum.splits if_splits)
  show "gp_Devices p \<noteq> []" if "LoadProfile K namespace w name = Inr p" for name p
    using that by (rule LoadProfile_devices)
qed

subsection \<open>The laws of time\<close>

locale timed_kube = clock time "ku_Now K" "ku_After K"
  for time :: "'w \<Rightarrow> int" and K :: "'w kube" +
  fixes rc :: counter_order and rp :: profile_order
  assumes cluster_requests: "timed_api time (ku_Nodes K)" "timed_api time (ku_Slices K)" "timed_api time (ku_Topologies K)"
      "timed_api time (ku_HyperNodes K)" "timed_api time (ku_DeviceClasses K)" "timed_api time (ku_Namespaces K)"
    and namespaced_requests: "timed_api time (ku_Deployments K ns)" "timed_api time (ku_Jobs K ns)" "timed_api time (ku_Pods K ns)"
      "timed_api time (ku_ClaimTemplates K ns)" "timed_api time (ku_Claims K ns)" "timed_api time (ku_PodGroups K ns)"
      "timed_api time (ku_VolcanoPodGroups K ns)"
    and dry_run_onward: "onward time (ku_DryRunSlice K s)"
    and retry_onward: "onward time fn \<Longrightarrow> onward time (ku_Retry K fn)"
    and progress_onward: "time w \<le> time (ku_Progress K line w)"
    and published_sizes: "ap_List (ku_Slices K) ManagedSelector w = (Inr ss, w') \<Longrightarrow> sized_slices rc ss"
    and profile_order: "reorders rp"
begin

lemma onward_now [onward_rules]: "onward time (ku_Now K)"
  using now_mono by (auto simp: onward_def)

lemmas requests = onward_rules cluster_requests namespaced_requests dry_run_onward retry_onward

lemma onward_ApplyNode: "onward time (ApplyNode K x)"
  by (rule onward_eq [OF ApplyNode_def])
    (intro requests onward_write_attempt onward_eq [OF status_attempt_def])

lemma onward_ApplyResourceSlice: "onward time (ApplyResourceSlice K s)"
  by (rule onward_eq [OF ApplyResourceSlice_def]) (intro requests onward_write_attempt)

lemma onward_ApplyKAITopology: "onward time (ApplyKAITopology K topo)"
  by (rule onward_eq [OF ApplyKAITopology_def]) (intro requests)

lemma onward_ApplyMIGDeviceClass: "onward time (ApplyMIGDeviceClass K)"
  by (rule onward_eq [OF ApplyMIGDeviceClass_def]) (intro requests)

lemma onward_hyper_loop: "onward time (hyper_loop K hns)"
proof (induction hns)
  case Nil
  show ?case by (rule onward_eq [OF hyper_loop.simps(1)]) (rule onward_return)
next
  case (Cons hn hns)
  show ?case by (rule onward_eq [OF hyper_loop.simps(2)]) (intro requests Cons)
qed

lemma onward_bool: "(b \<Longrightarrow> onward time m) \<Longrightarrow> (\<not> b \<Longrightarrow> onward time n) \<Longrightarrow>
    onward time (\<lambda>w. case b of True \<Rightarrow> m w | False \<Rightarrow> n w)"
  by (cases b) simp_all

lemma onward_applyHyperNodes: "onward time (applyHyperNodes K r)"
  by (rule onward_eq [OF applyHyperNodes_def], unfold Let_def)
    (intro requests onward_hyper_loop onward_bool)

lemma onward_Prune: "onward time (Prune K keepNodes keepSlices)"
  by (rule onward_eq [OF Prune_def], unfold Let_def) (intro requests)

lemma onward_CheckPartitionableDevices: "onward time (CheckPartitionableDevices K n)"
  by (rule onward_eq [OF CheckPartitionableDevices_def]) (intro requests)

lemma onward_publish_slices: "onward time (publish_slices K r ss)"
  by (rule onward_eq [OF publish_slices_def])
    (intro requests onward_for_each onward_ApplyResourceSlice onward_ApplyMIGDeviceClass onward_ApplyKAITopology
      onward_applyHyperNodes)

lemma forward_onward: "onward time f \<Longrightarrow> forward time (\<lambda>w. Some (f w))"
  by (metis forward_def onwardD surj_pair)

lemma forward_after_onward:
  "onward time f \<Longrightarrow> (\<And>r. forward time (g r)) \<Longrightarrow> forward time (\<lambda>w. case f w of (r, w) \<Rightarrow> g r w)"
  by (rule forward_first) (auto simp: onward_def)

lemma forward_publish:
  assumes "resolvedHasMIG r \<longrightarrow> rs_Nodes r \<noteq> []"
  shows "forward time (publish K r)"
proof -
  obtain ss where ss: "ResourceSlices r = Some ss" using ResourceSlices_eq by blast
  have probe: "forward time (\<lambda>w. if resolvedHasMIG r
      then (case Nodes r of [] \<Rightarrow> None | n # _ \<Rightarrow> Some (CheckPartitionableDevices K (kn_Name n) w)) else Some (Inr (), w))"
    using assms forward_onward [OF onward_CheckPartitionableDevices] forward_return
    by (cases "Nodes r"; cases "resolvedHasMIG r") (auto simp: Nodes_def)
  show ?thesis
    by (rule forward_eq [OF publish_def], simp only: ss option.case bind.bind_lunit)
      (intro forward_after_onward onward_for_each onward_ApplyNode forward_sum forward_return forward_bind probe
        forward_onward onward_rules onward_publish_slices)
qed

lemma forward_ApplyTopology: "forward time (ApplyTopology K namespace path)"
proof -
  have "\<exists>q w'. ApplyTopology K namespace path w = Some (q, w') \<and> time w \<le> time w'" for w
  proof (cases "Load (ku_ReadFile K) (ku_TopologyYAML K) path")
    case (Inl e)
    then show ?thesis by (simp add: ApplyTopology_def)
  next
    case (Inr ct)
    from Load_resolves [OF this] obtain res where
      res: "Resolve (ku_UUID K) (LoadProfile K namespace w) ct = Some res" by blast
    show ?thesis
    proof (cases res)
      case (Inl e)
      then show ?thesis using Inr res by (simp add: ApplyTopology_def)
    next
      case (Inr r)
      have "forward time (\<lambda>w. publish K r w \<bind> (\<lambda>(published, w). Some (case published of
                  Inl e \<Rightarrow> (Inl e, w)
                | Inr ss \<Rightarrow>
                    (case Prune K (keep_all (map kn_Name (Nodes r))) (keep_all (map sl_Name ss)) w of
                       ((_, Some e), w) \<Rightarrow> (Inl e, w)
                     | ((removed, None), w) \<Rightarrow>
                         (Inr \<lparr>tr_Name = rs_Name r, tr_Nodes = int (length (Nodes r)), tr_Slices = int (length ss),
                            tr_Devices = sum_list (map (\<lambda>s. int (length (ss_Devices (sl_Spec s)))) ss),
                            tr_Removed = removed\<rparr>, w)))))"
        by (intro forward_bind forward_publish forward_onward onward_rules onward_Prune)
          (auto simp: resolvedHasMIG_def)
      from forwardD [OF this, of w] show ?thesis
        using \<open>Load _ _ _ = _\<close> res Inr by (simp add: ApplyTopology_def)
    qed
  qed
  then show ?thesis by (simp add: forward_def)
qed

lemma onward_WorkloadPods: "onward time (WorkloadPods K ns name)"
  by (rule onward_eq [OF WorkloadPods_def]) (intro requests)

lemma onward_AllPods: "onward time (AllPods K ns)"
  by (rule onward_eq [OF AllPods_def]) (intro requests)

lemmas observations = requests onward_WorkloadPods onward_AllPods

text \<open>The wait for a retired workload's pods is a polling loop that gives up without an error.\<close>

lemma retire_polls:
  "retire_loop K ns name deadline w =
     (case Some (case WorkloadPods K ns name w of
          (Inl e, w) \<Rightarrow> (Inr (Inl e), w)
        | (Inr pods, w) \<Rightarrow> (if pods = [] then Inr (Inr ()) else Inl (), w)) of
        None \<Rightarrow> None
      | Some (Inr r, w1) \<Rightarrow> Some (r, w1)
      | Some (Inl e, w1) \<Rightarrow> (case ku_Now K w1 of (t, w2) \<Rightarrow>
           if t > deadline then Some (Inr (), w2) else
           (case ku_After K Second w2 of (Inl c, w3) \<Rightarrow> Some (Inl c, w3)
            | (Inr _, w3) \<Rightarrow> retire_loop K ns name deadline w3)))"
proof -
  obtain q w1 where "WorkloadPods K ns name w = (q, w1)" by (cases "WorkloadPods K ns name w")
  then show ?thesis by (subst retire_loop.simps) (cases q; simp)
qed

lemma retire_loop_result:
  "\<exists>r w'. retire_loop K ns name deadline w = Some (r, w') \<and> time w \<le> time w' \<and>
     (r = Inr () \<longrightarrow> (\<exists>w1. WorkloadPods K ns name w1 = (Inr [], w') \<and> time w \<le> time w1) \<or> deadline < time w')"
proof -
  let ?poll = "\<lambda>w. Some (case WorkloadPods K ns name w of
          (Inl e, w) \<Rightarrow> (Inr (Inl e), w)
        | (Inr pods, w) \<Rightarrow> (if pods = [] then Inr (Inr ()) else Inl (), w))"
  have polls: "forward time ?poll"
    by (intro forward_onward) (intro observations)
  have pos: "0 < Second" by (simp add: Second_def)
  obtain r w' where "retire_loop K ns name deadline w = Some (r, w')" "time w \<le> time w'"
    "(\<exists>w1. ?poll w1 = Some (Inr r, w') \<and> time w \<le> time w1) \<or>
     (\<exists>w1 w2 e. ?poll w1 = Some (Inl e, w2) \<and> r = Inr () \<and> time w \<le> time w1 \<and> deadline < time w') \<or>
     (\<exists>c v v'. r = Inl c \<and> ku_After K Second v = (Inl c, v'))"
    using polling_result [where loop = "retire_loop K ns name deadline" and attempt = ?poll and deadline = deadline
      and give_up = "\<lambda>_. Inr ()" and cancelled = Inl and d = Second and w = w, OF retire_polls polls pos] by blast
  moreover have "WorkloadPods K ns name w1 = (Inr [], w')" if "?poll w1 = Some (Inr (Inr ()), w')" for w1
    using that by (cases "WorkloadPods K ns name w1") (auto split: sum.splits if_splits)
  ultimately show ?thesis by (intro exI [of _ r] exI [of _ w']) blast
qed

lemma onward_EnsureNamespace: "onward time (EnsureNamespace K ns)"
  by (rule onward_eq [OF EnsureNamespace_def]) (intro observations)

lemma onward_ClearNamespace: "onward time (ClearNamespace K ns)"
  by (rule onward_eq [OF ClearNamespace_def]) (intro observations)

lemma onward_Submit: "onward time (Submit K ns objs)"
  by (rule onward_eq [OF Submit_def]) (intro observations)

lemma onward_NodeLabel: "onward time (NodeLabel K node label)"
  by (rule onward_eq [OF NodeLabel_def]) (intro observations)

lemma onward_AllocatedDevices: "onward time (client_AllocatedDevices K ns name)"
  by (rule onward_eq [OF client_AllocatedDevices_def]) (intro observations)

lemma onward_DeviceAttributes: "onward time (client_DeviceAttributes K)"
  by (rule onward_eq [OF client_DeviceAttributes_def]) (intro observations)

lemma onward_SchedulerReasons: "onward time (client_SchedulerReasons K ns name)"
  by (rule onward_eq [OF client_SchedulerReasons_def]) (intro observations)

lemma onward_SnapshotPods: "onward time (client_SnapshotPods K ns)"
  by (rule onward_eq [OF client_SnapshotPods_def]) (intro observations)

lemma onward_NodesWithLabel: "onward time (client_NodesWithLabel K label v)"
  by (rule onward_eq [OF client_NodesWithLabel_def]) (intro observations)

lemma onward_updateSliceDevices: "onward time (updateSliceDevices K name ds)"
  by (rule onward_eq [OF updateSliceDevices_def]) (intro observations onward_eq [OF update_attempt_def])

lemma onward_client_TaintDevices: "onward time (client_TaintDevices K m effect)"
  by (rule onward_eq [OF client_TaintDevices_def])
    (intro observations onward_TaintDevices onward_updateSliceDevices)

lemma onward_DeleteNode: "onward time (DeleteNode K name)"
  by (rule onward_eq [OF DeleteNode_def]) (intro observations)

lemmas methods = onward_EnsureNamespace onward_ClearNamespace onward_Submit onward_NodeLabel
  onward_AllocatedDevices onward_DeviceAttributes onward_SchedulerReasons onward_SnapshotPods
  onward_NodesWithLabel onward_client_TaintDevices onward_DeleteNode onward_WorkloadPods onward_AllPods

lemma forward_Retire: "forward time (Retire K ns name)"
proof -
  have "forward time (retire_loop K ns name deadline)" for deadline
    unfolding forward_def using retire_loop_result by meson
  then show ?thesis
    by (intro forward_eq [OF Retire_def] forward_after_onward forward_sum forward_return observations)
qed

lemma forward_client_Fragmentation: "forward time (client_Fragmentation K rc rp)"
proof -
  have "\<exists>q w'. client_Fragmentation K rc rp w = Some (q, w') \<and> time w \<le> time w'" for w
  proof -
    obtain l w1 where l: "ap_List (ku_Slices K) ManagedSelector w = (l, w1)" by (cases "ap_List (ku_Slices K) ManagedSelector w")
    obtain c w2 where c: "ap_List (ku_Claims K []) None w1 = (c, w2)" by (cases "ap_List (ku_Claims K []) None w1")
    have mono: "time w \<le> time w1" "time w1 \<le> time w2"
      using l c cluster_requests(2) namespaced_requests(5) by (auto simp: timed_api_def onward_def)
    show ?thesis
    proof (cases l)
      case (Inr ss)
      then have "sized_slices rc ss" using published_sizes l by blast
      then obtain q where "Fragmentation rc rp (Inr ss) (case c of Inl e \<Rightarrow> Inl (api_text e) | Inr cs \<Rightarrow> Inr cs) = Some q"
        using Fragmentation_returns profile_order by blast
      then show ?thesis using mono by (simp add: client_Fragmentation_def l c Inr)
    qed (use mono in \<open>simp add: client_Fragmentation_def l\<close>)
  qed
  then show ?thesis by (simp add: forward_def)
qed

end

text \<open>The client model keeps the runner's interface.\<close>

sublocale timed_kube \<subseteq> client: timed_client time "cluster_client K namespace rc rp"
  by unfold_locales
    (auto simp: cluster_client_def now_reads after_waits after_mono progress_onward
      intro: forward_onward methods forward_ApplyTopology forward_Retire forward_client_Fragmentation)

context timed_kube
begin

lemma cluster_client_timed: "timed_client time (cluster_client K namespace rc rp)"
  by (rule client.timed_client_axioms)

end

subsection \<open>Properties\<close>

text \<open>
  C9. A scenario run against a cluster ends and reports, under two conditions on the cluster. Its
  requests, whether they succeed or fail, return and do not turn the clock back; and
  whenever it lists gpu-sim's slices, each device there that draws on counters draws at least one memory slice and
  some SM slices (as published partitions do; the fragmentation report divides by these sizes
  and panics on a zero, so such an answer is excluded). Nothing else is asked of its answers. Composing the
  runner with the real client, running a scenario the parser accepts then returns a result: none of the
  loops (applying, pruning, draining the namespace, the timeline, the wait of a retirement,
  each assertion) goes on forever and no step panics; the duration reported is not
  negative and no longer than the run took.
\<close>

theorem Run_on_cluster_reports:
  assumes "timed_kube time K rc rp" "Validate_scenario s = []"
  shows "\<exists>res w'. Run (cluster_client K namespace rc rp) s w = Some (res, w') \<and>
     0 \<le> rr_Duration res \<and> rr_Duration res \<le> time w' - time w"
  by (rule Run_always_reports [OF timed_kube.cluster_client_timed [OF assms(1)] assms(2)])

text \<open>The request removed the object, or found none.\<close>

definition absent :: "api_error + unit \<Rightarrow> bool" where
  "absent r \<longleftrightarrow> (case r of Inl e \<Rightarrow> isNotFound e | Inr _ \<Rightarrow> True)"

text \<open>
  C31. What a successful retirement has waited for. \<open>Retire\<close> always returns; when it reports no
  error the workload's Deployment and Job are deleted, and either the last look found none of
  its pods left, or more than 60 seconds went by since the deletions. In the second case it
  returns without an error although pods, and the partitions they hold, may still be there.
\<close>

theorem Retire_waits:
  assumes "timed_kube time K rc rp"
  shows "\<exists>r w'. Retire K ns name w = Some (r, w') \<and>
     (r = Inr () \<longrightarrow> (\<exists>d1 v1 d2 v2. ap_Delete (ku_Deployments K ns) name w = (d1, v1) \<and> absent d1 \<and>
        ap_Delete (ku_Jobs K ns) name v1 = (d2, v2) \<and> absent d2 \<and>
        ((\<exists>v3. time v2 \<le> time v3 \<and> WorkloadPods K ns name v3 = (Inr [], w')) \<or> time v2 + 60 * Second < time w')))"
proof -
  obtain d1 v1 where d1: "ap_Delete (ku_Deployments K ns) name w = (d1, v1)" by (cases "ap_Delete (ku_Deployments K ns) name w")
  obtain d2 v2 where d2: "ap_Delete (ku_Jobs K ns) name v1 = (d2, v2)" by (cases "ap_Delete (ku_Jobs K ns) name v1")
  obtain d3 v3 where d3: "ap_Delete (ku_VolcanoPodGroups K ns) name v2 = (d3, v3)" by (cases "ap_Delete (ku_VolcanoPodGroups K ns) name v2")
  obtain t v4 where t: "ku_Now K v3 = (t, v4)" by (cases "ku_Now K v3")
  have "time v2 \<le> time v3"
    using timed_kube.namespaced_requests(7) [OF assms] d3 by (auto simp: timed_api_def onward_def)
  moreover have "time v3 \<le> t" "t \<le> time v4" using clock.now_reads [OF timed_kube.axioms(1) [OF assms] t] by auto
  moreover obtain r w' where loop: "retire_loop K ns name (t + 60 * Second) v4 = Some (r, w')"
    "r = Inr () \<longrightarrow> (\<exists>w1. WorkloadPods K ns name w1 = (Inr [], w') \<and> time v4 \<le> time w1) \<or> t + 60 * Second < time w'"
    using timed_kube.retire_loop_result [OF assms] by blast
  ultimately have "time v2 \<le> time v4" "time v2 + 60 * Second \<le> t + 60 * Second" by simp_all
  then have waited: "r = Inr () \<longrightarrow>
      (\<exists>v3. time v2 \<le> time v3 \<and> WorkloadPods K ns name v3 = (Inr [], w')) \<or> time v2 + 60 * Second < time w'"
    using loop(2) by (meson order_trans order_le_less_trans)
  show ?thesis
  proof (cases "absent d1 \<and> absent d2")
    case True
    then have "Retire K ns name w = Some (r, w')"
      by (auto simp: Retire_def tolerate_def d1 d2 d3 t loop(1) absent_def split: sum.splits)
    then show ?thesis using waited True d1 d2 by blast
  next
    case False
    then have "\<exists>e w'. Retire K ns name w = Some (Inl e, w')"
      by (auto simp: Retire_def tolerate_def d1 d2 absent_def split: sum.splits)
    then show ?thesis by blast
  qed
qed

end
