(* ===== verification/ApiServer.thy ===== *)
theory ApiServer
  imports ClusterClient
begin

text \<open>
  An in-memory API server that keeps the laws of \<open>KubeApi\<close>, \<open>ClusterApply\<close> and
  \<open>ClusterClient\<close>: one table per kind, no controllers, no failures. The locales of those
  theories are interpreted on it with the program's own operations, which shows the laws can
  hold together, and the witnesses of their properties run on it.
\<close>

subsection \<open>Tables\<close>

text \<open>A table is the list of a kind's objects; the first one of a name counts.\<close>

definition lookup :: "('o \<Rightarrow> string) \<Rightarrow> 'o list \<Rightarrow> string \<Rightarrow> 'o option" where
  "lookup key t n = find (\<lambda>x. key x = n) t"

definition replace :: "('o \<Rightarrow> string) \<Rightarrow> 'o \<Rightarrow> 'o list \<Rightarrow> 'o list" where
  "replace key x t = x # filter (\<lambda>y. key y \<noteq> key x) t"

definition listing ::
    "('o \<Rightarrow> string) \<Rightarrow> ('o \<Rightarrow> (string \<times> string) list) \<Rightarrow> (string \<times> string) option \<Rightarrow> 'o list \<Rightarrow> 'o list" where
  "listing key labels sel t = filter (\<lambda>x. lookup key t (key x) = Some x \<and> selects sel (labels x)) (remdups t)"

lemma lookup_name: "lookup key t n = Some x \<Longrightarrow> key x = n"
  by (auto simp: lookup_def find_Some_iff)

lemma lookup_in: "lookup key t n = Some x \<Longrightarrow> x \<in> set t"
  by (auto simp: lookup_def find_Some_iff)

lemma lookup_replace: "lookup key (replace key x t) = (lookup key t)(key x \<mapsto> x)"
proof
  fix n
  have "find (\<lambda>y. key y = n) (filter (\<lambda>y. key y \<noteq> k) t) = find (\<lambda>y. key y = n) t" if "n \<noteq> k" for k
    using that by (induction t) auto
  then show "lookup key (replace key x t) n = ((lookup key t)(key x \<mapsto> x)) n"
    by (auto simp: lookup_def replace_def)
qed

lemma lookup_remove: "lookup key (filter (\<lambda>y. key y \<noteq> k) t) = (lookup key t)(k := None)"
proof
  fix n
  show "lookup key (filter (\<lambda>y. key y \<noteq> k) t) n = ((lookup key t)(k := None)) n"
    unfolding lookup_def by (induction t) auto
qed

lemma listing_iff: "x \<in> set (listing key labels sel t) \<longleftrightarrow> lookup key t (key x) = Some x \<and> selects sel (labels x)"
  by (auto simp: listing_def dest: lookup_in)

lemma listing_distinct: "distinct (map key (listing key labels sel t))"
proof -
  have "inj_on key (set (listing key labels sel t))"
  proof (rule inj_onI)
    fix x y
    assume "x \<in> set (listing key labels sel t)" "y \<in> set (listing key labels sel t)" "key x = key y"
    then have "Some x = Some y" by (simp only: listing_iff)
    then show "x = y" by simp
  qed
  then show ?thesis by (simp add: distinct_map listing_def)
qed

text \<open>
  The requests on a table the server keeps: \<open>tab\<close> and \<open>upd\<close> read and write it. An object that
  is not \<open>valid\<close> is refused.
\<close>

definition put_valid ::
    "(('o list \<Rightarrow> 'o list) \<Rightarrow> 's \<Rightarrow> 's) \<Rightarrow> ('o \<Rightarrow> string) \<Rightarrow> ('o \<Rightarrow> bool) \<Rightarrow> 'a \<Rightarrow> 'o \<Rightarrow> ('s, 'a) api_call" where
  "put_valid upd key valid r x s =
     (if valid x then (Inr r, upd (replace key x) s) else (Inl (Refused (key x)), s))"

definition table_api ::
    "('s \<Rightarrow> 'o list) \<Rightarrow> (('o list \<Rightarrow> 'o list) \<Rightarrow> 's \<Rightarrow> 's) \<Rightarrow> ('o \<Rightarrow> string) \<Rightarrow> ('o \<Rightarrow> (string \<times> string) list) \<Rightarrow>
     ('o \<Rightarrow> bool) \<Rightarrow> ('o \<Rightarrow> 'o) \<Rightarrow> ('o \<Rightarrow> 'o \<Rightarrow> 'o) \<Rightarrow> ('o \<Rightarrow> 'o \<Rightarrow> 'o) \<Rightarrow> ('s, 'o) api" where
  "table_api tab upd key labels valid admit merge status =
     \<lparr>ap_Get = (\<lambda>n s. (case lookup key (tab s) n of None \<Rightarrow> Inl (NotFound n) | Some x \<Rightarrow> Inr ([], x), s)),
      ap_Create = (\<lambda>x s. if lookup key (tab s) (key x) \<noteq> None then (Inl (AlreadyExists (key x)), s)
        else put_valid upd key valid (admit x) (admit x) s),
      ap_Update = (\<lambda>_ x s. case lookup key (tab s) (key x) of None \<Rightarrow> (Inl (NotFound (key x)), s)
        | Some old \<Rightarrow> put_valid upd key valid () (merge old x) s),
      ap_UpdateStatus = (\<lambda>_ x s. case lookup key (tab s) (key x) of None \<Rightarrow> (Inl (NotFound (key x)), s)
        | Some old \<Rightarrow> put_valid upd key valid () (status old x) s),
      ap_Delete = (\<lambda>n s. if lookup key (tab s) n = None then (Inl (NotFound n), s)
        else (Inr (), upd (filter (\<lambda>y. key y \<noteq> n)) s)),
      ap_DeleteCollection = (\<lambda>s. (Inr (), upd (\<lambda>_. []) s)),
      ap_List = (\<lambda>sel s. (Inr (listing key labels sel (tab s)), s))\<rparr>"

lemma put_valid_store:
  assumes lens: "\<And>f s. \<forall>y\<in>set (f (tab s)). valid y \<Longrightarrow> tab (upd f s) = f (tab s)"
      "\<And>f s. rest (upd f s) = rest s" "\<And>s. \<forall>y\<in>set (tab s). valid y"
    and put: "put_valid upd key valid r x s = (q, s')"
  shows "rest s' = rest s \<and> (lookup key (tab s') = (lookup key (tab s))(key x \<mapsto> x) \<or>
      lookup key (tab s') = lookup key (tab s) \<and> (\<exists>e. q = Inl e))"
proof (cases "valid x")
  case True
  then have "tab (upd (replace key x) s) = replace key x (tab s)"
    using lens(3) by (intro lens(1)) (auto simp: replace_def)
  then show ?thesis using put True by (auto simp: put_valid_def lens(2) lookup_replace)
qed (use put in \<open>auto simp: put_valid_def\<close>)

lemma table_store:
  assumes lens: "\<And>f s. \<forall>y\<in>set (f (tab s)). valid y \<Longrightarrow> tab (upd f s) = f (tab s)"
      "\<And>f s. rest (upd f s) = rest s" "\<And>s. \<forall>y\<in>set (tab s). valid y"
    and names: "\<And>x. key (admit x) = key x" "\<And>old x. key old = key x \<Longrightarrow> key (merge old x) = key x"
  shows "object_store (table_api tab upd key labels valid admit merge status) (\<lambda>s. lookup key (tab s)) rest key labels admit merge"
proof -
  let ?A = "table_api tab upd key labels valid admit merge status"
  note put = put_valid_store [where tab = tab and upd = upd and rest = rest and valid = valid, OF lens]
  have removed: "tab (upd (filter P) s) = filter P (tab s)" for P s
    using lens(3) by (intro lens(1)) auto
  show ?thesis
  proof
    show "lookup key (tab w) n = Some x \<Longrightarrow> key x = n" for w n x by (rule lookup_name)
  next
    fix w x old v u w'
    assume old: "lookup key (tab w) (key x) = Some old" and u: "ap_Update ?A v x w = (u, w')"
    then have "put_valid upd key valid () (merge old x) w = (u, w')" by (simp add: table_api_def)
    moreover have "key (merge old x) = key x" using names(2) lookup_name [OF old] by simp
    ultimately show "rest w' = rest w \<and> (lookup key (tab w') = (lookup key (tab w))(key x \<mapsto> merge old x) \<or>
        lookup key (tab w') = lookup key (tab w) \<and> (\<exists>e. u = Inl e))"
      using put by metis
  next
    fix w x c w'
    assume "ap_Create ?A x w = (c, w')"
    then show "rest w' = rest w \<and> (lookup key (tab w') = (lookup key (tab w))(key x \<mapsto> admit x) \<or>
        lookup key (tab w') = lookup key (tab w) \<and> (\<exists>e. c = Inl e))"
      using put [of key "admit x" "admit x" w c w'] names(1) by (auto simp: table_api_def split: if_splits)
  qed (auto simp: table_api_def lens(2) removed lookup_remove listing_distinct listing_iff
      split: if_splits option.splits)
qed

lemma table_timed:
  assumes "\<And>f s. time (upd f s) = time s"
  shows "timed_api time (table_api tab upd key labels valid admit merge status)"
  by (auto simp: timed_api_def onward_def table_api_def put_valid_def assms split: option.splits if_splits)

subsection \<open>The server\<close>

record server =
  sv_clock :: int
  sv_nodes :: "kube_node list"
  sv_slices :: "resource_slice list"
  sv_hypers :: "hyper_node list"
  sv_topologies :: "kai_topology list"
  sv_classes :: "device_class list"
  sv_namespaces :: "string list"
  sv_deployments :: "deployment_object list"
  sv_jobs :: "job_object list"
  sv_pods :: "pod list"
  sv_templates :: "claim_template list"
  sv_claims :: "resource_claim list"
  sv_groups :: "pod_group list"
  sv_volcano :: "volcano_pod_group list"

text \<open>\<open>retry.DefaultRetry\<close> makes five attempts.\<close>

fun retry_steps :: "nat \<Rightarrow> ('w, unit) api_call \<Rightarrow> ('w, unit) api_call" where
  "retry_steps 0 fn w = fn w"
| "retry_steps (Suc n) fn w = (case fn w of (Inl (Conflict s), w1) \<Rightarrow> retry_steps n fn w1 | (r, w1) \<Rightarrow> (r, w1))"

lemma retry_steps_attempts: "retry_steps n fn w = (r, w') \<Longrightarrow> attempts (=) fn w r w'"
proof (induction n arbitrary: w)
  case 0
  then show ?case by (simp add: attempts.last)
next
  case (Suc n)
  obtain q w1 where q: "fn w = (q, w1)" by (cases "fn w")
  show ?case
  proof (cases "\<exists>s. q = Inl (Conflict s)")
    case True
    then show ?thesis using Suc q by (auto intro: attempts.again)
  next
    case False
    then have "r = q \<and> w' = w1" using Suc.prems q by (auto split: sum.splits api_error.splits)
    then show ?thesis using q by (simp add: attempts.last)
  qed
qed

lemma retry_steps_onward: "onward time fn \<Longrightarrow> onward time (retry_steps n fn)"
proof (induction n)
  case 0
  then show ?case by (simp add: onward_def)
next
  case (Suc n)
  then show ?case
    by (fastforce simp: onward_def split: prod.splits sum.splits api_error.splits)
qed

abbreviation keep_new :: "'o \<Rightarrow> 'o \<Rightarrow> 'o" where
  "keep_new \<equiv> \<lambda>_ x. x"

text \<open>
  A server with or without the feature gate, holding one file and one GPU profile; the YAML
  decoders are the functions given. It refuses slices with devices of no size, whichever way
  their counters are visited.
\<close>

abbreviation anything :: "'o \<Rightarrow> bool" where
  "anything \<equiv> \<lambda>_. True"

abbreviation no_labels :: "'o \<Rightarrow> (string \<times> string) list" where
  "no_labels \<equiv> \<lambda>_. []"

definition admissible :: "counter_order \<Rightarrow> resource_slice \<Rightarrow> bool" where
  "admissible rc s \<longleftrightarrow> sized_slices rc [s]"

definition admitted :: "counter_order \<Rightarrow> server \<Rightarrow> resource_slice list" where
  "admitted rc s = filter (admissible rc) (sv_slices s)"

definition admitted_update ::
    "counter_order \<Rightarrow> (resource_slice list \<Rightarrow> resource_slice list) \<Rightarrow> server \<Rightarrow> server" where
  "admitted_update rc f s = s\<lparr>sv_slices := f (admitted rc s)\<rparr>"

definition server_kube ::
    "bool \<Rightarrow> counter_order \<Rightarrow> (string \<Rightarrow> string + cluster_topology) \<Rightarrow> (string \<Rightarrow> string + gpu_profile) \<Rightarrow> server kube" where
  "server_kube gate rc topologyYAML profileYAML =
     \<lparr>ku_Nodes = table_api sv_nodes sv_nodes_update kn_Name kn_Labels anything without_status
        (\<lambda>old x. describe_as x old) (\<lambda>old x. status_as x old),
      ku_Slices = table_api (admitted rc) (admitted_update rc) sl_Name sl_Labels (admissible rc) (gated gate) (\<lambda>_. gated gate) keep_new,
      ku_DryRunSlice = (\<lambda>x s. (Inr (gated gate x), s)),
      ku_Topologies = table_api sv_topologies sv_topologies_update kt_Name no_labels anything (\<lambda>x. x) keep_new keep_new,
      ku_HyperNodes = table_api sv_hypers sv_hypers_update hn_Name hn_Labels anything (\<lambda>x. x) keep_new keep_new,
      ku_DeviceClasses = table_api sv_classes sv_classes_update dc_Name no_labels anything (\<lambda>x. x) keep_new keep_new,
      ku_Namespaces = table_api sv_namespaces sv_namespaces_update (\<lambda>x. x) no_labels anything (\<lambda>x. x) keep_new keep_new,
      ku_Deployments = (\<lambda>_. table_api sv_deployments sv_deployments_update dp_Name no_labels anything (\<lambda>x. x) keep_new keep_new),
      ku_Jobs = (\<lambda>_. table_api sv_jobs sv_jobs_update jb_Name no_labels anything (\<lambda>x. x) keep_new keep_new),
      ku_Pods = (\<lambda>_. table_api sv_pods sv_pods_update pd_Name pd_Labels anything (\<lambda>x. x) keep_new keep_new),
      ku_ClaimTemplates = (\<lambda>_. table_api sv_templates sv_templates_update tm_Name no_labels anything (\<lambda>x. x) keep_new keep_new),
      ku_Claims = (\<lambda>_. table_api sv_claims sv_claims_update cl_Name no_labels anything (\<lambda>x. x) keep_new keep_new),
      ku_PodGroups = (\<lambda>_. table_api sv_groups sv_groups_update gr_Name no_labels anything (\<lambda>x. x) keep_new keep_new),
      ku_VolcanoPodGroups = (\<lambda>_. table_api sv_volcano sv_volcano_update vg_Name no_labels anything (\<lambda>x. x) keep_new keep_new),
      ku_ConfigMap = (\<lambda>_ n _. Inr \<lparr>cm_Name = n, cm_Data = [(profileKey, n)]\<rparr>),
      ku_Retry = retry_steps 4,
      ku_Now = (\<lambda>s. (sv_clock s, s)),
      ku_After = (\<lambda>d s. (Inr (), s\<lparr>sv_clock := sv_clock s + max 0 d\<rparr>)),
      ku_Progress = (\<lambda>_ s. s),
      ku_ReadFile = Inr,
      ku_TopologyYAML = topologyYAML,
      ku_ProfileYAML = profileYAML,
      ku_UUID = (\<lambda>s. s)\<rparr>"

lemma server_fields:
  "ku_Nodes (server_kube gate rc ty py) = table_api sv_nodes sv_nodes_update kn_Name kn_Labels anything without_status
     (\<lambda>old x. describe_as x old) (\<lambda>old x. status_as x old)"
  "ku_Slices (server_kube gate rc ty py) =
     table_api (admitted rc) (admitted_update rc) sl_Name sl_Labels (admissible rc) (gated gate) (\<lambda>_. gated gate) keep_new"
  "ku_HyperNodes (server_kube gate rc ty py) =
     table_api sv_hypers sv_hypers_update hn_Name hn_Labels anything (\<lambda>x. x) keep_new keep_new"
  by (simp_all add: server_kube_def)

interpretation server: kube_store "server_kube gate rc ty py" "\<lambda>s. lookup kn_Name (sv_nodes s)"
    "\<lambda>s. lookup sl_Name (admitted rc s)" "\<lambda>s. lookup hn_Name (sv_hypers s)" gate "(=)"
  for gate rc ty py
proof (intro kube_store.intro kube_store_axioms.intro)
  show "object_store (ku_Nodes (server_kube gate rc ty py)) (\<lambda>s. lookup kn_Name (sv_nodes s))
      (\<lambda>w. (lookup sl_Name (admitted rc w), lookup hn_Name (sv_hypers w))) kn_Name kn_Labels without_status
      (\<lambda>old x. describe_as x old)"
    unfolding server_fields by (rule table_store) (auto simp: without_status_def admitted_def)
  show "object_store (ku_Slices (server_kube gate rc ty py)) (\<lambda>s. lookup sl_Name (admitted rc s))
      (\<lambda>w. (lookup kn_Name (sv_nodes w), lookup hn_Name (sv_hypers w))) sl_Name sl_Labels (gated gate) (\<lambda>_. gated gate)"
    unfolding server_fields by (rule table_store) (auto simp: admitted_def admitted_update_def filter_id_conv)
  show "object_store (ku_HyperNodes (server_kube gate rc ty py)) (\<lambda>s. lookup hn_Name (sv_hypers s))
      (\<lambda>w. (lookup kn_Name (sv_nodes w), lookup sl_Name (admitted rc w))) hn_Name hn_Labels (\<lambda>x. x) keep_new"
    unfolding server_fields by (rule table_store) (auto simp: admitted_def)
next
  fix w x old v u w'
  assume "lookup kn_Name (sv_nodes w) (kn_Name x) = Some old"
    "ap_UpdateStatus (ku_Nodes (server_kube gate rc ty py)) v x w = (u, w')"
  then show "lookup sl_Name (admitted rc w') = lookup sl_Name (admitted rc w) \<and>
      lookup hn_Name (sv_hypers w') = lookup hn_Name (sv_hypers w) \<and>
      (lookup kn_Name (sv_nodes w') = (lookup kn_Name (sv_nodes w))(kn_Name x \<mapsto> status_as x old) \<or>
       lookup kn_Name (sv_nodes w') = lookup kn_Name (sv_nodes w) \<and> (\<exists>e. u = Inl e))"
    using lookup_name [of kn_Name "sv_nodes w" "kn_Name x" old]
    by (auto simp: server_fields table_api_def put_valid_def lookup_replace admitted_def)
next
  fix fn w u w'
  assume "ku_Retry (server_kube gate rc ty py) fn w = (u, w')"
  then show "attempts (=) fn w u w'" by (intro retry_steps_attempts [where n = 4]) (simp add: server_kube_def)
qed (auto simp: server_kube_def table_api_def put_valid_def admitted_def split: if_splits option.splits)

interpretation timed_server: timed_kube sv_clock "server_kube gate rc ty py" rc "\<lambda>xs. xs" for gate rc ty py
proof
  show "ap_List (ku_Slices (server_kube gate rc ty py)) ManagedSelector w = (Inr ss, w') \<Longrightarrow> sized_slices rc ss" for w ss w'
    by (auto simp: server_fields table_api_def listing_def admitted_def admissible_def sized_slices_def)
  show "onward sv_clock fn \<Longrightarrow> onward sv_clock (ku_Retry (server_kube gate rc ty py) fn)" for fn
    by (simp add: server_kube_def retry_steps_onward)
qed (auto simp: server_kube_def admitted_update_def reorders_def onward_def intro!: table_timed)

subsection \<open>The properties at work\<close>

text \<open>
  A server left by an earlier topology: a node of gpu-sim's that the demo topology no longer
  names, and a real one.
\<close>

definition bare_node :: "string \<Rightarrow> (string \<times> string) list \<Rightarrow> kube_node" where
  "bare_node name labels =
     \<lparr>kn_Name = name, kn_Labels = labels, kn_Annotations = [], kn_Taints = [], kn_Capacity = [],
      kn_Allocatable = [], kn_NodeInfo = no_node_info\<rparr>"

definition used_server :: server where
  "used_server =
     \<lparr>sv_clock = 0,
      sv_nodes = [bare_node ''stale'' [(LabelManagedBy, ManagedByValue)], bare_node ''real'' []],
      sv_slices = [], sv_hypers = [], sv_topologies = [], sv_classes = [], sv_namespaces = [],
      sv_deployments = [], sv_jobs = [], sv_pods = [], sv_templates = [], sv_claims = [], sv_groups = [],
      sv_volcano = []\<rparr>"

definition demo_kube :: "bool \<Rightarrow> cluster_topology \<Rightarrow> server kube" where
  "demo_kube gate ct = server_kube gate (\<lambda>xs. xs) (\<lambda>_. Inr ct) (\<lambda>_. Inr sample_profile)"

lemma demo_store:
  "kube_store (demo_kube gate ct) (\<lambda>s. lookup kn_Name (sv_nodes s)) (\<lambda>s. lookup sl_Name (admitted (\<lambda>xs. xs) s))
     (\<lambda>s. lookup hn_Name (sv_hypers s)) gate (=)"
  unfolding demo_kube_def by (rule server.kube_store_axioms)

lemma demo_timed: "timed_kube sv_clock (demo_kube gate ct) (\<lambda>xs. xs) (\<lambda>xs. xs)"
  unfolding demo_kube_def by (rule timed_server.timed_kube_axioms)

lemma resolved_case:
  assumes "case l of Inr ct \<Rightarrow> (case R ct of Some (Inr r) \<Rightarrow> P r | _ \<Rightarrow> False) | _ \<Rightarrow> False"
  shows "\<exists>ct r. l = Inr ct \<and> R ct = Some (Inr r) \<and> P r"
proof (cases l)
  case (Inr ct)
  then obtain x where x: "R ct = Some x" using assms by (cases "R ct") auto
  then show ?thesis using assms Inr by (cases x) auto
qed (use assms in auto)

theorem ApplyTopology_converges_witness:
  "\<exists>res w' r. ApplyTopology (demo_kube True (demo_topology [] [])) ''ns'' ''t'' used_server = Some (Inr res, w') \<and>
     lookup kn_Name (sv_nodes w') = matched kn_Name kn_Labels (Nodes r) (lookup kn_Name (sv_nodes used_server)) \<and>
     tr_Nodes res = int (length (Nodes r))"
proof -
  have "case ApplyTopology (demo_kube True (demo_topology [] [])) ''ns'' ''t'' used_server of
      Some (Inr res, w') \<Rightarrow> True | _ \<Rightarrow> False" by code_simp
  then obtain res w' where "ApplyTopology (demo_kube True (demo_topology [] [])) ''ns'' ''t'' used_server = Some (Inr res, w')"
    by (auto split: option.splits prod.splits sum.splits)
  with ApplyTopology_converges [OF demo_store this] show ?thesis by blast
qed

lemma demo_profiles: "LoadProfile (demo_kube gate ct) ns w = LoadProfile (demo_kube gate ct) ns w'"
  by (simp add: fun_eq_iff LoadProfile_def demo_kube_def server_kube_def)

theorem ApplyTopology_idempotent_witness:
  "\<exists>res w' w''. ApplyTopology (demo_kube True (demo_topology [] [])) ''ns'' ''t'' used_server = Some (Inr res, w') \<and>
     ApplyTopology (demo_kube True (demo_topology [] [])) ''ns'' ''t'' w' = Some (Inr (res\<lparr>tr_Removed := []\<rparr>), w'')"
proof -
  let ?apply = "ApplyTopology (demo_kube True (demo_topology [] [])) ''ns'' ''t''"
  have "case ?apply used_server of
      Some (Inr res, w') \<Rightarrow> (case ?apply w' of Some (Inr res', w'') \<Rightarrow> True | _ \<Rightarrow> False) | _ \<Rightarrow> False" by code_simp
  then obtain res w' res' w'' where "?apply used_server = Some (Inr res, w')" "?apply w' = Some (Inr res', w'')"
    by (auto split: option.splits prod.splits sum.splits)
  with ApplyTopology_idempotent [OF demo_store this demo_profiles] show ?thesis by blast
qed

theorem ApplyTopology_safe_witness:
  "\<exists>q w'. ApplyTopology (demo_kube True (demo_topology [] [])) ''ns'' ''t'' used_server = Some (q, w') \<and>
     lookup kn_Name (sv_nodes w') ''real'' = Some (bare_node ''real'' [])"
proof -
  let ?K = "demo_kube True (demo_topology [] [])"
  obtain q w' where run: "ApplyTopology ?K ''ns'' ''t'' used_server = Some (q, w')"
    using forwardD [OF timed_kube.forward_ApplyTopology [OF demo_timed]] by blast
  have "case Load (ku_ReadFile ?K) (ku_TopologyYAML ?K) ''t'' of Inr ct \<Rightarrow>
        (case Resolve (ku_UUID ?K) (LoadProfile ?K ''ns'' used_server) ct of
           Some (Inr r) \<Rightarrow> ''real'' \<notin> kn_Name ` set (Nodes r) | _ \<Rightarrow> False)
      | _ \<Rightarrow> False" by code_simp
  from resolved_case [OF this] obtain ct r where r: "Load (ku_ReadFile ?K) (ku_TopologyYAML ?K) ''t'' = Inr ct"
    "Resolve (ku_UUID ?K) (LoadProfile ?K ''ns'' used_server) ct = Some (Inr r)" "''real'' \<notin> kn_Name ` set (Nodes r)" by blast
  have "lookup kn_Name (sv_nodes used_server) ''real'' = Some (bare_node ''real'' [])" "\<not> managed (kn_Labels (bare_node ''real'' []))"
    by (simp_all add: lookup_def used_server_def bare_node_def managed_def has_label_def)
  with ApplyTopology_safe [OF demo_store run r(1,2) ResourceSlices_eq] r(3)
  have "lookup kn_Name (sv_nodes w') ''real'' = Some (bare_node ''real'' [])" by blast
  with run show ?thesis by blast
qed

theorem MIG_needs_counters_witness:
  "\<exists>e w'. ApplyTopology (demo_kube False (demo_mig_topology [''1g.10gb''])) ''ns'' ''t'' used_server = Some (Inl e, w') \<and>
     lookup sl_Name (admitted (\<lambda>xs. xs) w') = lookup sl_Name (admitted (\<lambda>xs. xs) used_server)"
proof -
  let ?K = "demo_kube False (demo_mig_topology [''1g.10gb''])"
  obtain q w' where run: "ApplyTopology ?K ''ns'' ''t'' used_server = Some (q, w')"
    using forwardD [OF timed_kube.forward_ApplyTopology [OF demo_timed]] by blast
  have "case Load (ku_ReadFile ?K) (ku_TopologyYAML ?K) ''t'' of Inr ct \<Rightarrow>
        (case Resolve (ku_UUID ?K) (LoadProfile ?K ''ns'' used_server) ct of
           Some (Inr r) \<Rightarrow> resolvedHasMIG r | _ \<Rightarrow> False)
      | _ \<Rightarrow> False" by code_simp
  from resolved_case [OF this] obtain ct r where r: "Load (ku_ReadFile ?K) (ku_TopologyYAML ?K) ''t'' = Inr ct"
    "Resolve (ku_UUID ?K) (LoadProfile ?K ''ns'' used_server) ct = Some (Inr r)" "resolvedHasMIG r" by blast
  from MIG_needs_counters [OF demo_store run r] run show ?thesis by blast
qed

text \<open>A server that does not know a kind answers 404 to every request for it.\<close>

definition unknown_kind :: "('w, 'o) api" where
  "unknown_kind = (let missing = NotFound ''the server could not find the requested resource'' in
     \<lparr>ap_Get = (\<lambda>_ s. (Inl missing, s)), ap_Create = (\<lambda>_ s. (Inl missing, s)), ap_Update = (\<lambda>_ _ s. (Inl missing, s)),
      ap_UpdateStatus = (\<lambda>_ _ s. (Inl missing, s)), ap_Delete = (\<lambda>_ s. (Inl missing, s)),
      ap_DeleteCollection = (\<lambda>s. (Inl missing, s)), ap_List = (\<lambda>_ s. (Inl missing, s))\<rparr>)"

theorem Volcano_missing_fails_witness:
  "\<exists>e w'. ApplyTopology ((demo_kube True (demo_topology [] []))\<lparr>ku_HyperNodes := unknown_kind\<rparr>) ''ns'' ''t'' used_server =
     Some (Inl e, w')"
proof -
  let ?K = "(demo_kube True (demo_topology [] []))\<lparr>ku_HyperNodes := unknown_kind\<rparr>"
  have "case ApplyTopology ?K ''ns'' ''t'' used_server of Some _ \<Rightarrow> True | _ \<Rightarrow> False" by code_simp
  then obtain q w' where "ApplyTopology ?K ''ns'' ''t'' used_server = Some (q, w')"
    by (auto split: option.splits)
  moreover have "\<exists>e. q = Inl e"
    by (rule Volcano_missing_fails [OF _ _ calculation]) (simp_all add: unknown_kind_def Let_def)
  ultimately show ?thesis by blast
qed

definition tainted_server :: server where
  "tainted_server = used_server\<lparr>sv_slices :=
     [\<lparr>sl_Name = ''s'', sl_Labels = [(LabelManagedBy, ManagedByValue)],
        sl_Spec = \<lparr>ss_Driver = DriverName, ss_NodeName = Some ''n1'', ss_PoolName = ''n1'', ss_PoolGeneration = 0,
          ss_PoolSliceCount = 1, ss_SharedCounters = [],
          ss_Devices = [\<lparr>sd_Name = ''d'', sd_Attributes = [], sd_Capacity = [], sd_ConsumesCounters = [], sd_Taints = []\<rparr>]\<rparr>\<rparr>]\<rparr>"

theorem TaintDevices_stored_witness:
  "\<exists>tainted w'. client_TaintDevices (demo_kube True (demo_topology [] [])) \<lparr>dm_Nodes = [(''n1'', True)], dm_Attributes = []\<rparr>
       ''NoExecute'' tainted_server = (Inr tainted, w') \<and>
     lookup sl_Name (admitted (\<lambda>xs. xs) w') ''s'' =
       map_option (taint_slice \<lparr>dm_Nodes = [(''n1'', True)], dm_Attributes = []\<rparr> ''NoExecute'')
         (lookup sl_Name (admitted (\<lambda>xs. xs) tainted_server) ''s'')"
proof -
  let ?K = "demo_kube True (demo_topology [] [])" and ?m = "\<lparr>dm_Nodes = [(''n1'', True)], dm_Attributes = []\<rparr>"
  have "case client_TaintDevices ?K ?m ''NoExecute'' tainted_server of (Inr _, _) \<Rightarrow> True | _ \<Rightarrow> False" by code_simp
  then obtain tainted w' where taint: "client_TaintDevices ?K ?m ''NoExecute'' tainted_server = (Inr tainted, w')"
    by (auto split: prod.splits sum.splits)
  have "\<forall>n s. lookup sl_Name (admitted (\<lambda>xs. xs) tainted_server) n = Some s \<longrightarrow> gated True s = s" by (simp add: gated_def)
  from TaintDevices_stored [OF demo_store taint this]
  have "lookup sl_Name (admitted (\<lambda>xs. xs) w') ''s'' =
      map_option (\<lambda>s. if managed (sl_Labels s) then taint_slice ?m ''NoExecute'' s else s)
        (lookup sl_Name (admitted (\<lambda>xs. xs) tainted_server) ''s'')" by simp
  moreover have "case lookup sl_Name (admitted (\<lambda>xs. xs) tainted_server) ''s'' of Some s \<Rightarrow> managed (sl_Labels s) | None \<Rightarrow> True"
    by code_simp
  ultimately show ?thesis using taint by (auto split: option.splits)
qed

theorem Run_on_cluster_reports_witness:
  "\<exists>res w'. Run (cluster_client (demo_kube True (demo_topology [] [])) ''ns'' (\<lambda>xs. xs) (\<lambda>xs. xs)) demo_scenario used_server =
     Some (res, w')"
  using Run_on_cluster_reports [OF demo_timed demo_scenario_valid(2), of True "demo_topology [] []" "''ns''" used_server]
  by blast

theorem Retire_waits_witness:
  "\<exists>r w'. Retire (demo_kube True (demo_topology [] [])) ''ns'' ''train'' used_server = Some (r, w')"
  using Retire_waits [OF demo_timed, of True "demo_topology [] []" "''ns''" "''train''" used_server] by blast

end
