(* ===== verification/Cli.thy ===== *)
theory Cli
  imports RunnerReport ApiServer "HOL-Library.Sublist"
begin

text \<open>
  cmd/gpu-sim/main.go: the command line, its commands and its exit status, and
  \<open>cluster.New\<close>. The operating system is a record of what the program asks of it; Go's
  \<open>flag\<close> package is modelled as far as the command line uses it (string flags). Only standard
  output is modelled, not what is printed to standard error.
\<close>

subsection \<open>Arguments\<close>

definition isYAML :: "string \<Rightarrow> bool" where
  "isYAML name \<longleftrightarrow> has_suffix ''.yaml'' name \<or> has_suffix ''.yml'' name"

fun splitFlags :: "string list \<Rightarrow> string list \<times> string list" where
  "splitFlags [] = ([], [])"
| "splitFlags (arg # args) =
     (if \<not> has_prefix ''-'' arg then
        (let (flags, positional) = splitFlags args in (flags, arg # positional))
      else if \<not> contains arg ''='' then
        (case args of
           [] \<Rightarrow> ([arg], [])
         | v # rest \<Rightarrow> (let (flags, positional) = splitFlags rest in (arg # v # flags, positional)))
      else (let (flags, positional) = splitFlags args in (arg # flags, positional)))"

record common_flags =
  cf_file :: string
  cf_namespace :: string
  cf_kubeconfig :: string
  cf_jsonPath :: string

definition default_flags :: common_flags where
  "default_flags = \<lparr>cf_file = [], cf_namespace = ''gpu-operator'', cf_kubeconfig = [], cf_jsonPath = []\<rparr>"

definition set_flag :: "string \<Rightarrow> string \<Rightarrow> common_flags \<Rightarrow> common_flags option" where
  "set_flag name v fl =
     (if name = ''f'' \<or> name = ''file'' then Some (fl\<lparr>cf_file := v\<rparr>)
      else if name = ''namespace'' then Some (fl\<lparr>cf_namespace := v\<rparr>)
      else if name = ''kubeconfig'' then Some (fl\<lparr>cf_kubeconfig := v\<rparr>)
      else if name = ''json'' then Some (fl\<lparr>cf_jsonPath := v\<rparr>)
      else None)"

text \<open>\<open>FlagSet.parseOne\<close>: what one argument is to the flag package.\<close>

datatype flag_arg = Operand | Terminator | BadFlag | Flag string "string option"

definition flag_of :: "string \<Rightarrow> flag_arg" where
  "flag_of s =
     (if length s < 2 \<or> hd s \<noteq> CHR ''-'' then Operand
      else if s = ''--'' then Terminator
      else
        (let name = (if s ! 1 = CHR ''-'' then drop 2 s else drop 1 s)
         in if hd name = CHR ''-'' \<or> hd name = CHR ''='' then BadFlag
            else Flag (takeWhile (\<lambda>c. c \<noteq> CHR ''='') name)
                   (if CHR ''='' \<in> set name then Some (tl (dropWhile (\<lambda>c. c \<noteq> CHR ''='') name)) else None)))"

text \<open>\<open>FlagSet.Parse\<close>: the flags set, and the arguments left over.\<close>

fun parse_flags :: "common_flags \<Rightarrow> string list \<Rightarrow> string + (common_flags \<times> string list)" where
  "parse_flags fl [] = Inr (fl, [])"
| "parse_flags fl (arg # args) =
     (case flag_of arg of
        Operand \<Rightarrow> Inr (fl, arg # args)
      | Terminator \<Rightarrow> Inr (fl, args)
      | BadFlag \<Rightarrow> Inl (''bad flag syntax: '' @ arg)
      | Flag name value \<Rightarrow>
          (if set_flag name [] fl = None then
             Inl (if name = ''help'' \<or> name = ''h'' then ''flag: help requested''
                  else ''flag provided but not defined: -'' @ name)
           else
             (case value of
                Some v \<Rightarrow> parse_flags (the (set_flag name v fl)) args
              | None \<Rightarrow>
                  (case args of
                     [] \<Rightarrow> Inl (''flag needs an argument: -'' @ name)
                   | v # rest \<Rightarrow> parse_flags (the (set_flag name v fl)) rest))))"

subsection \<open>The operating system\<close>

datatype json_report = RunReport "(run_result \<times> int) list" | FragmentationReport "node_fragmentation list"

datatype rendered = RenderedNode kube_node | RenderedSlice resource_slice | RenderedTopology kai_topology

text \<open>
  Standard output, files and directories (\<open>True\<close> for a directory), the three steps of
  connecting (the kubeconfig, the Kubernetes client, the dynamic client), the clock, the
  interrupt and the encoders.
\<close>

record 'w os =
  os_Print :: "string \<Rightarrow> 'w \<Rightarrow> 'w"
  os_IsTerminal :: bool
  os_Interrupted :: "'w \<Rightarrow> bool"
  os_Stat :: "string \<Rightarrow> 'w \<Rightarrow> string + bool"
  os_ReadDir :: "string \<Rightarrow> 'w \<Rightarrow> string + (string \<times> bool) list"
  os_Create :: "string \<Rightarrow> 'w \<Rightarrow> (string + unit) \<times> 'w"
  os_Encode :: "string \<Rightarrow> json_report \<Rightarrow> 'w \<Rightarrow> (string + unit) \<times> 'w"
  os_Marshal :: "rendered \<Rightarrow> string + string"
  os_ReadFile :: "string \<Rightarrow> string + string"
  os_ScenarioYAML :: "string \<Rightarrow> string + scenario"
  os_Config :: "string \<Rightarrow> string + string"
  os_Kube :: "string \<Rightarrow> string + 'w kube"
  os_Dynamic :: "string \<Rightarrow> string + unit"
  os_Now :: "'w \<Rightarrow> int \<times> 'w"

text \<open>\<open>cluster.New\<close>.\<close>

definition New :: "'w os \<Rightarrow> string \<Rightarrow> string + 'w kube" where
  "New S kubeconfig =
     (case os_Config S kubeconfig of
        Inl e \<Rightarrow> Inl (''loading kubeconfig: '' @ e)
      | Inr config \<Rightarrow>
          (case os_Kube S config of
             Inl e \<Rightarrow> Inl (''building Kubernetes client: '' @ e)
           | Inr K \<Rightarrow>
               (case os_Dynamic S config of
                  Inl e \<Rightarrow> Inl (''building dynamic client: '' @ e) | Inr _ \<Rightarrow> Inr K)))"

definition println :: "'w os \<Rightarrow> string \<Rightarrow> 'w \<Rightarrow> 'w" where
  "println S line = os_Print S (line @ newline)"

definition usage :: string where
  "usage = concat (map (\<lambda>line. line @ newline)
     [''gpu-sim builds simulated GPU clusters and tests scheduling against them.'', [], ''Usage:'',
      ''  gpu-sim topology apply  -f <topology.yaml>   make the cluster match a topology'',
      ''  gpu-sim topology render -f <topology.yaml>   print the objects without applying them'',
      ''  gpu-sim run <scenario.yaml | directory>      run one scenario or a whole suite'',
      ''  gpu-sim fragmentation                        report MIG capacity that is free but unreachable'', [],
      ''Flags:'',
      ''      --namespace    namespace holding the GPU profiles (default \"gpu-operator\")'',
      ''      --kubeconfig   path to a kubeconfig (default: standard resolution)'',
      ''      --json <file>  also write results as JSON, for CI (run only)''])"

text \<open>A command's error: \<open>errFailed\<close>, a scenario that did not load, or a message.\<close>

datatype cli_error = ScenariosFailed | BadScenario scenario_load_error | Message string

subsection \<open>Running scenarios\<close>

fun scenarioPaths_loop :: "'w os \<Rightarrow> string list \<Rightarrow> 'w \<Rightarrow> string + string list" where
  "scenarioPaths_loop S [] w = Inr []"
| "scenarioPaths_loop S (arg # args) w =
     (case os_Stat S arg w of
        Inl e \<Rightarrow> Inl e
      | Inr isDir \<Rightarrow>
          (case (if \<not> isDir then Inr [arg]
                 else (case os_ReadDir S arg w of
                         Inl e \<Rightarrow> Inl e
                       | Inr entries \<Rightarrow>
                           Inr (map (\<lambda>(name, _). path_join arg name)
                             (filter (\<lambda>(name, dir). \<not> dir \<and> isYAML name) entries)))) of
             Inl e \<Rightarrow> Inl e
           | Inr found \<Rightarrow>
               (case scenarioPaths_loop S args w of Inl e \<Rightarrow> Inl e | Inr paths \<Rightarrow> Inr (found @ paths))))"

definition scenarioPaths :: "'w os \<Rightarrow> string list \<Rightarrow> 'w \<Rightarrow> string + string list" where
  "scenarioPaths S args w =
     (case scenarioPaths_loop S args w of Inl e \<Rightarrow> Inl e | Inr paths \<Rightarrow> Inr (sort paths))"

text \<open>The loop of \<open>runCmd\<close>: \<open>Inl\<close> of the load error that ends the command, or the results.\<close>

fun run_suite ::
    "'w os \<Rightarrow> 'w client \<Rightarrow> string list \<Rightarrow> run_result list \<Rightarrow> 'w \<Rightarrow>
     ((scenario_load_error + run_result list) \<times> 'w) option" where
  "run_suite S C [] results w = Some (Inr results, w)"
| "run_suite S C (path # paths) results w =
     (case Load_scenario (os_ReadFile S) (os_ScenarioYAML S) path of
        Inl e \<Rightarrow> Some (Inl e, w)
      | Inr s \<Rightarrow> do {
          (res, w) \<leftarrow> Run C s w;
          let w = os_Print S (WriteResult (os_IsTerminal S) res) w;
          if os_Interrupted S w then Some (Inr (results @ [res]), w)
          else run_suite S C paths (results @ [res]) w })"

text \<open>Writing the JSON report, where \<open>--json\<close> asks for one.\<close>

definition write_json :: "'w os \<Rightarrow> string \<Rightarrow> json_report \<Rightarrow> 'w \<Rightarrow> (string + unit) \<times> 'w" where
  "write_json S path report w =
     (if path = [] then (Inr (), w)
      else (case os_Create S path w of
              (Inl e, w) \<Rightarrow> (Inl (''creating JSON report: '' @ e), w)
            | (Inr _, w) \<Rightarrow> os_Encode S path report w))"

definition runner_client :: "'w os \<Rightarrow> 'w kube \<Rightarrow> string \<Rightarrow> counter_order \<Rightarrow> profile_order \<Rightarrow> 'w client" where
  "runner_client S K namespace rc rp =
     (cluster_client K namespace rc rp)\<lparr>kc_Progress := \<lambda>line. println S (''    '' @ line)\<rparr>"

definition runCmd ::
    "'w os \<Rightarrow> counter_order \<Rightarrow> profile_order \<Rightarrow> string list \<Rightarrow> 'w \<Rightarrow> (cli_error option \<times> 'w) option" where
  "runCmd S rc rp args w =
     (let (flagArgs, positional) = splitFlags args
      in case parse_flags default_flags flagArgs of
           Inl e \<Rightarrow> Some (Some (Message e), w)
         | Inr (flags, _) \<Rightarrow>
             (if positional = [] then Some (Some (Message ''no scenario file or directory given''), os_Print S usage w)
              else case scenarioPaths S positional w of
                Inl e \<Rightarrow> Some (Some (Message e), w)
              | Inr paths \<Rightarrow>
                  (if paths = [] then Some (Some (Message ''no scenarios found''), w)
                   else case New S (cf_kubeconfig flags) of
                     Inl e \<Rightarrow> Some (Some (Message e), w)
                   | Inr K \<Rightarrow> (case os_Now S w of (start, w) \<Rightarrow> do {
                       (suite, w) \<leftarrow> run_suite S (runner_client S K (cf_namespace flags) rc rp) paths [] w;
                       case suite of
                         Inl e \<Rightarrow> Some (Some (BadScenario e), w)
                       | Inr results \<Rightarrow>
                           (case os_Now S w of (t, w) \<Rightarrow>
                           (let w = os_Print S (WriteSummary (os_IsTerminal S) results (t - start)) w
                            in case write_json S (cf_jsonPath flags) (RunReport (json_results results)) w of
                                 (Inl e, w) \<Rightarrow> Some (Some (Message e), w)
                               | (Inr _, w) \<Rightarrow>
                                   Some (if list_all succeeded results then None else Some ScenariosFailed, w))) }))))"

subsection \<open>The other commands\<close>

fun render_loop :: "'w os \<Rightarrow> rendered list \<Rightarrow> 'w \<Rightarrow> cli_error option \<times> 'w" where
  "render_loop S [] w = (None, w)"
| "render_loop S (x # xs) w =
     (case os_Marshal S x of
        Inl e \<Rightarrow> (Some (Message (''serialising output: '' @ e)), w)
      | Inr out \<Rightarrow> render_loop S xs (os_Print S (''---'' @ newline @ out) w))"

definition renderTopology :: "'w os \<Rightarrow> 'w kube \<Rightarrow> string \<Rightarrow> string \<Rightarrow> 'w \<Rightarrow> (cli_error option \<times> 'w) option" where
  "renderTopology S K namespace path w =
     (case Load (ku_ReadFile K) (ku_TopologyYAML K) path of
        Inl e \<Rightarrow> Some (Some (Message (topo_load_text path e)), w)
      | Inr ct \<Rightarrow> do {
          resolved \<leftarrow> Resolve (ku_UUID K) (LoadProfile K namespace w) ct;
          case resolved of
            Inl e \<Rightarrow> Some (Some (Message (resolve_text e)), w)
          | Inr r \<Rightarrow> do {
              ss \<leftarrow> ResourceSlices r;
              Some (render_loop S
                (map RenderedNode (Nodes r) @ map RenderedSlice ss @ [RenderedTopology (KAITopologyFor r)]) w) } })"

definition applied_text :: "topology_result \<Rightarrow> string" where
  "applied_text res =
     ''applied '' @ itoa (tr_Nodes res) @ '' nodes'' @ newline @
     ''applied '' @ itoa (tr_Slices res) @ '' ResourceSlices covering '' @ itoa (tr_Devices res) @ '' devices'' @ newline @
     ''applied scheduler topology '' @ go_quote (tr_Name res) @ newline @
     (if tr_Removed res \<noteq> [] then
        ''removed '' @ itoa (int (length (tr_Removed res))) @ '' objects no longer in the topology:'' @ newline @
        concat (map (\<lambda>name. ''  '' @ name @ newline) (tr_Removed res))
      else [])"

definition topologyCmd :: "'w os \<Rightarrow> string list \<Rightarrow> 'w \<Rightarrow> (cli_error option \<times> 'w) option" where
  "topologyCmd S args w =
     (case args of
        [] \<Rightarrow> Some (Some (Message ''topology needs a subcommand: apply or render''), os_Print S usage w)
      | action # rest \<Rightarrow>
          (case parse_flags default_flags rest of
             Inl e \<Rightarrow> Some (Some (Message e), w)
           | Inr (flags, _) \<Rightarrow>
               (if cf_file flags = [] then Some (Some (Message ''no topology file given''), os_Print S usage w)
                else case New S (cf_kubeconfig flags) of
                  Inl e \<Rightarrow> Some (Some (Message e), w)
                | Inr K \<Rightarrow>
                    (if action = ''apply'' then do {
                       (res, w) \<leftarrow> ApplyTopology K (cf_namespace flags) (cf_file flags) w;
                       Some (case res of
                           Inl e \<Rightarrow> (Some (Message e), w)
                         | Inr res \<Rightarrow> (None, os_Print S (applied_text res) w)) }
                     else if action = ''render'' then renderTopology S K (cf_namespace flags) (cf_file flags) w
                     else Some (Some (Message (''unknown topology subcommand '' @ go_quote action)), os_Print S usage w)))))"

text \<open>\<open>%-10s\<close>.\<close>

definition pad10 :: "string \<Rightarrow> string" where
  "pad10 s = s @ replicate (10 - length s) (CHR '' '')"

definition gpu_text :: "report \<Rightarrow> string" where
  "gpu_text gpu =
     ''  GPU '' @ itoa (rp_GPUIndex gpu) @ ''   '' @ itoa (rp_FreeMemorySlices gpu) @ '' memory slices free, '' @
     itoa (rp_FreeSMSlices gpu) @ '' SM slices free   largest allocatable: '' @
     (if rp_LargestAllocatable gpu = [] then ''nothing'' else rp_LargestAllocatable gpu) @ newline @
     concat (map (\<lambda>fit.
         ''      '' @ pad10 (pf_Profile fit) @ '' could hold '' @ itoa (pf_Ideal fit) @ '', holds '' @ itoa (pf_Actual fit) @
         ''  -> '' @ itoa (pf_Lost fit) @ '' lost to fragmentation'' @ newline)
       (filter (\<lambda>fit. pf_Lost fit \<noteq> 0) (rp_Profiles gpu)))"

definition node_text :: "node_fragmentation \<Rightarrow> string" where
  "node_text n =
     newline @ nf_Node n @ newline @ concat (map gpu_text (nf_GPUs n)) @
     ''  '' @ itoa (nodeTotalLost n) @ '' partitions lost to fragmentation on this node'' @ newline"

definition fragmentation_report :: "node_fragmentation list \<Rightarrow> string" where
  "fragmentation_report nodes =
     concat (map node_text nodes) @ newline @ itoa (sum_list (map nodeTotalLost nodes)) @
     '' partitions lost to fragmentation in total'' @ newline @ newline"

definition fragmentationCmd ::
    "'w os \<Rightarrow> counter_order \<Rightarrow> profile_order \<Rightarrow> string list \<Rightarrow> 'w \<Rightarrow> (cli_error option \<times> 'w) option" where
  "fragmentationCmd S rc rp args w =
     (case parse_flags default_flags args of
        Inl e \<Rightarrow> Some (Some (Message e), w)
      | Inr (flags, _) \<Rightarrow>
          (case New S (cf_kubeconfig flags) of
             Inl e \<Rightarrow> Some (Some (Message e), w)
           | Inr K \<Rightarrow> do {
               (listed, w) \<leftarrow> client_Fragmentation K rc rp w;
               case listed of
                 Inl e \<Rightarrow> Some (Some (Message e), w)
               | Inr nodes \<Rightarrow>
                   (if nodes = [] then
                      Some (Some (Message ''no MIG-enabled nodes found; apply a topology with mig.enabled first''), w)
                    else
                      (case write_json S (cf_jsonPath flags) (FragmentationReport nodes) w of
                         (Inl e, w) \<Rightarrow> Some (Some (Message e), w)
                       | (Inr _, w) \<Rightarrow> Some (None, os_Print S (fragmentation_report nodes) w))) }))"

subsection \<open>The program\<close>

definition run_command ::
    "'w os \<Rightarrow> counter_order \<Rightarrow> profile_order \<Rightarrow> string list \<Rightarrow> 'w \<Rightarrow> (cli_error option \<times> 'w) option" where
  "run_command S rc rp args w =
     (case args of
        [] \<Rightarrow> Some (Some (Message ''no command given''), os_Print S usage w)
      | cmd # rest \<Rightarrow>
          (if cmd = ''topology'' then topologyCmd S rest w
           else if cmd = ''run'' then runCmd S rc rp rest w
           else if cmd = ''fragmentation'' then fragmentationCmd S rc rp rest w
           else if cmd \<in> {''help'', ''-h'', ''--help''} then Some (None, os_Print S usage w)
           else Some (Some (Message (''unknown command '' @ go_quote cmd)), os_Print S usage w)))"

text \<open>The exit status of \<open>main\<close>.\<close>

definition exit_status :: "cli_error option \<Rightarrow> int" where
  "exit_status err = (case err of None \<Rightarrow> 0 | Some _ \<Rightarrow> 1)"

subsection \<open>Properties\<close>

lemma contains_char: "contains s [c] \<longleftrightarrow> c \<in> set s"
  by (induction s) (auto simp: has_prefix_def)

text \<open>An argument that \<open>splitFlags\<close> takes for a flag, unless it is bare dashes, is one to the flag package.\<close>

lemma flag_of_dash:
  assumes "has_prefix ''-'' arg" "arg \<noteq> ''-''" "arg \<noteq> ''--''"
  shows "flag_of arg = BadFlag \<or> (\<exists>name v. flag_of arg = Flag name v \<and> (v = None \<longleftrightarrow> \<not> contains arg ''=''))"
proof -
  obtain rest where arg: "arg = CHR ''-'' # rest"
    using assms(1) by (cases arg) (simp_all add: has_prefix_def split: if_splits)
  then obtain c cs where rest: "rest = c # cs" using assms(2) by (cases rest) simp_all
  define name where "name = (if c = CHR ''-'' then cs else c # cs)"
  have eq: "contains arg ''='' \<longleftrightarrow> CHR ''='' \<in> set name"
    by (simp add: contains_char arg rest name_def)
  have "flag_of arg = (if hd name = CHR ''-'' \<or> hd name = CHR ''='' then BadFlag
      else Flag (takeWhile (\<lambda>c. c \<noteq> CHR ''='') name)
             (if CHR ''='' \<in> set name then Some (tl (dropWhile (\<lambda>c. c \<noteq> CHR ''='') name)) else None))"
    using assms(3) by (simp add: flag_of_def Let_def arg rest name_def)
  then show ?thesis unfolding eq by (simp split: if_split)
qed

text \<open>What one flag and its value add to the flags split off.\<close>

lemma splitFlags_simps:
  "\<not> has_prefix ''-'' arg \<Longrightarrow> splitFlags (arg # args) = (fst (splitFlags args), arg # snd (splitFlags args))"
  "has_prefix ''-'' arg \<Longrightarrow> contains arg ''='' \<Longrightarrow>
     splitFlags (arg # args) = (arg # fst (splitFlags args), snd (splitFlags args))"
  "has_prefix ''-'' arg \<Longrightarrow> \<not> contains arg ''='' \<Longrightarrow> splitFlags [arg] = ([arg], [])"
  "has_prefix ''-'' arg \<Longrightarrow> \<not> contains arg ''='' \<Longrightarrow>
     splitFlags (arg # v # rest) = (arg # v # fst (splitFlags rest), snd (splitFlags rest))"
  by (simp_all add: Let_def split_beta)

declare splitFlags.simps(2) [simp del]

lemma splitFlags_cases [case_names nil operand inline bare pair]:
  assumes "P []" "\<And>arg args. \<not> has_prefix ''-'' arg \<Longrightarrow> P args \<Longrightarrow> P (arg # args)"
    "\<And>arg args. has_prefix ''-'' arg \<Longrightarrow> contains arg ''='' \<Longrightarrow> P args \<Longrightarrow> P (arg # args)"
    "\<And>arg. has_prefix ''-'' arg \<Longrightarrow> \<not> contains arg ''='' \<Longrightarrow> P [arg]"
    "\<And>arg v rest. has_prefix ''-'' arg \<Longrightarrow> \<not> contains arg ''='' \<Longrightarrow> P rest \<Longrightarrow> P (arg # v # rest)"
  shows "P args"
proof (induction args rule: length_induct)
  case (1 args)
  show ?case
  proof (cases args)
    case (Cons arg rest)
    consider "\<not> has_prefix ''-'' arg" | "has_prefix ''-'' arg" "contains arg ''=''"
      | "has_prefix ''-'' arg" "\<not> contains arg ''=''" by blast
    then show ?thesis
    proof cases
      case 3
      show ?thesis
      proof (cases rest)
        case Nil
        then show ?thesis using assms(4) 3 Cons by simp
      next
        case (Cons v vs)
        moreover have "P vs" using 1 \<open>args = arg # rest\<close> Cons by simp
        ultimately show ?thesis using assms(5) 3 \<open>args = arg # rest\<close> by simp
      qed
    qed (use assms(2,3) 1 Cons in simp_all)
  qed (simp add: assms(1))
qed

lemma splitFlags_parse:
  assumes "set args \<inter> {''-'', ''--''} = {}" "parse_flags fl (fst (splitFlags args)) = Inr (fl', rest)"
  shows "rest = []"
  using assms
proof (induction args arbitrary: fl rule: splitFlags_cases)
  case (operand arg args)
  then show ?case by (simp add: splitFlags_simps)
next
  case (inline arg args)
  then have "flag_of arg = BadFlag \<or> (\<exists>name v. flag_of arg = Flag name (Some v))"
    using flag_of_dash [of arg] by auto
  then show ?case using inline by (auto simp: splitFlags_simps split: if_splits)
next
  case (bare arg)
  then have "flag_of arg = BadFlag \<or> (\<exists>name. flag_of arg = Flag name None)"
    using flag_of_dash [of arg] by auto
  then show ?case using bare by (auto simp: splitFlags_simps split: if_splits)
next
  case (pair arg v rest)
  then have "flag_of arg = BadFlag \<or> (\<exists>name. flag_of arg = Flag name None)"
    using flag_of_dash [of arg] by auto
  then show ?case using pair by (auto simp: splitFlags_simps split: if_splits)
qed simp

text \<open>
  C33. Flags may stand on either side of the paths. \<open>splitFlags\<close> loses and duplicates no argument
  and keeps both groups in order, no positional begins with a dash, and what it hands to the
  flag package (for a command line without the bare arguments \<open>-\<close> and \<open>--\<close>) is consumed to the
  end: parsing never stops early at a path and silently drops the flags after it.
\<close>

theorem splitFlags_lossless:
  "mset (fst (splitFlags args)) + mset (snd (splitFlags args)) = mset args \<and>
   subseq (fst (splitFlags args)) args \<and> subseq (snd (splitFlags args)) args \<and>
   (\<forall>p\<in>set (snd (splitFlags args)). \<not> has_prefix ''-'' p) \<and>
   (set args \<inter> {''-'', ''--''} = {} \<longrightarrow>
      (\<forall>fl fl' rest. parse_flags fl (fst (splitFlags args)) = Inr (fl', rest) \<longrightarrow> rest = []))"
proof (intro conjI impI allI)
  show "mset (fst (splitFlags args)) + mset (snd (splitFlags args)) = mset args"
    by (induction args rule: splitFlags_cases) (simp_all add: splitFlags_simps)
  show "subseq (fst (splitFlags args)) args"
    by (induction args rule: splitFlags_cases) (auto simp: splitFlags_simps)
  show "subseq (snd (splitFlags args)) args"
    by (induction args rule: splitFlags_cases) (auto simp: splitFlags_simps)
  show "\<forall>p\<in>set (snd (splitFlags args)). \<not> has_prefix ''-'' p"
    by (induction args rule: splitFlags_cases) (simp_all add: splitFlags_simps)
  show "rest = []" if "set args \<inter> {''-'', ''--''} = {}" "parse_flags fl (fst (splitFlags args)) = Inr (fl', rest)"
    for fl fl' rest
    using that by (rule splitFlags_parse)
qed

lemma parsed_case:
  "case l of Inr (fl, _) \<Rightarrow> P fl | _ \<Rightarrow> False \<Longrightarrow> \<exists>fl rest. l = Inr (fl, rest) \<and> P fl"
  by (cases l) auto

theorem splitFlags_lossless_witness:
  "\<exists>flags. parse_flags default_flags (fst (splitFlags [''scenarios/'', ''--json'', ''out.json''])) = Inr (flags, []) \<and>
     cf_jsonPath flags = ''out.json''"
proof -
  let ?args = "[''scenarios/'', ''--json'', ''out.json'']"
  have "case parse_flags default_flags (fst (splitFlags ?args)) of Inr (fl, _) \<Rightarrow> cf_jsonPath fl = ''out.json'' | _ \<Rightarrow> False"
    by code_simp
  from parsed_case [OF this] obtain fl rest where
    fl: "parse_flags default_flags (fst (splitFlags ?args)) = Inr (fl, rest)" "cf_jsonPath fl = ''out.json''" by blast
  have "set ?args \<inter> {''-'', ''--''} = {}" by simp
  with splitFlags_lossless [of ?args] fl(1) have "rest = []" by blast
  then show ?thesis using fl by blast
qed

lemma run_suite_results:
  "run_suite S C paths results w = Some (Inr results', w') \<Longrightarrow>
   \<exists>new. results' = results @ new \<and>
     list_all2 (\<lambda>path res. \<exists>s v v'. Load_scenario (os_ReadFile S) (os_ScenarioYAML S) path = Inr s \<and>
        Run C s v = Some (res, v')) (take (length new) paths) new \<and>
     (length new = length paths \<or> os_Interrupted S w') \<and> (paths \<noteq> [] \<longrightarrow> new \<noteq> [])"
proof (induction paths arbitrary: results w)
  case (Cons path paths)
  obtain s where s: "Load_scenario (os_ReadFile S) (os_ScenarioYAML S) path = Inr s"
    using Cons.prems by (auto split: sum.splits)
  obtain res w1 where run: "Run C s w = Some (res, w1)"
    using Cons.prems s by (cases "Run C s w") auto
  let ?w = "os_Print S (WriteResult (os_IsTerminal S) res) w1"
  show ?case
  proof (cases "os_Interrupted S ?w")
    case True
    then show ?thesis using Cons.prems s run by (intro exI [of _ "[res]"]) (auto simp: Let_def)
  next
    case False
    then have "run_suite S C paths (results @ [res]) ?w = Some (Inr results', w')"
      using Cons.prems s run by (simp add: Let_def)
    from Cons.IH [OF this] obtain new where new: "results' = (results @ [res]) @ new"
      "list_all2 (\<lambda>path res. \<exists>s v v'. Load_scenario (os_ReadFile S) (os_ScenarioYAML S) path = Inr s \<and>
        Run C s v = Some (res, v')) (take (length new) paths) new"
      "length new = length paths \<or> os_Interrupted S w'" by blast
    then show ?thesis using s run by (intro exI [of _ "res # new"]) auto
  qed
qed simp

text \<open>
  C27. What exit status 0 of \<open>gpu-sim run\<close> promises. The scenario files named on the command line
  (directories expanded, in sorted order) were run in that order, each loaded and valid; every
  result passed without an error, so the printed summary counts no failure; at least one was
  run, and all of them unless the run was interrupted. An interrupt that comes between
  scenarios does not show in the exit status.
\<close>

theorem runCmd_status:
  assumes "runCmd S rc rp args w = Some (None, w')"
  shows "\<exists>(flags :: common_flags) paths results K v v'. scenarioPaths S (snd (splitFlags args)) w = Inr paths \<and> sorted paths \<and>
     run_suite S (runner_client S K (cf_namespace flags) rc rp) paths [] v = Some (Inr results, v') \<and>
     list_all2 (\<lambda>path res. \<exists>s u u'. Load_scenario (os_ReadFile S) (os_ScenarioYAML S) path = Inr s \<and>
        Run (runner_client S K (cf_namespace flags) rc rp) s u = Some (res, u')) (take (length results) paths) results \<and>
     list_all succeeded results \<and> snd (tally results) = 0 \<and> results \<noteq> [] \<and>
     (length results = length paths \<or> os_Interrupted S v')"
proof -
  obtain flagArgs positional where split: "splitFlags args = (flagArgs, positional)" by (cases "splitFlags args")
  obtain flags rest where flags: "parse_flags default_flags flagArgs = Inr (flags, rest)"
    using assms by (auto simp: runCmd_def split split: sum.splits)
  obtain paths where paths: "scenarioPaths S positional w = Inr paths" "paths \<noteq> []"
    using assms by (auto simp: runCmd_def split flags split: sum.splits if_splits)
  obtain K where K: "New S (cf_kubeconfig flags) = Inr K"
    using assms paths by (auto simp: runCmd_def split flags split: sum.splits if_splits)
  obtain start v where start: "os_Now S w = (start, v)" by (cases "os_Now S w")
  let ?C = "runner_client S K (cf_namespace flags) rc rp"
  obtain results v' where suite: "run_suite S ?C paths [] v = Some (Inr results, v')"
    using assms paths by (auto simp: runCmd_def split flags K start split: bind_splits sum.splits if_splits)
  have good: "list_all succeeded results"
    using assms paths by (auto simp: runCmd_def Let_def split flags K start suite split: prod.splits sum.splits if_splits)
  have sorted: "sorted paths" using paths(1) by (auto simp: scenarioPaths_def split: sum.splits)
  have ran: "list_all2 (\<lambda>path res. \<exists>s u u'. Load_scenario (os_ReadFile S) (os_ScenarioYAML S) path = Inr s \<and>
        Run ?C s u = Some (res, u')) (take (length results) paths) results"
    "length results = length paths \<or> os_Interrupted S v'" "results \<noteq> []"
    using run_suite_results [OF suite] paths(2) by auto
  show ?thesis
    unfolding split snd_conv
    by (rule exI [of _ flags], rule exI [of _ paths], rule exI [of _ results], rule exI [of _ K], rule exI [of _ v],
        rule exI [of _ v'], intro conjI paths(1) sorted suite ran good iffD2 [OF tally_failed good])
qed

text \<open>Every command returns.\<close>

lemma timed_client_progress:
  assumes "timed_client time C" "\<And>line w. time w \<le> time (f line w)"
  shows "timed_client time (C\<lparr>kc_Progress := f\<rparr>)"
  using assms by (simp add: timed_client_def timed_client_axioms_def)

lemma runner_client_timed:
  assumes "timed_kube time K rc rp" "\<And>line w. time w \<le> time (os_Print S line w)"
  shows "timed_client time (runner_client S K namespace rc rp)"
  unfolding runner_client_def println_def
  by (intro timed_client_progress timed_kube.cluster_client_timed [OF assms(1)] assms(2))

lemma run_suite_returns:
  assumes "timed_client time C"
  shows "\<exists>r w'. run_suite S C paths results w = Some (r, w')"
proof (induction paths arbitrary: results w)
  case (Cons path paths)
  show ?case
  proof (cases "Load_scenario (os_ReadFile S) (os_ScenarioYAML S) path")
    case (Inr s)
    then have "scenario_wf s"
      by (auto simp: Load_scenario_def Let_def Validate_scenario_wf split: sum.splits if_splits)
    then obtain res w1 where "Run C s w = Some (res, w1)"
      using forwardD [OF timed_client.forward_Run [OF assms]] by blast
    then show ?thesis using Inr Cons.IH by (simp add: Let_def)
  qed simp
qed simp

lemma renderTopology_returns: "\<exists>r. renderTopology S K namespace path w = Some r"
proof (cases "Load (ku_ReadFile K) (ku_TopologyYAML K) path")
  case (Inr ct)
  from Load_resolves [OF this] obtain res where
    "Resolve (ku_UUID K) (LoadProfile K namespace w) ct = Some res" by blast
  then show ?thesis using Inr by (cases res) (simp_all add: renderTopology_def ResourceSlices_eq)
qed (simp add: renderTopology_def)

lemma runCmd_returns:
  assumes "\<And>kubeconfig K. New S kubeconfig = Inr K \<Longrightarrow> timed_kube time K rc rp"
    and "\<And>line w. time w \<le> time (os_Print S line w)"
  shows "\<exists>err w'. runCmd S rc rp args w = Some (err, w')"
proof -
  have "\<exists>r w'. run_suite S (runner_client S K namespace rc rp) paths [] v = Some (r, w')"
    if "New S kubeconfig = Inr K" for kubeconfig K namespace paths v
    by (rule run_suite_returns [OF runner_client_timed [OF assms(1) [OF that] assms(2)]])
  note suite = this
  obtain flagArgs positional where split: "splitFlags args = (flagArgs, positional)" by (cases "splitFlags args")
  show ?thesis
  proof (cases "parse_flags default_flags flagArgs")
    case (Inr parsed)
    obtain flags rest where flags: "parsed = (flags, rest)" by (cases parsed)
    show ?thesis
    proof (cases "New S (cf_kubeconfig flags)")
      case (Inr K)
      obtain start v where start: "os_Now S w = (start, v)" by (cases "os_Now S w")
      show ?thesis
      proof (cases "scenarioPaths S positional w")
        case (Inr paths)
        obtain r w1 where "run_suite S (runner_client S K (cf_namespace flags) rc rp) paths [] v = Some (r, w1)"
          using suite [OF \<open>New _ _ = _\<close>] by blast
        then show ?thesis using \<open>parse_flags _ _ = _\<close> \<open>New _ _ = _\<close> Inr
          by (simp add: runCmd_def split flags start Let_def split: sum.split prod.split)
      qed (use \<open>parse_flags _ _ = _\<close> in \<open>simp add: runCmd_def split flags\<close>)
    qed (use Inr in \<open>simp add: runCmd_def split flags split: sum.split\<close>)
  qed (simp add: runCmd_def split)
qed

lemma topologyCmd_returns:
  assumes "\<And>kubeconfig K. New S kubeconfig = Inr K \<Longrightarrow> timed_kube time K rc rp"
  shows "\<exists>err w'. topologyCmd S args w = Some (err, w')"
proof (cases args)
  case (Cons action rest)
  show ?thesis
  proof (cases "parse_flags default_flags rest")
    case (Inr parsed)
    obtain flags others where flags: "parsed = (flags, others)" by (cases parsed)
    show ?thesis
    proof (cases "New S (cf_kubeconfig flags)")
      case (Inr K)
      obtain r w1 where "ApplyTopology K (cf_namespace flags) (cf_file flags) w = Some (r, w1)"
        using forwardD [OF timed_kube.forward_ApplyTopology [OF assms [OF Inr]]] by blast
      moreover obtain e w2 where "renderTopology S K (cf_namespace flags) (cf_file flags) w = Some (e, w2)"
        using renderTopology_returns by fast
      ultimately show ?thesis using Cons Inr \<open>parse_flags _ _ = _\<close>
        by (simp add: topologyCmd_def flags split: sum.split)
    qed (use Cons Inr in \<open>simp add: topologyCmd_def flags\<close>)
  qed (use Cons in \<open>simp add: topologyCmd_def\<close>)
qed (simp add: topologyCmd_def)

lemma fragmentationCmd_returns:
  assumes "\<And>kubeconfig K. New S kubeconfig = Inr K \<Longrightarrow> timed_kube time K rc rp"
  shows "\<exists>err w'. fragmentationCmd S rc rp args w = Some (err, w')"
proof (cases "parse_flags default_flags args")
  case (Inr parsed)
  obtain flags others where flags: "parsed = (flags, others)" by (cases parsed)
  show ?thesis
  proof (cases "New S (cf_kubeconfig flags)")
    case (Inr K)
    obtain r w1 where "client_Fragmentation K rc rp w = Some (r, w1)" 
      using forwardD [OF timed_kube.forward_client_Fragmentation [OF assms [OF Inr]]] by blast
    then show ?thesis using Inr \<open>parse_flags _ _ = _\<close>
      by (simp add: fragmentationCmd_def flags split: sum.split prod.split)
  qed (use Inr in \<open>simp add: fragmentationCmd_def flags\<close>)
qed (simp add: fragmentationCmd_def)

text \<open>
  C17. The program ends. Whatever the arguments, files and cluster answers, if the requests of
  every cluster it connects to return without turning the clock back (and published devices
  have sizes), the command returns: no loop runs forever and no step panics.
\<close>

theorem run_command_ends:
  assumes "\<And>config K. os_Kube S config = Inr K \<Longrightarrow> timed_kube time K rc rp"
    and "\<And>line w. time w \<le> time (os_Print S line w)"
  shows "\<exists>err w'. run_command S rc rp args w = Some (err, w')"
proof -
  have connected: "timed_kube time K rc rp" if "New S kubeconfig = Inr K" for kubeconfig K
    using that assms(1) by (auto simp: New_def split: sum.splits)
  note returns = runCmd_returns [OF connected assms(2)] topologyCmd_returns [OF connected] fragmentationCmd_returns [OF connected]
  show ?thesis using returns by (auto simp: run_command_def split: list.split)
qed

text \<open>
  A machine whose cluster is the in-memory server, and a suite of one scenario on it.
\<close>

definition quiet_scenario :: scenario where
  "quiet_scenario = demo_scenario\<lparr>sc_Spec := (sc_Spec demo_scenario)\<lparr>ps_Cluster := \<lparr>cr_Topology = ''/t.yaml'', cr_Scheduler = SchedulerKAI\<rparr>,
     ps_Workloads := [demo_workload], ps_Faults := [],
     ps_Assertions := [demo_assertion\<lparr>as_Running := Some 0\<rparr>]\<rparr>\<rparr>"

definition demo_os :: "server os" where
  "demo_os = \<lparr>os_Print = (\<lambda>_ w. w), os_IsTerminal = False, os_Interrupted = (\<lambda>_. False),
     os_Stat = (\<lambda>path _. Inr (path = ''scenarios'')),
     os_ReadDir = (\<lambda>_ _. Inr [(''a.yml'', False), (''notes.md'', False)]),
     os_Create = (\<lambda>_ w. (Inr (), w)), os_Encode = (\<lambda>_ _ w. (Inr (), w)), os_Marshal = (\<lambda>_. Inr []),
     os_ReadFile = Inr, os_ScenarioYAML = (\<lambda>_. Inr quiet_scenario), os_Config = Inr,
     os_Kube = (\<lambda>_. Inr (demo_kube True (demo_topology [] []))), os_Dynamic = (\<lambda>_. Inr ()),
     os_Now = (\<lambda>s. (sv_clock s, s))\<rparr>"

abbreviation demo_runner :: "server client" where
  "demo_runner \<equiv> runner_client demo_os (demo_kube True (demo_topology [] [])) ''gpu-operator'' (\<lambda>xs. xs) (\<lambda>xs. xs)"

lemmas demo_defs = runner_client_def cluster_client_def demo_kube_def server_kube_def demo_os_def println_def

lemma demo_calls:
  "kc_Now demo_runner w = (sv_clock w, w)" "kc_Progress demo_runner line w = w"
  "kc_AllPods demo_runner ns w = Some (Inr (listing pd_Name pd_Labels None (sv_pods w)), w)"
  "\<exists>w'. kc_EnsureNamespace demo_runner ns w = Some (Inr (), w')"
  "kc_ClearNamespace demo_runner ns w = Some (Inr (),
     w\<lparr>sv_deployments := [], sv_jobs := [], sv_pods := [], sv_templates := [], sv_groups := [], sv_volcano := []\<rparr>)"
  by (auto simp: demo_defs AllPods_def EnsureNamespace_def ClearNamespace_def tolerate_def table_api_def
      put_valid_def split: option.split)

lemma demo_Submit:
  assumes "sv_deployments w = []" "sv_jobs w = []" "sv_pods w = []"
  shows "\<exists>w'. kc_Submit demo_runner ns ob w = Some (Inr (), w') \<and> sv_pods w' = []"
  using assms
  by (auto simp: demo_defs Submit_def create_optional_def tolerate_def table_api_def put_valid_def lookup_def
      split: option.split)

lemma demo_pods: "sv_pods w = [] \<Longrightarrow> kc_WorkloadPods demo_runner ns name w = Some (Inr [], w)"
  by (simp add: demo_defs WorkloadPods_def table_api_def listing_def)

lemma quiet_timeline:
  "timeline quiet_scenario = [\<lparr>ev_at = 0, ev_retire = False, ev_workload = demo_workload, ev_fault = None\<rparr>]"
  by code_simp

lemma quiet_supported: "checkSupported demo_workload SchedulerKAI = None"
  by code_simp

lemma quiet_valid: "Validate_scenario quiet_scenario = []"
  by code_simp

lemma quiet_loads: "Load_scenario Inr (\<lambda>_. Inr quiet_scenario) path = Inr quiet_scenario"
proof -
  have "resolve_topology_path path quiet_scenario = quiet_scenario"
    by (simp add: resolve_topology_path_def quiet_scenario_def path_is_abs_def has_prefix_def Let_def)
  then show ?thesis by (simp add: Load_scenario_def quiet_valid)
qed

lemma quiet_applies:
  "\<exists>topo w'. ApplyTopology (demo_kube True (demo_topology [] [])) ''gpu-operator'' ''/t.yaml'' used_server = Some (Inr topo, w')"
proof -
  have "case ApplyTopology (demo_kube True (demo_topology [] [])) ''gpu-operator'' ''/t.yaml'' used_server of
      Some (Inr res, w') \<Rightarrow> True | _ \<Rightarrow> False" by code_simp
  then show ?thesis by (auto split: option.splits prod.splits sum.splits)
qed

lemma quiet_prepares:
  "\<exists>faults sum w'. prepare demo_runner quiet_scenario used_server = Some ((Inr faults, sum), w') \<and> sv_pods w' = []"
proof -
  have wls: "ps_Workloads (sc_Spec quiet_scenario) = [demo_workload]"
    "cr_Scheduler (ps_Cluster (sc_Spec quiet_scenario)) = SchedulerKAI"
    "cr_Topology (ps_Cluster (sc_Spec quiet_scenario)) = ''/t.yaml''" by (simp_all add: quiet_scenario_def)
  obtain topo w1 where applied: "kc_ApplyTopology demo_runner ''/t.yaml'' used_server = Some (Inr topo, w1)"
    using quiet_applies by (auto simp: runner_client_def cluster_client_def demo_os_def)
  obtain ob0 ob where ob: "Translate demo_workload SchedulerKAI Namespace [] = Inr ob0"
      "Translate demo_workload SchedulerKAI Namespace (tr_Name topo) = Inr ob"
    using translate_supported [OF quiet_supported] by meson
  obtain w2 where ns: "kc_EnsureNamespace demo_runner Namespace w1 = Some (Inr (), w2)" using demo_calls(4) by blast
  let ?w3 = "w2\<lparr>sv_deployments := [], sv_jobs := [], sv_pods := [], sv_templates := [], sv_groups := [], sv_volcano := []\<rparr>"
  have empty: "waitNamespaceEmpty demo_runner ?w3 = Some (Inr (), ?w3)"
    unfolding waitNamespaceEmpty_def demo_calls prod.case by (subst empty_loop.simps) (simp add: demo_calls listing_def)
  obtain w4 where submit: "kc_Submit demo_runner Namespace ob ?w3 = Some (Inr (), w4)" "sv_pods w4 = []"
    using demo_Submit [of ?w3] by auto
  have "runTimeline demo_runner quiet_scenario (map_put (wl_Name demo_workload) ob (map_put (wl_Name demo_workload) ob0 [])) ?w3 =
      Some (Inr [], w4)"
    using submit(1) by (simp add: runTimeline_def quiet_timeline demo_calls wait_until_def run_event_def)
  then show ?thesis
    using submit(2) by (simp add: prepare_def Let_def wls ob demo_calls applied ns empty)
qed

lemma quiet_passes:
  "\<exists>res w'. Run demo_runner quiet_scenario used_server = Some (res, w') \<and> succeeded res"
proof -
  obtain faults sum w where prep: "prepare demo_runner quiet_scenario used_server = Some ((Inr faults, sum), w)" "sv_pods w = []"
    using quiet_prepares by blast
  have spec: "ps_Workloads (sc_Spec quiet_scenario) = [demo_workload]"
    "ps_Assertions (sc_Spec quiet_scenario) = [demo_assertion\<lparr>as_Running := Some 0\<rparr>]" by (simp_all add: quiet_scenario_def)
  have "\<exists>ar. evaluate demo_runner faults (demo_assertion\<lparr>as_Running := Some 0\<rparr>) n w = Some (ar, w) \<and> ar_Passed ar" for n
    using prep(2) evaluate_loop.simps [of demo_runner]
    by (simp add: evaluate_def await_def check_def checkRunning_def placement_of_def demo_calls demo_pods demo_assertion_def Let_def)
  then obtain ar where "evaluate demo_runner faults (demo_assertion\<lparr>as_Running := Some 0\<rparr>)
      (case map_get (replica_counts [demo_workload]) (as_Workload demo_assertion) of None \<Rightarrow> 0 | Some n \<Rightarrow> n) w = Some (ar, w)"
    "ar_Passed ar" by blast
  then show ?thesis
    using prep(1) by (simp add: Run_def demo_calls spec succeeded_def)
qed

theorem runCmd_status_witness:
  "\<exists>w'. runCmd demo_os (\<lambda>xs. xs) (\<lambda>xs. xs) [''demo.yaml''] used_server = Some (None, w') \<and>
     (\<exists>(C :: server client) res u u'. Run C quiet_scenario u = Some (res, u') \<and> succeeded res)"
proof -
  obtain res w' where res: "Run demo_runner quiet_scenario used_server = Some (res, w')" "succeeded res"
    using quiet_passes by blast
  have split: "splitFlags [''demo.yaml''] = ([], [''demo.yaml''])" by code_simp
  have paths: "scenarioPaths demo_os [''demo.yaml''] used_server = Inr [''demo.yaml'']"
    by (simp add: scenarioPaths_def demo_os_def)
  have New: "New demo_os [] = Inr (demo_kube True (demo_topology [] []))" by (simp add: New_def demo_os_def)
  have os: "os_Now demo_os w = (sv_clock w, w)" "os_Print demo_os line w = w" "os_ReadFile demo_os = Inr"
    "os_ScenarioYAML demo_os = (\<lambda>_. Inr quiet_scenario)" "os_Interrupted demo_os w = False" for w line
    by (simp_all add: demo_os_def)
  have run: "runCmd demo_os (\<lambda>xs. xs) (\<lambda>xs. xs) [''demo.yaml''] used_server = Some (None, w')"
    using res by (simp add: runCmd_def split paths New os quiet_loads default_flags_def write_json_def)
  from runCmd_status [OF run] obtain flags :: common_flags and ps results K where
    ps: "scenarioPaths demo_os (snd (splitFlags [''demo.yaml''])) used_server = Inr ps"
    and ran: "list_all2 (\<lambda>path res. \<exists>s u u'. Load_scenario (os_ReadFile demo_os) (os_ScenarioYAML demo_os) path = Inr s \<and>
        Run (runner_client demo_os K (cf_namespace flags) (\<lambda>xs. xs) (\<lambda>xs. xs)) s u = Some (res, u'))
      (take (length results) ps) results"
    and good: "list_all succeeded results" "results \<noteq> []"
    by (elim exE conjE) (rule that)
  have "ps = [''demo.yaml'']" using ps unfolding split snd_conv paths by simp
  with ran good obtain res' u u' where
    "Run (runner_client demo_os K (cf_namespace flags) (\<lambda>xs. xs) (\<lambda>xs. xs)) quiet_scenario u = Some (res', u')" "succeeded res'"
    by (cases results) (auto simp: os quiet_loads)
  with run show ?thesis by blast
qed

theorem run_command_ends_witness:
  "\<exists>err w'. run_command demo_os (\<lambda>xs. xs) (\<lambda>xs. xs) [''run'', ''scenarios'', ''--json=out''] used_server = Some (err, w')"
  by (rule run_command_ends [where time = sv_clock]) (auto simp: demo_os_def demo_timed)

end
