(* ===== verification/Spec2Isabelle.thy ===== *)
theory Spec2Isabelle
  imports MigCapacity GenerateVolcano Cli
begin

text \<open>
  gpu-sim: simulated GPU clusters and scheduling scenarios on them.

  \<^bold>\<open>The program.\<close> One YAML file describes a cluster: pools of GPU nodes, racks, NVLink and fault
  domains, MIG partitioning. The program expands it into per-node and per-GPU facts, generates
  from them the Kubernetes objects that publish the hardware (nodes, DRA ResourceSlices, the KAI
  topology, Volcano's HyperNodes) and makes a cluster match them. A second document, the
  scenario, says which workloads to submit and retire when, which faults to inject, and what must
  then hold; the runner executes it against the cluster and reports the verdict.

  \<^bold>\<open>Data flow.\<close> file \<open>\<rightarrow>\<close> \<open>Load\<close>/\<open>Validate\<close> \<open>\<rightarrow>\<close> \<open>Resolve\<close> \<open>\<rightarrow>\<close> \<open>Nodes\<close>, \<open>ResourceSlices\<close>,
  \<open>KAITopologyFor\<close>, \<open>VolcanoHyperNodes\<close> \<open>\<rightarrow>\<close> \<open>ApplyTopology\<close> \<open>\<rightarrow>\<close> the API server. Scenario
  \<open>\<rightarrow>\<close> \<open>Load_scenario\<close> \<open>\<rightarrow>\<close> \<open>Run\<close> (\<open>ApplyTopology\<close>, \<open>Translate\<close>, the timeline, the assertions)
  \<open>\<rightarrow>\<close> report. \<open>runCmd\<close> repeats that for a suite. The fragmentation report goes the other way: it
  reads back from the published slices and the allocated claims what the generators wrote.

  \<^bold>\<open>Which theory models what.\<close> Each definition has the name of the Go function, type or constant
  it translates, or names the part of one it translates; a Go struct is a record whose selectors
  carry a two-letter prefix.

  \<^item> \<open>GoPrelude\<close>, \<open>GoTime\<close>: what the code uses of Go and its standard library (maps as association
    lists, \<open>strconv\<close>, \<open>strings\<close>, \<open>%q\<close>, \<open>path/filepath\<close>, \<open>time.Duration\<close>), the collection
    \<open>go_simps\<close> and the interfaces \<open>go_map\<close> and \<open>readable_name\<close>.
  \<^item> \<open>MigProfiles\<close>, \<open>MigPartitions\<close>, \<open>MigFragmentation\<close>: internal/mig, one theory per file;
    \<open>MigCapacity\<close>: what its capacity figures mean.
  \<^item> \<open>GpuProfile\<close>: internal/profile. \<open>GpuId\<close>: internal/gpuid.
  \<^item> \<open>Topology\<close>, \<open>TopologyResolve\<close>: internal/topology (types, parse, resolve).
  \<^item> \<open>GenerateNodes\<close>, \<open>GenerateSlices\<close>, \<open>GenerateVolcano\<close>: internal/generate.
  \<^item> \<open>Scenario\<close>: internal/scenario. \<open>Workload\<close>: internal/workload.
  \<^item> \<open>ClusterFragmentation\<close>, \<open>ClusterDevices\<close>: the pure part of internal/cluster, what it
    computes from the objects the API returned.
  \<^item> \<open>KubeApi\<close>: the API requests internal/cluster makes, as a record \<open>kube\<close> of functions of the
    world, and the shapes the client's operations share (write, retry, prune).
    \<open>ClusterApply\<close>: client.go, topology.go, features.go. \<open>ClusterWorkloads\<close>: workloads.go,
    faults.go and the requests of fragmentation.go; its \<open>cluster_client\<close> assembles the methods
    of \<open>cluster.Client\<close>. \<open>ClusterClient\<close>: those methods keep the runner's interface.
    \<open>ApiServer\<close>: an in-memory API server on which the laws hold and the properties are tried.
  \<^item> \<open>RunnerClient\<close>: the runner's view of a client and of the clock, and its fault records.
    \<open>RunnerAssert\<close>: assert.go. \<open>RunnerTimeline\<close>: run.go. \<open>RunnerReport\<close>: report.go.
  \<^item> \<open>Cli\<close>: cmd/gpu-sim/main.go and \<open>cluster.New\<close>.

  \<^bold>\<open>State and effects.\<close> Pure Go functions are HOL functions. A result type \<open>'a option\<close> has \<open>None\<close>
  for "does not return" (a panic or an endless loop); Go's \<open>(T, error)\<close> is a sum with the error on
  the left. Everything outside the process is a world of arbitrary type \<open>'w\<close> that each call takes
  and returns: the records \<open>client\<close> (what the runner calls), \<open>kube\<close> (what the client calls) and
  \<open>os\<close> (what the command calls) hold the calls. The runner's own state is its list of fault
  records, threaded through the timeline. Go does not fix the order in which a map is visited:
  where it can show, it is a parameter. Integers that Go narrows (replica counts) are words.

  \<^bold>\<open>Loops.\<close> A loop over a list is a \<open>fun\<close>. \<open>Placements\<close> and \<open>chunkDevices\<close> are \<open>while_option\<close>s,
  whose results are given for all positive sizes. The polling loops (\<open>evaluate_loop\<close>,
  \<open>empty_loop\<close>, \<open>retire_loop\<close>) are \<open>partial_function (option)\<close>s, so that not returning is \<open>None\<close>.
  They are shown to return by one rule of the locale \<open>clock\<close>: an attempt that does not turn the
  clock back, a deadline, and a wait of at least a second between attempts. There is no fuel,
  except that the reference server of \<open>ApiServer\<close> retries a conflict four times, as
  \<open>retry.DefaultRetry\<close> does.

  \<^bold>\<open>Interfaces.\<close> \<open>object_store\<close> (one kind of object of the API server) and \<open>kube_store\<close> (nodes,
  slices and HyperNodes together, the retry, the feature gate) state what the server is
  documented to do; the client's lemmas about the store are proved inside them. \<open>clock\<close>,
  \<open>timed_client\<close> and \<open>timed_kube\<close> state that calls return and time does not go back; a
  \<open>sublocale\<close> shows that the client's methods over a \<open>timed_kube\<close> form a \<open>timed_client\<close>, which
  composes the runner's lemmas with the client's. \<open>ApiServer\<close> interprets both.
  \<open>go_map\<close> and \<open>readable_name\<close> (a printed name is read back) are interpreted on the model's maps
  and on its name formats.

  \<^bold>\<open>What the lemmas show.\<close>

  \<^item> Documents: validation accepts exactly the well-formed topologies and scenarios
    (\<open>Validate_iff_wf\<close>, \<open>Validate_scenario_iff_wf\<close>); an accepted topology resolves
    (\<open>Resolve_total\<close>), with unique device names and correct NVLink peers.
  \<^item> Generation: the objects describe one machine (\<open>slices_agree_with_nodes\<close>,
    \<open>Volcano_tree_matches_labels\<close>, \<open>KAI_levels_labelled\<close>), within the API's limits
    (\<open>ResourceSlices_published\<close>), and the published counters admit a set of partitions exactly
    when it fits the GPU (\<open>counters_express_geometry\<close>).
  \<^item> Measurement: capacity and fragmentation figures are maxima of what fits
    (\<open>MaxInstances_is_maximum\<close>, \<open>Analyse_actual_is_addable\<close>, \<open>fragmentation_sane\<close>), and what was
    published is read back (\<open>Fragmentation_reads_back\<close>, \<open>published_attributes_readable\<close>).
  \<^item> Applying: the cluster matches the file afterwards (\<open>ApplyTopology_converges\<close>, against the
    specification \<open>matched\<close>), HyperNodes included where Volcano is installed; a second application changes nothing
    (\<open>ApplyTopology_idempotent\<close>), a failure never deletes first and never touches what is not
    gpu-sim's (\<open>ApplyTopology_safe\<close>), and a cluster without counters is refused
    (\<open>MIG_needs_counters\<close>). A fault's taints are stored as specified (\<open>TaintDevices_stored\<close>).
  \<^item> Translating: what a workload asks for is refused or reaches its scheduler
    (\<open>Translate_refuses_or_expresses\<close>), and its pods ask for exactly what was declared
    (\<open>Translate_expresses_intent\<close>).
  \<^item> Running: the timeline is the declared one and is executed in order and on time
    (\<open>timeline_faithful\<close>, \<open>timeline_executed\<close>), on a cluster set up for it (\<open>Run_setup\<close>);
    casualties are the replicas on the killed node or with a device of a tainted name
    (\<open>fire_casualties\<close>), and recovery is judged by pod identity (\<open>recovery_counts_identities\<close>);
    each assertion's verdict is one a check really gave after the wait it asked for
    (\<open>evaluate_verdict\<close>), and the run's verdict is theirs (\<open>Run_verdict\<close>).
  \<^item> Ending: every run reports (\<open>Run_on_cluster_reports\<close>), \<open>Retire\<close> returns (\<open>Retire_waits\<close>) and so
    does every command (\<open>run_command_ends\<close>); what exit status 0 promises is \<open>runCmd_status\<close>.

  Some theorems record behaviour that the documentation does not lead one to expect, among them
  \<open>fire_casualties\<close> and \<open>Translate_refuses_or_expresses\<close> (in the exceptions they state),
  \<open>Volcano_missing_fails\<close>, \<open>Fragmentation_ignores_node\<close>, \<open>NVLink_domain_collision\<close>, \<open>KAI_drops_placement\<close>,
  \<open>replicas_truncated\<close>, \<open>confinedTo_unlabelled_passes\<close> and \<open>late_recovery_passes\<close>.

  \<^bold>\<open>Hypotheses.\<close> The store laws describe a server nobody else writes to: a request may fail, may
  take effect although its answer is an error, and a conflict may be retried, but between two
  requests the objects stay as they are. The laws of time add that published devices have sizes,
  since the fragmentation report divides by them. \<open>uuid_separates\<close> says that the hash of
  github.com/google/uuid does not collide on the names it is given. Each hypothesis has a witness.

  \<^bold>\<open>Not modelled.\<close> YAML and JSON decoding and encoding, the conversion to unstructured objects and
  the kubeconfig machinery, which are libraries and appear as parameters; the texts of scenario
  validation errors; what is printed to standard error (usage of the \<open>flag\<close> package, the error
  line of \<open>main\<close>); other writers of the cluster (schedulers, KWOK, kubelets) beyond the world being
  arbitrary; the cluster changing while the profiles of one topology are read. Code outside Go
  (scripts, charts, manifests) is not part of the development.
\<close>

subsection \<open>The set-up of a run\<close>

text \<open>
  C5. What a run has set up before its first event, over the runner, the client, the generators
  and the translation. A scenario whose timeline ran to the end ran it on a cluster that had
  been made to match its topology (nodes and slices exactly as generated, nothing of an earlier
  topology left), with the summary counting them; the namespace was cleared and then watched until
  it was seen empty, so no pod of an earlier run is counted; and every workload was translated against the
  scheduler topology that was applied.
\<close>

theorem Run_setup:
  assumes "kube_store K nodes slices hypers gate pause"
    and "prepare (runner_client S K namespace rc rp) s w = Some ((Inr faults, smry), w')" "Validate_scenario s = []"
  shows "let path = cr_Topology (ps_Cluster (sc_Spec s)); w0 = println S (''    '' @ ''applying topology '' @ path) w
     in \<exists>ct r ss v v1 v2 v3 v4 objs. Load (ku_ReadFile K) (ku_TopologyYAML K) path = Inr ct \<and>
     Resolve (ku_UUID K) (LoadProfile K namespace w0) ct = Some (Inr r) \<and> ResourceSlices r = Some ss \<and>
     nodes v = matched kn_Name kn_Labels (Nodes r) (nodes w0) \<and> slices v = matched sl_Name sl_Labels ss (slices w0) \<and>
     cs_NodeCount smry = int (length (Nodes r)) \<and>
     cs_DeviceCount smry = sum_list (map (\<lambda>s. int (length (ss_Devices (sl_Spec s)))) ss) \<and>
     (\<forall>wl\<in>set (ps_Workloads (sc_Spec s)). \<exists>ob. map_get objs (wl_Name wl) = Some ob \<and>
        Translate wl (cr_Scheduler (ps_Cluster (sc_Spec s))) Namespace (kt_Name (KAITopologyFor r)) = Inr ob) \<and>
     EnsureNamespace K Namespace v = (Inr (), v1) \<and> ClearNamespace K Namespace v1 = (Inr (), v2) \<and>
     waitNamespaceEmpty (runner_client S K namespace rc rp) v2 = Some (Inr (), v4) \<and> AllPods K Namespace v3 = (Inr [], v4) \<and>
     runTimeline (runner_client S K namespace rc rp) s objs v4 = Some (Inr faults, w')"
proof -
  let ?C = "runner_client S K namespace rc rp" and ?sched = "cr_Scheduler (ps_Cluster (sc_Spec s))"
    and ?path = "cr_Topology (ps_Cluster (sc_Spec s))" and ?wls = "ps_Workloads (sc_Spec s)"
  obtain objs0 topo v objs v1 v2 v3 where
    topo: "kc_ApplyTopology ?C ?path (kc_Progress ?C (''applying topology '' @ ?path) w) = Some (Inr topo, v)"
    and objs: "translate_all ?sched (tr_Name topo) ?wls objs0 = Inr objs"
    and ns: "kc_EnsureNamespace ?C Namespace v = Some (Inr (), v1)" "kc_ClearNamespace ?C Namespace v1 = Some (Inr (), v2)"
    and wait: "waitNamespaceEmpty ?C v2 = Some (Inr (), v3)"
    and run: "runTimeline ?C s objs v3 = Some (Inr faults, w')"
    and smry: "smry = \<lparr>cs_Topology = tr_Name topo, cs_NodeCount = tr_Nodes topo, cs_DeviceCount = tr_Devices topo,
       cs_Scheduler = ?sched\<rparr>"
    by (rule prepare_steps [OF assms(2)])
  have "distinct (map wl_Name ?wls)"
    using assms(3) by (simp add: Validate_scenario_wf scenario_wf_def Let_def)
  note each = translate_all_each [OF objs this, THEN conjunct1]
  obtain v4 where "kc_AllPods ?C Namespace v4 = Some (Inr [], v3)"
    using wait empty_loop_empty [of ?C] by (auto simp: waitNamespaceEmpty_def split: prod.splits)
  then have pods: "AllPods K Namespace v4 = (Inr [], v3)" by (simp add: runner_client_def cluster_client_def)
  let ?w0 = "println S (''    '' @ ''applying topology '' @ ?path) w"
  have "ApplyTopology K namespace ?path ?w0 = Some (Inr topo, v)"
    using topo by (simp add: runner_client_def cluster_client_def)
  from ApplyTopology_result [OF assms(1) this] obtain ct r ss where
    applied: "Load (ku_ReadFile K) (ku_TopologyYAML K) ?path = Inr ct"
      "Resolve (ku_UUID K) (LoadProfile K namespace ?w0) ct = Some (Inr r)" "ResourceSlices r = Some ss"
      "nodes v = matched kn_Name kn_Labels (Nodes r) (nodes ?w0)" "slices v = matched sl_Name sl_Labels ss (slices ?w0)"
    and counts: "tr_Nodes topo = int (length (Nodes r))"
      "tr_Devices topo = sum_list (map (\<lambda>s. int (length (ss_Devices (sl_Spec s)))) ss)" "tr_Name topo = kt_Name (KAITopologyFor r)"
    by (auto simp: KAITopologyFor_def)
  have "EnsureNamespace K Namespace v = (Inr (), v1)" "ClearNamespace K Namespace v1 = (Inr (), v2)"
    using ns by (simp_all add: runner_client_def cluster_client_def)
  with applied counts each pods wait run smry show ?thesis
    unfolding Let_def by (metis cluster_summary.select_convs(2,3))
qed

theorem Run_setup_witness:
  "\<exists>faults smry w' r v3 objs. prepare demo_runner quiet_scenario used_server = Some ((Inr faults, smry), w') \<and>
     cs_NodeCount smry = int (length (Nodes r)) \<and> (\<exists>ob. map_get objs ''train'' = Some ob) \<and>
     runTimeline demo_runner quiet_scenario objs v3 = Some (Inr faults, w')"
proof -
  obtain faults smry w' where "prepare demo_runner quiet_scenario used_server = Some ((Inr faults, smry), w')"
    using quiet_prepares by blast
  moreover from Run_setup [OF demo_store this quiet_valid, unfolded Let_def] obtain r v3 objs where
    "cs_NodeCount smry = int (length (Nodes r))" "runTimeline demo_runner quiet_scenario objs v3 = Some (Inr faults, w')"
    "\<forall>wl\<in>set (ps_Workloads (sc_Spec quiet_scenario)). \<exists>ob. map_get objs (wl_Name wl) = Some ob"
    by blast
  ultimately show ?thesis by (fastforce simp: quiet_scenario_def demo_workload_def)
qed

end
